(* ===== verification/GoPrelude.thy ===== *)
theory GoPrelude
  imports Main "HOL-Library.AList" "HOL-Library.Char_ord" "HOL-Library.List_Lexorder"
begin

text \<open>
  What every component shares: the part of Go's standard library the sources use on strings,
  slices and maps, and the generic lemmas the component theories rest on.

  A Go \<open>string\<close> is the list of its bytes. A Go \<open>map\<close> is an association list read with
  \<^const>\<open>map_of\<close>, written with \<^const>\<open>AList.update\<close> and \<^const>\<open>AList.delete\<close>; its keys are
  distinct (\<open>gm_ok\<close>). The order of the pairs is the order in which a \<open>range\<close> loop visits
  them: Go leaves that order open, so a theorem about every association list is a theorem
  about every iteration order. \<open>sort.Slice\<close> on a string key is \<^const>\<open>sort_key\<close>.
\<close>

section \<open>Collections of facts\<close>

named_theorems go_defs \<open>definitions that a proof may always unfold\<close>
named_theorems gm_simps \<open>reading and writing of Go maps\<close>

section \<open>Strings\<close>

type_synonym gostring = "char list"

text \<open>\<open>strings.HasPrefix\<close>, \<open>HasSuffix\<close>, \<open>TrimPrefix\<close>, \<open>TrimSuffix\<close>, \<open>Contains\<close>\<close>

definition has_prefix :: "gostring \<Rightarrow> gostring \<Rightarrow> bool" where
  "has_prefix s p \<longleftrightarrow> take (length p) s = p"

definition has_suffix :: "gostring \<Rightarrow> gostring \<Rightarrow> bool" where
  "has_suffix s p \<longleftrightarrow> has_prefix (rev s) (rev p)"

definition trim_prefix :: "gostring \<Rightarrow> gostring \<Rightarrow> gostring" where
  "trim_prefix s p = (if has_prefix s p then drop (length p) s else s)"

definition trim_suffix :: "gostring \<Rightarrow> gostring \<Rightarrow> gostring" where
  "trim_suffix s p = (if has_suffix s p then take (length s - length p) s else s)"

fun str_contains :: "gostring \<Rightarrow> gostring \<Rightarrow> bool" where
  "str_contains [] p = (p = [])"
| "str_contains (c # cs) p = (has_prefix (c # cs) p \<or> str_contains cs p)"

text \<open>\<open>strings.Cut(s, sep)\<close>: the text before and after the first \<open>sep\<close>, and whether it occurs.\<close>

fun str_cut :: "gostring \<Rightarrow> gostring \<Rightarrow> gostring \<times> gostring \<times> bool" where
  "str_cut [] sep = ([], [], sep = [])"
| "str_cut (c # cs) sep =
     (if has_prefix (c # cs) sep then ([], drop (length sep) (c # cs), True)
      else (case str_cut cs sep of (b, a, ok) \<Rightarrow>
              if ok then (c # b, a, True) else (c # cs, [], False)))"

text \<open>
  \<open>strings.Split(s, sep)\<close>; an empty separator splits after every byte (the sources never
  pass one).
\<close>

lemma str_cut_len: "str_cut s sep = (b, a, True) \<Longrightarrow> sep \<noteq> [] \<Longrightarrow> length a < length s"
proof (induction s arbitrary: b a)
  case (Cons c cs)
  then show ?case
    by (fastforce split: if_splits prod.splits)
qed simp

function str_split :: "gostring \<Rightarrow> gostring \<Rightarrow> gostring list" where
  "str_split s sep =
     (if sep = [] then map (\<lambda>c. [c]) s
      else (case str_cut s sep of (b, a, ok) \<Rightarrow> if ok then b # str_split a sep else [s]))"
  by pat_completeness auto
termination
  by (relation "measure (\<lambda>(s, sep). length s)") (auto dest: str_cut_len [OF sym])

declare str_split.simps [simp del]

text \<open>\<open>strings.Join(parts, sep)\<close>\<close>

fun str_join :: "gostring list \<Rightarrow> gostring \<Rightarrow> gostring" where
  "str_join [] sep = []"
| "str_join [x] sep = x"
| "str_join (x # y # xs) sep = x @ sep @ str_join (y # xs) sep"

text \<open>\<open>strings.ToLower\<close> on ASCII\<close>

definition char_lower :: "char \<Rightarrow> char" where
  "char_lower c = (let n = of_char c :: nat in if 65 \<le> n \<and> n \<le> 90 then char_of (n + 32) else c)"

definition to_lower :: "gostring \<Rightarrow> gostring" where
  "to_lower s = map char_lower s"

lemma has_prefix_iff: "has_prefix s p \<longleftrightarrow> (\<exists>t. s = p @ t)"
  by (auto simp: has_prefix_def) (metis append_take_drop_id)

lemma has_prefix_append [simp]: "has_prefix (p @ t) p"
  by (simp add: has_prefix_def)

lemma has_prefix_Nil [simp]: "has_prefix s []"
  by (simp add: has_prefix_def)

lemma has_prefix_Nil_Cons [simp]: "has_prefix [] (c # cs) = False"
  by (simp add: has_prefix_def)

lemma has_prefix_Cons [simp]:
  "has_prefix (x # xs) (y # ys) \<longleftrightarrow> x = y \<and> has_prefix xs ys"
  by (auto simp: has_prefix_def)

lemma trim_prefix_append [simp]: "trim_prefix (p @ t) p = t"
  by (simp add: trim_prefix_def)

lemma has_suffix_append [simp]: "has_suffix (t @ p) p"
  by (simp add: has_suffix_def)

lemma trim_suffix_append [simp]: "trim_suffix (t @ p) p = t"
  by (simp add: trim_suffix_def)

lemma str_cut_single_notin:
  "c \<notin> set s \<Longrightarrow> str_cut s [c] = (s, [], False)"
  by (induction s) auto

lemma str_cut_single:
  "c \<notin> set b \<Longrightarrow> str_cut (b @ c # a) [c] = (b, a, True)"
  by (induction b) auto

lemma str_cut_sound:
  "str_cut s sep = (b, a, ok) \<Longrightarrow>
     (if ok then s = b @ sep @ a else b = s \<and> a = [])"
proof (induction s arbitrary: b a ok)
  case Nil
  then show ?case by auto
next
  case (Cons c cs)
  show ?case
  proof (cases "has_prefix (c # cs) sep")
    case True
    then have "c # cs = sep @ drop (length sep) (c # cs)"
      unfolding has_prefix_def by (metis append_take_drop_id)
    with Cons.prems True show ?thesis by auto
  next
    case False
    obtain b' a' ok' where r: "str_cut cs sep = (b', a', ok')"
      by (cases "str_cut cs sep") auto
    from Cons.IH [OF r] Cons.prems False r show ?thesis
      by (auto split: if_splits)
  qed
qed

text \<open>
  Where the separator cannot start inside \<open>b\<close>, cutting \<open>b @ sep @ a\<close> gives back the parts:
  no suffix of \<open>b\<close>, continued by \<open>sep @ a\<close>, has \<open>sep\<close> as its prefix.
\<close>

lemma str_cut_append:
  assumes "\<And>u v. b = u @ v \<Longrightarrow> v \<noteq> [] \<Longrightarrow> \<not> has_prefix (v @ sep @ a) sep"
  shows "str_cut (b @ sep @ a) sep = (b, a, True)"
  using assms
proof (induction b)
  case Nil
  have "has_prefix (sep @ a) sep" and "drop (length sep) (sep @ a) = a" by simp_all
  then show ?case
    by (cases "sep @ a") (simp_all del: drop_append)
next
  case (Cons c cs)
  from Cons.prems [of "[]" "c # cs"] have np: "\<not> has_prefix (c # cs @ sep @ a) sep" by simp
  have "\<And>u v. cs = u @ v \<Longrightarrow> v \<noteq> [] \<Longrightarrow> \<not> has_prefix (v @ sep @ a) sep"
    using Cons.prems [of "c # u" for u] by simp
  from Cons.IH [OF this] np show ?case by simp
qed

lemma str_cut_append_fresh:
  assumes "sep = c # rest" and "c \<notin> set b"
  shows "str_cut (b @ sep @ a) sep = (b, a, True)"
proof (rule str_cut_append)
  fix u v assume "b = u @ v" and "v \<noteq> []"
  with assms(2) obtain d ds where "v = d # ds" and "d \<noteq> c" by (cases v) auto
  with assms(1) show "\<not> has_prefix (v @ sep @ a) sep" by simp
qed

lemma str_cut_fresh:
  assumes "sep = c # rest" and "c \<notin> set s"
  shows "str_cut s sep = (s, [], False)"
  using assms by (induction s) auto

section \<open>Sorting on a string key\<close>

lemma sorted_distinct_keys_unique:
  assumes "inj_on f (set xs)" and "distinct xs" and "set ys = set xs" and "distinct ys"
    and "sorted (map f ys)"
  shows "ys = sort_key f xs"
proof -
  have i: "inj_on f (set ys \<union> set (sort_key f xs))"
    using assms(1,3) by simp
  have "map f ys = map f (sort_key f xs)"
    by (rule sorted_distinct_set_unique)
      (use assms in \<open>auto simp: distinct_map\<close>)
  with i show ?thesis
    by (auto simp: inj_on_map_eq_map)
qed

lemma mem_set_sort_key [simp]: "x \<in> set (sort_key f xs) \<longleftrightarrow> x \<in> set xs"
  by simp

section \<open>Go maps\<close>

type_synonym ('k, 'v) gomap = "('k \<times> 'v) list"

abbreviation gm_keys :: "('k, 'v) gomap \<Rightarrow> 'k list" where
  "gm_keys m \<equiv> map fst m"

definition gm_ok :: "('k, 'v) gomap \<Rightarrow> bool" where
  "gm_ok m \<longleftrightarrow> distinct (gm_keys m)"

text \<open>Reading a key that is absent gives the zero value, as \<open>v := m[k]\<close> does.\<close>

definition gm_str :: "('k, gostring) gomap \<Rightarrow> 'k \<Rightarrow> gostring" where
  "gm_str m k = (case map_of m k of None \<Rightarrow> [] | Some v \<Rightarrow> v)"

definition gm_bool :: "('k, bool) gomap \<Rightarrow> 'k \<Rightarrow> bool" where
  "gm_bool m k = (case map_of m k of None \<Rightarrow> False | Some v \<Rightarrow> v)"

definition gm_list :: "('k, 'v list) gomap \<Rightarrow> 'k \<Rightarrow> 'v list" where
  "gm_list m k = (case map_of m k of None \<Rightarrow> [] | Some v \<Rightarrow> v)"

text \<open>\<open>for k, v := range add { m[k] = v }\<close>\<close>

definition gm_merge :: "('k, 'v) gomap \<Rightarrow> ('k, 'v) gomap \<Rightarrow> ('k, 'v) gomap" where
  "gm_merge m add = fold (\<lambda>(k, v). AList.update k v) add m"

lemma gm_ok_Nil [simp]: "gm_ok []"
  by (simp add: gm_ok_def)

lemma gm_ok_update [simp]: "gm_ok m \<Longrightarrow> gm_ok (AList.update k v m)"
  by (simp add: gm_ok_def distinct_update)

lemma gm_ok_delete [simp]: "gm_ok m \<Longrightarrow> gm_ok (AList.delete k m)"
  by (simp add: gm_ok_def distinct_delete)

lemma gm_ok_Cons: "gm_ok ((k, v) # m) \<longleftrightarrow> k \<notin> set (gm_keys m) \<and> gm_ok m"
  by (simp add: gm_ok_def)

lemma gm_ok_filter [simp]: "gm_ok m \<Longrightarrow> gm_ok (filter P m)"
  by (simp add: gm_ok_def distinct_map_filter)

lemma map_of_update [simp, gm_simps]:
  "map_of (AList.update k v m) = (map_of m)(k \<mapsto> v)"
  by (simp add: update_conv')

lemma map_of_delete [simp, gm_simps]: "map_of (AList.delete k m) = (map_of m)(k := None)"
  by (simp add: delete_conv')

lemma gm_mem_iff: "gm_ok m \<Longrightarrow> (k, v) \<in> set m \<longleftrightarrow> map_of m k = Some v"
  by (simp add: gm_ok_def)

lemma gm_keys_iff: "k \<in> set (gm_keys m) \<longleftrightarrow> map_of m k \<noteq> None"
  by (auto simp: map_of_eq_None_iff)

lemma keys_update [simp]: "set (gm_keys (AList.update k v m)) = insert k (set (gm_keys m))"
  by (metis dom_map_of_conv_image_fst dom_fun_upd map_of_update option.distinct(1) set_map)

lemma fst_image_iff: "k \<in> fst ` set m \<longleftrightarrow> map_of m k \<noteq> None"
  by (auto simp: map_of_eq_None_iff)

lemma gm_ok_merge [simp]: "gm_ok m \<Longrightarrow> gm_ok (gm_merge m add)"
  unfolding gm_merge_def by (induction add arbitrary: m) auto

lemma gm_merge_Nil [simp]: "gm_merge m [] = m"
  by (simp add: gm_merge_def)

lemma gm_merge_Cons: "gm_merge m ((k, v) # add) = gm_merge (AList.update k v m) add"
  by (simp add: gm_merge_def)

lemma map_of_gm_merge [gm_simps]:
  "gm_ok add \<Longrightarrow>
     map_of (gm_merge m add) k =
       (case map_of add k of Some v \<Rightarrow> Some v | None \<Rightarrow> map_of m k)"
proof (induction add arbitrary: m)
  case (Cons p add)
  obtain a b where "p = (a, b)" by (cases p)
  with Cons show ?case
    by (auto simp: gm_merge_Cons gm_ok_Cons fst_image_iff split: option.splits)
qed simp

lemma gm_str_Some: "map_of m k = Some v \<Longrightarrow> gm_str m k = v"
  by (simp add: gm_str_def)

lemma gm_str_update [simp]: "gm_str (AList.update k v m) j = (if j = k then v else gm_str m j)"
  by (simp add: gm_str_def)

lemma gm_bool_update [simp]: "gm_bool (AList.update k v m) j = (if j = k then v else gm_bool m j)"
  by (simp add: gm_bool_def)

lemma gm_list_update [simp]: "gm_list (AList.update k v m) j = (if j = k then v else gm_list m j)"
  by (simp add: gm_list_def)

section \<open>The interface of a keyed store\<close>

text \<open>
  Many components keep a table they read by key and write by key. The laws below are what
  their lemmas use of it; a client that fills a table in a loop reasons with
  \<open>get_put_all\<close> instead of with the representation.
\<close>

locale keyed_store =
  fixes get :: "'m \<Rightarrow> 'k \<Rightarrow> 'v option"
    and put :: "'k \<Rightarrow> 'v \<Rightarrow> 'm \<Rightarrow> 'm"
    and del :: "'k \<Rightarrow> 'm \<Rightarrow> 'm"
    and ok :: "'m \<Rightarrow> bool"
  assumes get_put: "get (put k v m) j = (if j = k then Some v else get m j)"
    and get_del: "get (del k m) j = (if j = k then None else get m j)"
    and ok_put: "ok m \<Longrightarrow> ok (put k v m)"
    and ok_del: "ok m \<Longrightarrow> ok (del k m)"
begin

lemma ok_put_all: "ok m \<Longrightarrow> ok (fold (\<lambda>x. put (f x) (g x)) xs m)"
  by (induction xs arbitrary: m) (auto intro: ok_put)

lemma get_put_all_other:
  "j \<notin> f ` set xs \<Longrightarrow> get (fold (\<lambda>x. put (f x) (g x)) xs m) j = get m j"
  by (induction xs arbitrary: m) (auto simp: get_put)

lemma get_put_all_defined:
  "get (fold (\<lambda>x. put (f x) (g x)) xs m) j \<noteq> None \<longleftrightarrow> j \<in> f ` set xs \<or> get m j \<noteq> None"
  by (induction xs arbitrary: m) (auto simp: get_put)

lemma get_del_all:
  "get (fold del ks m) j = (if j \<in> set ks then None else get m j)"
  by (induction ks arbitrary: m) (auto simp: get_del)

lemma get_put_del_move:
  "k \<noteq> k' \<Longrightarrow> get (put k' v (del k m)) k = None \<and> get (put k' v (del k m)) k' = Some v"
  by (simp add: get_put get_del)

end

interpretation gomap: keyed_store "map_of" "AList.update" "AList.delete" gm_ok
  by unfold_locales auto

section \<open>Maps of maps\<close>

text \<open>
  \<open>m[a][b]\<close>, with the inner map made on the first write, as \<open>ObjectByGVK.Add\<close> and
  \<open>triggers.register\<close> do.
\<close>

definition nm_get :: "('a, ('b, 'v) gomap) gomap \<Rightarrow> 'a \<times> 'b \<Rightarrow> 'v option" where
  "nm_get m = (\<lambda>(a, b). case map_of m a of None \<Rightarrow> None | Some i \<Rightarrow> map_of i b)"

definition nm_put :: "'a \<times> 'b \<Rightarrow> 'v \<Rightarrow> ('a, ('b, 'v) gomap) gomap \<Rightarrow> ('a, ('b, 'v) gomap) gomap" where
  "nm_put = (\<lambda>(a, b) v m. AList.update a (AList.update b v (gm_list m a)) m)"

definition nm_del :: "'a \<times> 'b \<Rightarrow> ('a, ('b, 'v) gomap) gomap \<Rightarrow> ('a, ('b, 'v) gomap) gomap" where
  "nm_del = (\<lambda>(a, b) m. AList.update a (AList.delete b (gm_list m a)) m)"

definition nm_ok :: "('a, ('b, 'v) gomap) gomap \<Rightarrow> bool" where
  "nm_ok m \<longleftrightarrow> gm_ok m \<and> (\<forall>p \<in> set m. gm_ok (snd p))"

lemma nm_ok_Nil [simp]: "nm_ok []"
  by (simp add: nm_ok_def)

lemma nm_ok_gm_ok: "nm_ok m \<Longrightarrow> gm_ok m"
  by (simp add: nm_ok_def)

lemma gm_ok_gm_list: "nm_ok m \<Longrightarrow> gm_ok (gm_list m a)"
  by (force simp: nm_ok_def gm_list_def dest: map_of_SomeD split: option.splits)

lemma nm_get_gm_list: "nm_get m (a, b) = map_of (gm_list m a) b"
  by (simp add: nm_get_def gm_list_def split: option.splits)

lemma set_update_subset: "set (AList.update k v m) \<subseteq> insert (k, v) (set m)"
  by (induction m) auto

lemma nm_ok_update:
  "nm_ok m \<Longrightarrow> gm_ok i \<Longrightarrow> nm_ok (AList.update a i m)"
  using set_update_subset [of a i m] by (fastforce simp: nm_ok_def)

interpretation nested: keyed_store nm_get nm_put nm_del nm_ok
proof
  show "nm_get (nm_put k v m) j = (if j = k then Some v else nm_get m j)"
    for k j :: "'a \<times> 'b" and v :: 'c and m
    by (cases k; cases j) (auto simp: nm_put_def nm_get_gm_list)
  show "nm_get (nm_del k m) j = (if j = k then None else nm_get m j)"
    for k j :: "'a \<times> 'b" and m :: "('a, ('b, 'c) gomap) gomap"
    by (cases k; cases j) (auto simp: nm_del_def nm_get_gm_list)
  show "nm_ok m \<Longrightarrow> nm_ok (nm_put k v m)" for k :: "'a \<times> 'b" and v :: 'c and m
    by (cases k) (auto simp: nm_put_def gm_ok_gm_list intro!: nm_ok_update)
  show "nm_ok m \<Longrightarrow> nm_ok (nm_del k m)"
    for k :: "'a \<times> 'b" and m :: "('a, ('b, 'c) gomap) gomap"
    by (cases k) (auto simp: nm_del_def gm_ok_gm_list intro!: nm_ok_update)
qed

text \<open>All pairs of a map of maps, in the order two nested \<open>range\<close> loops visit them.\<close>

definition nm_pairs :: "('a, ('b, 'v) gomap) gomap \<Rightarrow> (('a \<times> 'b) \<times> 'v) list" where
  "nm_pairs m = concat (map (\<lambda>(a, i). map (\<lambda>(b, v). ((a, b), v)) i) m)"

lemma map_of_pair_fst:
  "map_of (map (\<lambda>(b, v). ((a, b), v)) i) (a', b') = (if a' = a then map_of i b' else None)"
  by (induction i) auto

lemma nm_pairs_get:
  assumes "nm_ok m"
  shows "map_of (nm_pairs m) p = nm_get m p"
proof -
  obtain a b where p: "p = (a, b)" by (cases p)
  from assms have "gm_ok m" by (rule nm_ok_gm_ok)
  then have "map_of (nm_pairs m) (a, b) = nm_get m (a, b)"
  proof (induction m)
    case (Cons x m)
    obtain c i where x: "x = (c, i)" by (cases x)
    with Cons have "map_of (nm_pairs m) (a, b) = nm_get m (a, b)" by (simp add: gm_ok_Cons)
    moreover from Cons.prems x have "a = c \<Longrightarrow> nm_get m (a, b) = None"
      by (auto simp: gm_ok_Cons nm_get_def fst_image_iff)
    ultimately show ?case
      using x by (auto simp: nm_pairs_def map_add_def map_of_pair_fst nm_get_def split: option.splits)
  qed (simp add: nm_pairs_def nm_get_def)
  with p show ?thesis by simp
qed

lemma nm_pairs_distinct:
  assumes "nm_ok m"
  shows "distinct (map fst (nm_pairs m))"
  using assms
proof (induction m)
  case (Cons x m)
  obtain c i where x: "x = (c, i)" by (cases x)
  with Cons.prems have "nm_ok m" "distinct (map fst i)" "c \<notin> fst ` set m"
    by (auto simp: nm_ok_def gm_ok_def)
  have eq: "map fst (nm_pairs (x # m)) = map (Pair c) (map fst i) @ map fst (nm_pairs m)"
    by (simp add: nm_pairs_def x case_prod_beta)
  have "p \<in> set (nm_pairs m) \<Longrightarrow> fst (fst p) \<in> fst ` set m" for p
    by (force simp: nm_pairs_def)
  with \<open>c \<notin> fst ` set m\<close> have "set (map (Pair c) (map fst i)) \<inter> set (map fst (nm_pairs m)) = {}"
    by force
  moreover have "distinct (map (Pair c) (map fst i))"
    using \<open>distinct (map fst i)\<close> by (simp add: distinct_map inj_on_def del: map_map)
  ultimately show ?case
    using Cons.IH [OF \<open>nm_ok m\<close>] unfolding eq by (simp only: distinct_append)
qed (simp add: nm_pairs_def)

lemma map_of_map_snd: "map_of (map (\<lambda>q. (fst q, f (snd q))) xs) k = map_option f (map_of xs k)"
  by (induction xs) auto

lemma map_of_rev_distinct: "distinct (map fst xs) \<Longrightarrow> map_of (rev xs) k = map_of xs k"
proof (induction xs)
  case (Cons x xs)
  then show ?case
    by (cases x) (auto simp: map_add_def fst_image_iff split: option.splits)
qed simp

end
