(* ===== verification/GoErrors.thy ===== *)
theory GoErrors
  imports GoPrelude
begin

text \<open>
  Go errors as values, and the two error collections of the repository: \<open>merr.Errors\<close>
  (pkg/merr/error.go) and \<open>errorList\<close> / \<open>handlerError\<close> (pkg/runtime/sharedhandler.go).

  A nil \<open>error\<close> is \<^const>\<open>None\<close>. A constructor stands for each kind of error value the
  sources build or test for; \<open>Api\<close> is an API status error of which only the reason is
  inspected. \<open>err_tree\<close> is the order in which \<open>errors.Is\<close> and \<open>errors.As\<close> visit an error:
  the error itself, then what its \<open>Unwrap\<close> method returns. \<open>errorList\<close> and \<open>handlerError\<close>
  have a \<open>Cause\<close> but no \<open>Unwrap\<close>, so the walk does not enter them. \<open>NilDereference\<close> is not an
  error value of Go: it marks the panic on a nil object, so that a theorem can say that a
  branch is never reached.
\<close>

datatype api_reason = NotFound | AlreadyExists | Conflict | Gone | OtherReason gostring

datatype err =
    Plain gostring
  | Wrap gostring err
  | Api api_reason gostring
  | Errors "err list"
  | ErrorList "err list"
  | HandlerError gostring err
  | PrefixError gostring err
  | ErrTerminal err
  | ErrReplace
  | ErrOwnerNotFound
  | ErrIgnore
  | ClientNotFoundError gostring
  | CacheNotFoundError gostring
  | NilDereference

section \<open>Messages\<close>

text \<open>
  The loop shared by \<open>Errors.Error\<close> and \<open>errorList.Error\<close>: a separator is written only
  when the buffer is not empty.
\<close>

definition join_messages :: "gostring list \<Rightarrow> gostring" where
  "join_messages msgs =
     foldl (\<lambda>buf m. (if length buf > 0 then buf @ '', '' else buf) @ m) [] msgs"

fun error_string :: "err \<Rightarrow> gostring" where
  "error_string (Plain s) = s"
| "error_string (Wrap s e) = s @ error_string e"
| "error_string (Api r s) = s"
| "error_string (Errors es) = join_messages (map error_string es)"
| "error_string (ErrorList es) = join_messages (map error_string es)"
| "error_string (HandlerError n e) = ''handler '' @ n @ '': '' @ error_string e"
| "error_string (PrefixError p e) = p @ error_string e"
| "error_string (ErrTerminal e) = error_string e"
| "error_string ErrReplace = ''replace object with changes''"
| "error_string ErrOwnerNotFound = ''owner not found''"
| "error_string ErrIgnore = ''ignore handler error''"
| "error_string (ClientNotFoundError g) = ''client for group '' @ g @ '' not found''"
| "error_string (CacheNotFoundError g) = ''cache for group '' @ g @ '' not found''"
| "error_string NilDereference = ''invalid memory address or nil pointer dereference''"

lemma join_messages_single [simp]: "join_messages [m] = m"
  by (simp add: join_messages_def)

lemma join_messages_Nil [simp]: "join_messages [] = []"
  by (simp add: join_messages_def)

lemma join_messages_acc:
  "foldl (\<lambda>buf m. (if length buf > 0 then buf @ '', '' else buf) @ m) b ms =
     (if b = [] then join_messages ms
      else b @ concat (map (\<lambda>m. '', '' @ m) ms))"
  unfolding join_messages_def
proof (induction ms arbitrary: b)
  case (Cons m ms)
  show ?case
  proof (cases "b = []")
    case False
    then show ?thesis using Cons [of "b @ '', '' @ m"] by simp
  qed simp
qed simp

text \<open>Where no message is empty, the text is \<open>strings.Join(messages, ", ")\<close>.\<close>

lemma concat_sep_join: "m @ concat (map (\<lambda>m. sep @ m) ms) = str_join (m # ms) sep"
proof (induction ms arbitrary: m)
  case (Cons a ms)
  from Cons [of a] show ?case by simp
qed simp

lemma join_messages_join:
  assumes "\<forall>m \<in> set ms. m \<noteq> []"
  shows "join_messages ms = str_join ms '', ''"
proof (cases ms)
  case (Cons m rest)
  have "join_messages ms = foldl (\<lambda>buf m. (if length buf > 0 then buf @ '', '' else buf) @ m) m rest"
    by (simp add: Cons join_messages_def)
  also have "\<dots> = m @ concat (map (\<lambda>m. '', '' @ m) rest)"
    unfolding join_messages_acc using assms Cons by (simp only: list.set if_False insert_iff ball_simps)
  finally have "join_messages ms = m @ concat (map (\<lambda>m. '', '' @ m) rest)" .
  with Cons show ?thesis by (simp only: concat_sep_join)
qed simp

section \<open>Walking an error\<close>

fun err_tree :: "err \<Rightarrow> err list" where
  "err_tree (Wrap s e) = Wrap s e # err_tree e"
| "err_tree (Errors es) = Errors es # concat (map err_tree es)"
| "err_tree (PrefixError p e) = PrefixError p e # err_tree e"
| "err_tree (ErrTerminal e) = ErrTerminal e # err_tree e"
| "err_tree e = [e]"

definition errors_is :: "err \<Rightarrow> err \<Rightarrow> bool" where
  "errors_is e target \<longleftrightarrow> target \<in> set (err_tree e)"

fun is_api :: "err \<Rightarrow> bool" where
  "is_api (Api r s) = True"
| "is_api _ = False"

fun api_has_reason :: "api_reason \<Rightarrow> err \<Rightarrow> bool" where
  "api_has_reason r (Api r' s) = (r = r')"
| "api_has_reason r _ = False"

text \<open>
  \<open>apierrors.IsNotFound\<close> and its kin: the reason of the first API status error the walk
  meets; false on nil.
\<close>

definition reason_is :: "api_reason \<Rightarrow> err option \<Rightarrow> bool" where
  "reason_is r e =
     (case e of None \<Rightarrow> False
      | Some x \<Rightarrow> (case find is_api (err_tree x) of None \<Rightarrow> False | Some a \<Rightarrow> api_has_reason r a))"

abbreviation IsNotFound :: "err option \<Rightarrow> bool" where
  "IsNotFound \<equiv> reason_is NotFound"

abbreviation IsAlreadyExists :: "err option \<Rightarrow> bool" where
  "IsAlreadyExists \<equiv> reason_is AlreadyExists"

abbreviation IsConflict :: "err option \<Rightarrow> bool" where
  "IsConflict \<equiv> reason_is Conflict"

abbreviation IsGone :: "err option \<Rightarrow> bool" where
  "IsGone \<equiv> reason_is Gone"

lemma reason_is_None [simp]: "\<not> reason_is r None"
  by (simp add: reason_is_def)

lemma reason_is_Api [simp]: "reason_is r (Some (Api r' s)) \<longleftrightarrow> r = r'"
  by (simp add: reason_is_def)

lemma reason_is_Wrap [simp]: "reason_is r (Some (Wrap s e)) = reason_is r (Some e)"
  by (simp add: reason_is_def)

lemma reason_is_PrefixError [simp]: "reason_is r (Some (PrefixError s e)) = reason_is r (Some e)"
  by (simp add: reason_is_def)

lemma reason_is_Plain [simp]: "\<not> reason_is r (Some (Plain s))"
  by (simp add: reason_is_def)

lemma reason_is_unique: "reason_is r e \<Longrightarrow> reason_is r' e \<Longrightarrow> r = r'"
proof -
  have "api_has_reason r a \<Longrightarrow> api_has_reason r' a \<Longrightarrow> r = r'" for a
    by (cases a) auto
  then show "reason_is r e \<Longrightarrow> reason_is r' e \<Longrightarrow> r = r'"
    by (auto simp: reason_is_def split: option.splits)
qed

section \<open>Collecting errors\<close>

text \<open>\<open>merr.NewErrors\<close>: nil errors are dropped; one error is returned as it is.\<close>

definition NewErrors :: "err option list \<Rightarrow> err option" where
  "NewErrors inErrors =
     (let errors = map the (filter (\<lambda>e. e \<noteq> None) inErrors)
      in if length errors = 0 then None
         else if length errors = 1 then Some (errors ! 0)
         else Some (Errors errors))"

definition Errors_Err :: "err list \<Rightarrow> err option" where
  "Errors_Err e = NewErrors (map Some e)"

text \<open>\<open>errorList.ToErr\<close> and \<open>errorList.Cause\<close>\<close>

definition errorList_ToErr :: "err list \<Rightarrow> err option" where
  "errorList_ToErr e =
     (case e of [] \<Rightarrow> None | [x] \<Rightarrow> Some x | _ \<Rightarrow> Some (ErrorList e))"

definition errorList_Cause :: "err list \<Rightarrow> err option" where
  "errorList_Cause e = (if length e > 0 then Some (e ! 0) else None)"

text \<open>
  What a caller relies on in either collection: nothing is reported exactly when nothing
  went wrong, a single error is passed through unchanged, and the text names every error.
\<close>

locale error_collection =
  fixes collect :: "err list \<Rightarrow> err option"
  assumes collect_Nil: "collect [] = None"
    and collect_single: "collect [e] = Some e"
    and collect_many: "length es > 1 \<Longrightarrow> \<exists>e. collect es = Some e \<and>
           error_string e = join_messages (map error_string es)"
begin

lemma collect_None_iff: "collect es = None \<longleftrightarrow> es = []"
proof (cases es)
  case (Cons e rest)
  then show ?thesis
    using collect_single [of e] collect_many [of es] by (cases rest) auto
qed (simp add: collect_Nil)

lemma collect_text:
  assumes "collect es = Some e"
  shows "error_string e = join_messages (map error_string es)"
proof (cases "length es > 1")
  case True
  with collect_many assms show ?thesis by fastforce
next
  case False
  with assms show ?thesis
    using collect_Nil collect_single by (cases es) auto
qed

end

lemma somes_map_Some: "map the (filter (\<lambda>e. e \<noteq> None) (map Some es)) = es"
  by (induction es) auto

lemma NewErrors_map_Some: "NewErrors (map Some es) =
    (case es of [] \<Rightarrow> None | [e] \<Rightarrow> Some e | _ \<Rightarrow> Some (Errors es))"
  unfolding NewErrors_def somes_map_Some by (simp split: list.splits)

interpretation merr: error_collection Errors_Err
  unfolding error_collection_def Errors_Err_def NewErrors_map_Some
  by (auto split: list.splits)

interpretation rt_errors: error_collection errorList_ToErr
  by unfold_locales (auto simp: errorList_ToErr_def split: list.splits)

lemma NewErrors_drop_nil:
  "NewErrors es = Errors_Err (map the (filter (\<lambda>e. e \<noteq> None) es))"
  unfolding Errors_Err_def NewErrors_def somes_map_Some ..

lemma NewErrors_None_iff: "NewErrors es = None \<longleftrightarrow> (\<forall>e \<in> set es. e = None)"
  by (simp add: NewErrors_drop_nil merr.collect_None_iff filter_empty_conv)

lemma NewErrors_Nil [simp]: "NewErrors [] = None"
  by (simp add: NewErrors_None_iff)

lemma err_tree_self: "e \<in> set (err_tree e)"
  by (cases e) auto

lemma errors_is_refl: "errors_is e e"
  by (simp add: errors_is_def err_tree_self)

text \<open>Every error given to \<open>NewErrors\<close> is found again by \<open>errors.Is\<close> on the result.\<close>

lemma NewErrors_is:
  assumes "Some e \<in> set es"
  shows "\<exists>x. NewErrors es = Some x \<and> errors_is x e"
proof -
  let ?xs = "map the (filter (\<lambda>e. e \<noteq> None) es)"
  have mem: "e \<in> set xs \<Longrightarrow> \<exists>x. Errors_Err xs = Some x \<and> errors_is x e" for xs
    unfolding Errors_Err_def NewErrors_map_Some errors_is_def
    using err_tree_self by (fastforce split: list.splits)
  have "e \<in> set ?xs" using assms by force
  with mem [of ?xs] show ?thesis by (simp only: NewErrors_drop_nil [symmetric])
qed

end
