(* ===== verification/Kube.thy ===== *)
theory Kube
  imports GoErrors
begin

text \<open>
  The Kubernetes data the sources handle: group/version/kind, object keys, objects with
  their metadata, label and field selectors, and the operations of the client and scheme
  that are supplied from outside the repository.

  These types and services belong to k8s.io/apimachinery and sigs.k8s.io/controller-runtime.
  A record holds the fields the sources read or write. What such a library computes (the
  kind registered for a type, the text of a kind, a digest, the result of a request) is a
  field of \<open>kscheme\<close> or \<open>kclient\<close>, so every definition that calls it takes it as an
  argument, and a theorem holds for each value it may have.
\<close>

record gvk =
  gvk_group :: gostring
  gvk_version :: gostring
  gvk_kind :: gostring

record gk =
  gk_group :: gostring
  gk_kind :: gostring

definition GroupKind :: "gvk \<Rightarrow> gk" where
  "GroupKind g = \<lparr>gk_group = gvk_group g, gk_kind = gvk_kind g\<rparr>"

abbreviation GVK :: "gostring \<Rightarrow> gostring \<Rightarrow> gostring \<Rightarrow> gvk" where
  "GVK g v k \<equiv> \<lparr>gvk_group = g, gvk_version = v, gvk_kind = k\<rparr>"

record owner_ref =
  or_apiVersion :: gostring
  or_kind :: gostring
  or_name :: gostring
  or_uid :: gostring
  or_controller :: bool
  or_blockOwnerDeletion :: bool

section \<open>JSON values\<close>

text \<open>
  A decoded JSON value (Go's \<open>interface{}\<close> as \<open>encoding/json\<close> fills it, plus \<open>[]byte\<close>, which
  a type switch of the sources tests for). An object is a Go map.
\<close>

datatype json =
    JNull
  | JBool bool
  | JInt int
  | JFloat gostring
  | JNumber gostring
  | JString gostring
  | JBytes gostring
  | JArray "json list"
  | JObject "(gostring \<times> json) list"

type_synonym jmap = "(gostring, json) gomap"

fun json_as_map :: "json \<Rightarrow> jmap" where
  \<comment> \<open>\<open>m, _ := v.(map[string]interface{})\<close>: the nil map when \<open>v\<close> is something else\<close>
  "json_as_map (JObject m) = m"
| "json_as_map _ = []"

section \<open>Objects\<close>

text \<open>
  \<open>k_type\<close> is the Go type behind the interface, \<open>k_gvk\<close> the kind written in the object,
  \<open>k_deletionTimestamp\<close> is \<^const>\<open>None\<close> when it is zero, \<open>k_status\<close> the value of the field
  \<open>Status\<close> (\<^const>\<open>None\<close> for a type without one), \<open>k_fields\<close> the object's \<open>fields.Fields\<close>
  view (\<^const>\<open>None\<close> for a type that does not implement it) and \<open>k_body\<close> the rest.
\<close>

record kobject =
  k_type :: gostring
  k_gvk :: gvk
  k_name :: gostring
  k_generateName :: gostring
  k_namespace :: gostring
  k_uid :: gostring
  k_resourceVersion :: gostring
  k_generation :: int
  k_creationTimestamp :: "nat option"
  k_deletionTimestamp :: "nat option"
  k_labels :: "(gostring, gostring) gomap"
  k_annotations :: "(gostring, gostring) gomap"
  k_ownerReferences :: "owner_ref list"
  k_finalizers :: "gostring list"
  k_status :: "json option"
  k_fields :: "(gostring, gostring) gomap option"
  k_body :: json

text \<open>The object with every field at its zero value.\<close>

definition zero_object :: "gostring \<Rightarrow> gvk \<Rightarrow> kobject" where
  "zero_object ty g =
     \<lparr>k_type = ty, k_gvk = g, k_name = [], k_generateName = [], k_namespace = [], k_uid = [],
      k_resourceVersion = [], k_generation = 0, k_creationTimestamp = None,
      k_deletionTimestamp = None, k_labels = [], k_annotations = [], k_ownerReferences = [],
      k_finalizers = [], k_status = None, k_fields = None, k_body = JNull\<rparr>"

text \<open>A status condition.\<close>

record condition =
  c_type :: gostring
  c_status :: gostring
  c_observedGeneration :: int
  c_lastTransitionTime :: nat
  c_reason :: gostring
  c_message :: gostring

section \<open>Selectors\<close>

record label_selector =
  ls_String :: gostring
  ls_Matches :: "(gostring, gostring) gomap \<Rightarrow> bool"

record field_selector =
  fs_String :: gostring
  fs_Matches :: "(gostring, gostring) gomap \<Rightarrow> bool"

section \<open>What the libraries supply\<close>

datatype scope = NamespaceScope | RootScope

datatype new_result = NewObject kobject | NotRegistered | NewFailed err

text \<open>
  \<open>gvk_for\<close> is \<open>apiutil.GVKForObject\<close>, \<open>gvk_String\<close> is \<open>GroupVersionKind.String\<close>,
  \<open>gv_String\<close> is \<open>GroupVersion.String\<close>, \<open>rest_scope\<close> the scope of the mapping the client's
  \<open>RESTMapper\<close> finds and \<open>scheme_new\<close> is \<open>Scheme.New\<close>, whose "not registered" error the
  sources tell from the others.
\<close>

record kscheme =
  gvk_for :: "kobject \<Rightarrow> err + gvk"
  gvk_String :: "gvk \<Rightarrow> gostring"
  gv_String :: "gvk \<Rightarrow> gostring"
  rest_scope :: "gvk \<Rightarrow> err + scope"
  scheme_new :: "gvk \<Rightarrow> new_result"

datatype patch_type = MergePatchType | StrategicMergePatchType

text \<open>
  The client. Each operation takes the state of the world behind it and returns its answer
  and the new state. A write also returns the object it was given as the server left it: the
  client stores the server's answer in that object. \<open>cl_get\<close> is given the object to fill, the
  namespace and the name.
\<close>

type_synonym 'w kwrite = "'w \<Rightarrow> (err option \<times> kobject) \<times> 'w"

record 'w kclient =
  cl_get :: "kobject \<Rightarrow> gostring \<Rightarrow> gostring \<Rightarrow> 'w \<Rightarrow> (err + kobject) \<times> 'w"
  cl_list :: "gvk \<Rightarrow> gostring \<Rightarrow> label_selector option \<Rightarrow> 'w \<Rightarrow> (err + kobject list) \<times> 'w"
  cl_create :: "kobject \<Rightarrow> 'w kwrite"
  cl_update :: "kobject \<Rightarrow> 'w kwrite"
  cl_status_update :: "kobject \<Rightarrow> 'w kwrite"
  cl_delete :: "kobject \<Rightarrow> 'w \<Rightarrow> err option \<times> 'w"
  cl_patch :: "kobject \<Rightarrow> patch_type \<Rightarrow> gostring \<Rightarrow> 'w kwrite"

lemma GroupKind_fields [simp]:
  "gk_group (GroupKind g) = gvk_group g" "gk_kind (GroupKind g) = gvk_kind g"
  by (simp_all add: GroupKind_def)

end
