(* ===== verification/Triggers.thy ===== *)
theory Triggers
  imports Kube
begin

text \<open>
  Which keys are processed again when an object changes: pkg/router/matcher.go,
  pkg/router/trigger.go and the wrappers of pkg/uncached/uncached.go.

  The table \<open>matchers\<close> maps a watched kind to the targets to enqueue and each target to its
  matchers. \<open>backend.Trigger\<close> is the argument \<open>trig\<close>; its error is ignored by the sources, its
  effect on the world \<open>'w\<close> is kept. The sources hold a lock for the whole of each operation, so an
  operation is one step.
\<close>

section \<open>Objects that bypass the cache\<close>

text \<open>What a client may be given: an object or a list (of a kind), possibly in a holder.\<close>

datatype client_arg =
    Direct kobject
  | DirectList gvk
  | Holder kobject
  | HolderList gvk

fun uncached_Get :: "client_arg \<Rightarrow> client_arg" where
  "uncached_Get (Direct ob) = Holder ob"
| "uncached_Get x = x"

fun uncached_List :: "client_arg \<Rightarrow> client_arg" where
  "uncached_List (DirectList g) = HolderList g"
| "uncached_List x = x"

fun IsWrapped :: "client_arg \<Rightarrow> bool" where
  "IsWrapped (Holder _) = True"
| "IsWrapped (HolderList _) = True"
| "IsWrapped _ = False"

fun Unwrap :: "client_arg \<Rightarrow> client_arg" where
  "Unwrap (Holder ob) = Direct ob"
| "Unwrap (HolderList g) = DirectList g"
| "Unwrap x = x"

definition UnwrapList :: "client_arg \<Rightarrow> client_arg" where
  "UnwrapList x = (case x of HolderList g \<Rightarrow> DirectList g | _ \<Rightarrow> x)"

fun is_list :: "client_arg \<Rightarrow> bool" where
  "is_list (DirectList _) = True"
| "is_list (HolderList _) = True"
| "is_list _ = False"

text \<open>\<open>GVKForObject\<close> of either: a list has the kind it was made for.\<close>

fun arg_gvk :: "kscheme \<Rightarrow> client_arg \<Rightarrow> err + gvk" where
  "arg_gvk sch (Direct ob) = gvk_for sch ob"
| "arg_gvk sch (Holder ob) = gvk_for sch ob"
| "arg_gvk sch (DirectList g) = Inr g"
| "arg_gvk sch (HolderList g) = Inr g"

section \<open>Matchers\<close>

record objectMatcher =
  om_namespace :: gostring
  om_name :: gostring
  om_selector :: "label_selector option"
  om_fields :: "field_selector option"

definition matcher_Equals :: "objectMatcher \<Rightarrow> objectMatcher \<Rightarrow> bool" where
  "matcher_Equals o' other =
     (if om_name o' \<noteq> om_name other then False
      else if om_namespace o' \<noteq> om_namespace other then False
      else if (om_selector o' = None) \<noteq> (om_selector other = None) then False
      else if om_selector o' \<noteq> None \<and>
              map_option ls_String (om_selector o') \<noteq> map_option ls_String (om_selector other) then False
      else if (om_fields o' = None) \<noteq> (om_fields other = None) then False
      else if om_fields o' \<noteq> None \<and>
              map_option fs_String (om_fields o') \<noteq> map_option fs_String (om_fields other) then False
      else True)"

text \<open>The branch on \<open>Fields\<close> alone is written as in the source; it is never reached.\<close>

definition matcher_Match :: "objectMatcher \<Rightarrow> gostring \<Rightarrow> gostring \<Rightarrow> kobject option \<Rightarrow> bool" where
  "matcher_Match o' ns name obj =
     (if om_name o' \<noteq> [] then om_name o' = name \<and> om_namespace o' = ns
      else if om_namespace o' \<noteq> [] \<and> om_namespace o' \<noteq> ns then False
      else if om_selector o' \<noteq> None \<or> om_fields o' \<noteq> None
      then (case obj of None \<Rightarrow> False
            | Some ob \<Rightarrow>
                (case om_selector o' of None \<Rightarrow> True | Some sel \<Rightarrow> ls_Matches sel (k_labels ob)) \<and>
                (case om_fields o' of None \<Rightarrow> True
                 | Some f \<Rightarrow> (case k_fields ob of None \<Rightarrow> True | Some fl \<Rightarrow> fs_Matches f fl)))
      else if om_fields o' \<noteq> None
      then (case obj of None \<Rightarrow> False
            | Some ob \<Rightarrow>
                (case (om_fields o', k_fields ob) of
                   (Some f, Some fl) \<Rightarrow> fs_Matches f fl
                 | _ \<Rightarrow> om_namespace o' = [] \<or> om_namespace o' = ns))
      else om_namespace o' = [] \<or> om_namespace o' = ns)"

section \<open>The table\<close>

record enqueueTarget =
  et_key :: gostring
  et_gvk :: gvk

type_synonym matcher_table = "(gvk, (enqueueTarget, objectMatcher list) gomap) gomap"

text \<open>What the triggers read of a request.\<close>

record trigger_req =
  tr_gvk :: gvk
  tr_key :: gostring
  tr_namespace :: gostring
  tr_name :: gostring
  tr_object :: "kobject option"
  tr_fromTrigger :: bool

type_synonym 'w trigger_fn = "gvk \<Rightarrow> gostring \<Rightarrow> int \<Rightarrow> 'w \<Rightarrow> err option \<times> 'w"

definition fire :: "'w trigger_fn \<Rightarrow> enqueueTarget \<Rightarrow> 'w \<Rightarrow> 'w" where
  "fire trig target w = snd (trig (et_gvk target) (et_key target) 0 w)"

fun invoke_targets ::
  "'w trigger_fn \<Rightarrow> trigger_req \<Rightarrow> (enqueueTarget, objectMatcher list) gomap \<Rightarrow> 'w \<Rightarrow> 'w" where
  "invoke_targets trig req [] w = w"
| "invoke_targets trig req ((target, matchers) # rest) w =
     (if et_gvk target = tr_gvk req \<and> et_key target = tr_key req
      then invoke_targets trig req rest w
      else if \<exists>matcher \<in> set matchers. matcher_Match matcher (tr_namespace req) (tr_name req) (tr_object req)
      then invoke_targets trig req rest (fire trig target w)
      else invoke_targets trig req rest w)"

definition invokeTriggers :: "'w trigger_fn \<Rightarrow> matcher_table \<Rightarrow> trigger_req \<Rightarrow> 'w \<Rightarrow> 'w" where
  "invokeTriggers trig m req w = invoke_targets trig req (gm_list m (tr_gvk req)) w"

definition triggers_Trigger :: "'w trigger_fn \<Rightarrow> matcher_table \<Rightarrow> trigger_req \<Rightarrow> 'w \<Rightarrow> 'w" where
  "triggers_Trigger trig m req w = (if \<not> tr_fromTrigger req then invokeTriggers trig m req w else w)"

definition triggers_register ::
  "gvk \<Rightarrow> gostring \<Rightarrow> gvk \<Rightarrow> objectMatcher \<Rightarrow> matcher_table \<Rightarrow> matcher_table" where
  "triggers_register g key targetGVK mr m =
     (let target = \<lparr>et_key = key, et_gvk = g\<rparr>;
          matchers = (case map_of m targetGVK of None \<Rightarrow> [] | Some x \<Rightarrow> x);
          m1 = (if map_of m targetGVK = None then AList.update targetGVK [] m else m)
      in if \<exists>existing \<in> set (gm_list matchers target). matcher_Equals existing mr then m1
         else AList.update targetGVK
                (AList.update target (gm_list matchers target @ [mr]) matchers) m1)"

text \<open>
  \<open>triggers.Register\<close>: the kind watched, whether anything was registered, and the error of
  \<open>watcher.WatchGVK\<close>, which is the argument \<open>watchGVK\<close>.
\<close>

definition triggers_Register ::
  "kscheme \<Rightarrow> (gvk list \<Rightarrow> 's \<Rightarrow> err option \<times> 's) \<Rightarrow> (matcher_table \<Rightarrow> 's \<Rightarrow> 's) \<Rightarrow> ('s \<Rightarrow> matcher_table) \<Rightarrow>
     gvk \<Rightarrow> gostring \<Rightarrow> client_arg \<Rightarrow> gostring \<Rightarrow> gostring \<Rightarrow> label_selector option \<Rightarrow> field_selector option \<Rightarrow>
     's \<Rightarrow> (gvk option \<times> bool \<times> err option) \<times> 's" where
  "triggers_Register sch watchGVK setM getM sourceGVK key obj namespace name selector fieldSel s =
     (if IsWrapped obj then ((None, False, None), s)
      else (case arg_gvk sch obj of
              Inl e \<Rightarrow> ((None, False, Some e), s)
            | Inr g \<Rightarrow>
              (let g = (if is_list obj then g\<lparr>gvk_kind := trim_suffix (gvk_kind g) ''List''\<rparr> else g);
                   mr = \<lparr>om_namespace = namespace, om_name = name, om_selector = selector, om_fields = fieldSel\<rparr>;
                   s1 = setM (triggers_register sourceGVK key g mr (getM s)) s
               in case watchGVK [g] s1 of (err, s2) \<Rightarrow> ((Some g, True, err), s2))))"

text \<open>
  \<open>UnregisterAndTrigger\<close>: one pass over the table builds the remaining table and fires the
  triggers on the way, once for each matcher that matches.
\<close>

definition add_remaining :: "gvk \<Rightarrow> enqueueTarget \<Rightarrow> objectMatcher \<Rightarrow> matcher_table \<Rightarrow> matcher_table" where
  "add_remaining targetGVK target mt m =
     AList.update targetGVK
       (AList.update target (gm_list (gm_list m targetGVK) target @ [mt]) (gm_list m targetGVK)) m"

definition exact_match :: "trigger_req \<Rightarrow> gvk \<Rightarrow> objectMatcher \<Rightarrow> bool" where
  "exact_match req targetGVK mt \<longleftrightarrow>
     targetGVK = tr_gvk req \<and> om_namespace mt = tr_namespace req \<and> om_name mt = tr_name req"

definition unregister_matcher ::
  "'w trigger_fn \<Rightarrow> trigger_req \<Rightarrow> gvk \<Rightarrow> enqueueTarget \<Rightarrow> objectMatcher \<Rightarrow> matcher_table \<times> 'w \<Rightarrow> matcher_table \<times> 'w" where
  "unregister_matcher trig req targetGVK target mt = (\<lambda>(rm, w).
     (if \<not> exact_match req targetGVK mt then add_remaining targetGVK target mt rm else rm,
      if targetGVK = tr_gvk req \<and> matcher_Match mt (tr_namespace req) (tr_name req) (tr_object req)
      then fire trig target w else w))"

definition unregister_target ::
  "'w trigger_fn \<Rightarrow> trigger_req \<Rightarrow> gvk \<Rightarrow> enqueueTarget \<times> objectMatcher list \<Rightarrow> matcher_table \<times> 'w \<Rightarrow> matcher_table \<times> 'w" where
  "unregister_target trig req targetGVK = (\<lambda>(target, mts) acc.
     if et_gvk target = tr_gvk req \<and> et_key target = tr_key req then acc
     else fold (unregister_matcher trig req targetGVK target) mts acc)"

definition UnregisterAndTrigger ::
  "'w trigger_fn \<Rightarrow> trigger_req \<Rightarrow> matcher_table \<Rightarrow> 'w \<Rightarrow> matcher_table \<times> 'w" where
  "UnregisterAndTrigger trig req m w =
     fold (\<lambda>(targetGVK, matchers) acc. fold (unregister_target trig req targetGVK) matchers acc) m ([], w)"

section \<open>What the operations mean\<close>

text \<open>\<open>watchers\<close>: the matchers registered for a watched kind and a target.\<close>

definition watchers :: "matcher_table \<Rightarrow> gvk \<Rightarrow> enqueueTarget \<Rightarrow> objectMatcher list" where
  "watchers m g target = gm_list (gm_list m g) target"

lemma watchers_get: "watchers m g t = (case nm_get m (g, t) of None \<Rightarrow> [] | Some l \<Rightarrow> l)"
  by (simp add: watchers_def gm_list_def nm_get_def split: option.splits)

lemma matcher_Equals_iff:
  "matcher_Equals a b \<longleftrightarrow>
     om_name a = om_name b \<and> om_namespace a = om_namespace b \<and>
     map_option ls_String (om_selector a) = map_option ls_String (om_selector b) \<and>
     map_option fs_String (om_fields a) = map_option fs_String (om_fields b)"
  by (auto simp: matcher_Equals_def)

lemma matcher_Equals_refl: "matcher_Equals a a"
  by (simp add: matcher_Equals_iff)

text \<open>What a matcher means, without the unreachable branch.\<close>

lemma matcher_Match_iff:
  "matcher_Match o' ns name obj \<longleftrightarrow>
     (if om_name o' \<noteq> [] then om_name o' = name \<and> om_namespace o' = ns
      else (om_namespace o' = [] \<or> om_namespace o' = ns) \<and>
        (om_selector o' = None \<and> om_fields o' = None \<or>
         (\<exists>ob. obj = Some ob \<and>
            (\<forall>sel. om_selector o' = Some sel \<longrightarrow> ls_Matches sel (k_labels ob)) \<and>
            (\<forall>f fl. om_fields o' = Some f \<and> k_fields ob = Some fl \<longrightarrow> fs_Matches f fl))))"
  by (auto simp: matcher_Match_def split: option.splits)

lemma triggers_register_cases:
  "triggers_register g key t mr m =
     (let target = \<lparr>et_key = key, et_gvk = g\<rparr>; m1 = (if map_of m t = None then AList.update t [] m else m)
      in if \<exists>existing \<in> set (watchers m t target). matcher_Equals existing mr then m1
         else nm_put (t, target) (watchers m t target @ [mr]) m1)"
  by (auto simp: triggers_register_def watchers_def nm_put_def gm_list_def Let_def split: option.split)

lemma nm_get_new_kind: "nm_get (if map_of m t = None then AList.update t [] m else m) p = nm_get m p"
  by (cases p) (auto simp: nm_get_def split: option.splits)

lemma nm_ok_new_kind: "nm_ok m \<Longrightarrow> nm_ok (if map_of m t = None then AList.update t [] m else m)"
  using nm_ok_update [of m "[]" t] by simp

lemma triggers_register_ok: "nm_ok m \<Longrightarrow> nm_ok (triggers_register g key t mr m)"
  using nm_ok_new_kind [of m t]
  by (simp add: triggers_register_cases Let_def nested.ok_put)

lemma watchers_register:
  "watchers (triggers_register g key t mr m) t' target =
     (if t' = t \<and> target = \<lparr>et_key = key, et_gvk = g\<rparr> \<and>
         \<not> (\<exists>existing \<in> set (watchers m t target). matcher_Equals existing mr)
      then watchers m t target @ [mr] else watchers m t' target)"
  unfolding triggers_register_cases Let_def
  by (simp add: watchers_get nested.get_put nm_get_new_kind)

lemma register_has:
  "\<exists>x \<in> set (watchers (triggers_register g key t mr m) t \<lparr>et_key = key, et_gvk = g\<rparr>). matcher_Equals x mr"
  by (auto simp: watchers_register matcher_Equals_refl)

text \<open>The targets an event enqueues, in the order of the table.\<close>

definition fired :: "matcher_table \<Rightarrow> trigger_req \<Rightarrow> enqueueTarget list" where
  "fired m req =
     map fst (filter (\<lambda>(target, matchers). \<not> (et_gvk target = tr_gvk req \<and> et_key target = tr_key req) \<and>
        (\<exists>mt \<in> set matchers. matcher_Match mt (tr_namespace req) (tr_name req) (tr_object req)))
      (gm_list m (tr_gvk req)))"

lemma invoke_targets_fold:
  "invoke_targets trig req ms w =
     fold (fire trig) (map fst (filter (\<lambda>(target, matchers).
        \<not> (et_gvk target = tr_gvk req \<and> et_key target = tr_key req) \<and>
        (\<exists>mt \<in> set matchers. matcher_Match mt (tr_namespace req) (tr_name req) (tr_object req))) ms)) w"
  by (induction trig req ms w rule: invoke_targets.induct) auto

lemma invokeTriggers_fired: "invokeTriggers trig m req w = fold (fire trig) (fired m req) w"
  by (simp add: invokeTriggers_def fired_def invoke_targets_fold)

lemma fired_iff:
  assumes "nm_ok m"
  shows "target \<in> set (fired m req) \<longleftrightarrow>
     target \<noteq> \<lparr>et_key = tr_key req, et_gvk = tr_gvk req\<rparr> \<and>
     (\<exists>mt \<in> set (watchers m (tr_gvk req) target). matcher_Match mt (tr_namespace req) (tr_name req) (tr_object req))"
proof -
  have g: "gm_ok (gm_list m (tr_gvk req))" using assms by (rule gm_ok_gm_list)
  have t: "et_gvk target = tr_gvk req \<and> et_key target = tr_key req \<longleftrightarrow>
      target = \<lparr>et_key = tr_key req, et_gvk = tr_gvk req\<rparr>"
    by (cases target) auto
  have "gm_ok L \<Longrightarrow> (\<exists>ms. (target, ms) \<in> set L \<and> (\<exists>mt \<in> set ms. P mt)) \<longleftrightarrow>
      (\<exists>mt \<in> set (gm_list L target). P mt)" for L :: "(enqueueTarget, objectMatcher list) gomap" and P
    by (cases "map_of L target") (auto simp: gm_mem_iff gm_list_def)
  then have w: "(\<exists>ms. (target, ms) \<in> set (gm_list m (tr_gvk req)) \<and> (\<exists>mt \<in> set ms. P mt)) \<longleftrightarrow>
      (\<exists>mt \<in> set (watchers m (tr_gvk req) target). P mt)" for P
    using g unfolding watchers_def by blast
  show ?thesis
    unfolding fired_def t [symmetric] w [symmetric] by (auto simp: image_iff)
qed

lemma distinct_fired: "nm_ok m \<Longrightarrow> distinct (fired m req)"
  unfolding fired_def using gm_ok_gm_list [of m "tr_gvk req"]
  by (simp add: gm_ok_def distinct_map_filter)

section \<open>Deletion\<close>

text \<open>The rows of the table, without those of the deleted object as a target.\<close>

definition table_rows :: "trigger_req \<Rightarrow> matcher_table \<Rightarrow> (gvk \<times> enqueueTarget \<times> objectMatcher) list" where
  "table_rows req m =
     concat (map (\<lambda>(g, ts). concat (map (\<lambda>(t, mts).
        if et_gvk t = tr_gvk req \<and> et_key t = tr_key req then [] else map (\<lambda>mt. (g, t, mt)) mts) ts)) m)"

lemma fold_map_rows: "fold (\<lambda>(g, t, mt). F g t mt) (map (\<lambda>mt. (g, t, mt)) mts) acc = fold (F g t) mts acc"
  by (induction mts arbitrary: acc) simp_all

lemma UnregisterAndTrigger_rows:
  "UnregisterAndTrigger trig req m w =
     fold (\<lambda>(g, t, mt). unregister_matcher trig req g t mt) (table_rows req m) ([], w)"
proof -
  let ?F = "\<lambda>(g, t, mt). unregister_matcher trig req g t mt"
  let ?row = "\<lambda>g (t, mts). if et_gvk t = tr_gvk req \<and> et_key t = tr_key req then [] else map (\<lambda>mt. (g, t, mt)) mts"
  have one: "fold ?F (?row g p) acc = unregister_target trig req g p acc" for g p acc
    by (cases p) (simp add: unregister_target_def fold_map_rows)
  have two: "fold ?F (concat (map (?row g) ts)) acc = fold (unregister_target trig req g) ts acc" for g ts acc
    by (induction ts arbitrary: acc) (simp_all add: one)
  have "fold ?F (concat (map (\<lambda>(g, ts). concat (map (?row g) ts)) tb)) acc =
      fold (\<lambda>(targetGVK, matchers) acc. fold (unregister_target trig req targetGVK) matchers acc) tb acc" for tb acc
    by (induction tb arbitrary: acc) (auto simp: two)
  then show ?thesis by (simp add: UnregisterAndTrigger_def table_rows_def)
qed

text \<open>Whether a row stays, and whether it fires.\<close>

definition row_stays :: "trigger_req \<Rightarrow> gvk \<times> enqueueTarget \<times> objectMatcher \<Rightarrow> bool" where
  "row_stays req = (\<lambda>(g, t, mt). \<not> exact_match req g mt)"

definition row_fires :: "trigger_req \<Rightarrow> gvk \<times> enqueueTarget \<times> objectMatcher \<Rightarrow> bool" where
  "row_fires req = (\<lambda>(g, t, mt). g = tr_gvk req \<and>
     matcher_Match mt (tr_namespace req) (tr_name req) (tr_object req))"

lemma fold_unregister:
  "fold (\<lambda>(g, t, mt). unregister_matcher trig req g t mt) rows (rm, w) =
     (fold (\<lambda>(g, t, mt). add_remaining g t mt) (filter (row_stays req) rows) rm,
      fold (\<lambda>(g, t, mt). fire trig t) (filter (row_fires req) rows) w)"
proof (induction rows arbitrary: rm w)
  case (Cons r rows)
  obtain g t mt where r: "r = (g, t, mt)" by (cases r)
  have st: "unregister_matcher trig req g t mt (rm, w) =
      (if row_stays req r then add_remaining g t mt rm else rm, if row_fires req r then fire trig t w else w)"
    by (simp add: unregister_matcher_def row_stays_def row_fires_def r)
  have "fold (\<lambda>(g, t, mt). unregister_matcher trig req g t mt) (r # rows) (rm, w) =
      fold (\<lambda>(g, t, mt). unregister_matcher trig req g t mt) rows (unregister_matcher trig req g t mt (rm, w))"
    by (simp add: r)
  then show ?case
    unfolding st Cons.IH filter.simps
    by (cases "row_stays req r"; cases "row_fires req r") (simp_all add: r)
qed simp

lemma add_remaining_put: "add_remaining g t mt m = nm_put (g, t) (watchers m g t @ [mt]) m"
  by (simp add: add_remaining_def watchers_def nm_put_def gm_list_def split: option.splits)

lemma watchers_add_all:
  "watchers (fold (\<lambda>(g, t, mt). add_remaining g t mt) rows rm) g' t' =
     watchers rm g' t' @ map (\<lambda>(g, t, mt). mt) (filter (\<lambda>(g, t, mt). g = g' \<and> t = t') rows)"
proof (induction rows arbitrary: rm)
  case (Cons r rows)
  obtain g t mt where r: "r = (g, t, mt)" by (cases r)
  have "watchers (add_remaining g t mt rm) g' t' =
      watchers rm g' t' @ (if g = g' \<and> t = t' then [mt] else [])"
    by (auto simp: add_remaining_put watchers_get nested.get_put)
  with Cons r show ?case by simp
qed simp

lemma ok_add_all: "nm_ok rm \<Longrightarrow> nm_ok (fold (\<lambda>(g, t, mt). add_remaining g t mt) rows rm)"
  by (induction rows arbitrary: rm) (auto simp: add_remaining_put nested.ok_put)

definition is_self :: "trigger_req \<Rightarrow> enqueueTarget \<Rightarrow> bool" where
  "is_self req t \<longleftrightarrow> et_gvk t = tr_gvk req \<and> et_key t = tr_key req"

lemma pick_key:
  "distinct (map fst l) \<Longrightarrow>
     concat (map (\<lambda>(k, v). if k = k' then f v else []) l) = (case map_of l k' of None \<Rightarrow> [] | Some v \<Rightarrow> f v)"
proof (induction l)
  case (Cons p l)
  obtain k v where p: "p = (k, v)" by (cases p)
  have none: "k' \<notin> fst ` set l \<Longrightarrow> concat (map (\<lambda>(k, v). if k = k' then f v else []) l) = []"
    by (induction l) auto
  from Cons p none show ?case by (cases "k = k'") auto
qed simp

text \<open>The matchers of a cell that satisfy \<open>P\<close>, read off the rows.\<close>

definition picked ::
  "(gvk \<Rightarrow> objectMatcher \<Rightarrow> bool) \<Rightarrow> gvk \<Rightarrow> enqueueTarget \<Rightarrow> (gvk \<times> enqueueTarget \<times> objectMatcher) list \<Rightarrow>
     objectMatcher list" where
  "picked P g' t' rows = map (\<lambda>(g, t, mt). mt) (filter (\<lambda>(g, t, mt). g = g' \<and> t = t' \<and> P g mt) rows)"

lemma picked_simps [simp]:
  "picked P g' t' [] = []"
  "picked P g' t' (xs @ ys) = picked P g' t' xs @ picked P g' t' ys"
  by (simp_all add: picked_def)

lemma picked_cell:
  "picked P g' t' (map (\<lambda>mt. (g, t, mt)) mts) = (if g = g' \<and> t = t' then filter (P g') mts else [])"
  by (induction mts) (auto simp: picked_def)

lemma rows_watchers:
  assumes "nm_ok m"
  shows "picked P g' t' (table_rows req m) = (if is_self req t' then [] else filter (P g') (watchers m g' t'))"
proof -
  define cell where "cell = (\<lambda>mts. if is_self req t' then [] else filter (P g') mts)"
  define row :: "gvk \<Rightarrow> enqueueTarget \<times> objectMatcher list \<Rightarrow> (gvk \<times> enqueueTarget \<times> objectMatcher) list"
    where "row = (\<lambda>g (t, mts). if is_self req t then [] else map (\<lambda>mt. (g, t, mt)) mts)"
  have one: "picked P g' t' (row g (t, mts)) = (if g = g' then if t = t' then cell mts else [] else [])" for g t mts
    by (simp add: row_def cell_def picked_cell)
  have ts: "picked P g' t' (concat (map (row g) l)) =
      (if g = g' then concat (map (\<lambda>(t, mts). if t = t' then cell mts else []) l) else [])" for g l
  proof (induction l)
    case (Cons p l)
    then show ?case by (cases p) (simp add: one)
  qed simp
  have rows: "table_rows req tb = concat (map (\<lambda>(g, l). concat (map (row g) l)) tb)" for tb
    by (simp add: table_rows_def row_def is_self_def)
  have "picked P g' t' (concat (map (\<lambda>(g, l). concat (map (row g) l)) tb)) =
      concat (map (\<lambda>(g, l). if g = g' then concat (map (\<lambda>(t, mts). if t = t' then cell mts else []) l) else []) tb)" for tb
  proof (induction tb)
    case (Cons p tb)
    then show ?case by (cases p) (simp add: ts)
  qed simp
  moreover have "concat (map (\<lambda>(g, l). if g = g' then concat (map (\<lambda>(t, mts). if t = t' then cell mts else []) l) else []) m) =
      concat (map (\<lambda>(t, mts). if t = t' then cell mts else []) (gm_list m g'))"
    using pick_key [of m g' "\<lambda>l. concat (map (\<lambda>(t, mts). if t = t' then cell mts else []) l)"] assms
    by (simp add: nm_ok_def gm_ok_def gm_list_def split: option.splits)
  moreover have "concat (map (\<lambda>(t, mts). if t = t' then cell mts else []) (gm_list m g')) = cell (watchers m g' t')"
  proof -
    have "cell [] = []" by (simp add: cell_def)
    with pick_key [of "gm_list m g'" t' cell] gm_ok_gm_list [OF assms, of g'] show ?thesis
      by (simp add: gm_ok_def watchers_def gm_list_def split: option.splits)
  qed
  ultimately show ?thesis by (simp add: rows cell_def)
qed

lemma Unregister_watchers:
  assumes "nm_ok m" and "UnregisterAndTrigger trig req m w = (m', w')"
  shows "watchers m' g t =
     (if is_self req t then [] else filter (\<lambda>mt. \<not> exact_match req g mt) (watchers m g t))"
    and "nm_ok m'"
proof -
  have m': "m' = fold (\<lambda>(g, t, mt). add_remaining g t mt) (filter (row_stays req) (table_rows req m)) []"
    using assms(2) by (simp add: UnregisterAndTrigger_rows fold_unregister)
  then show "nm_ok m'" using ok_add_all [of "[]"] by simp
  have "watchers [] g t = []" by (simp add: watchers_def gm_list_def)
  then have "watchers m' g t =
      map (\<lambda>(g, t, mt). mt) (filter (\<lambda>(g', t', mt). g' = g \<and> t' = t) (filter (row_stays req) (table_rows req m)))"
    unfolding m' watchers_add_all by simp
  also have "\<dots> = picked (\<lambda>g mt. \<not> exact_match req g mt) g t (table_rows req m)"
    unfolding picked_def filter_filter
    by (rule arg_cong [where f = "map (\<lambda>(g, t, mt). mt)"], rule filter_cong) (auto simp: row_stays_def)
  finally show "watchers m' g t =
     (if is_self req t then [] else filter (\<lambda>mt. \<not> exact_match req g mt) (watchers m g t))"
    unfolding rows_watchers [OF assms(1)] .
qed

lemma mem_picked: "mt \<in> set (picked P g t rows) \<longleftrightarrow> (g, t, mt) \<in> set rows \<and> P g mt"
  by (force simp: picked_def)

lemma Unregister_fires:
  assumes "nm_ok m" and "UnregisterAndTrigger trig req m w = (m', w')"
  obtains ts where "w' = fold (fire trig) ts w"
    and "set ts = {t. \<not> is_self req t \<and> (\<exists>mt \<in> set (watchers m (tr_gvk req) t).
           matcher_Match mt (tr_namespace req) (tr_name req) (tr_object req))}"
proof
  let ?rows = "filter (row_fires req) (table_rows req m)"
  let ?ts = "map (\<lambda>(g, t, mt). t) ?rows"
  have ts: "fold (\<lambda>(g, t, mt). fire trig t) rows w = fold (fire trig) (map (\<lambda>(g, t, mt). t) rows) w" for rows w
    by (induction rows arbitrary: w) auto
  have "w' = fold (\<lambda>(g, t, mt). fire trig t) ?rows w"
    using assms(2) by (simp add: UnregisterAndTrigger_rows fold_unregister)
  then show "w' = fold (fire trig) ?ts w" by (simp only: ts)
  have mem: "(g, t, mt) \<in> set (table_rows req m) \<longleftrightarrow> \<not> is_self req t \<and> mt \<in> set (watchers m g t)" for g t mt
    using mem_picked [of mt "\<lambda>_ _. True" g t "table_rows req m"] rows_watchers [OF assms(1), of "\<lambda>_ _. True" g t req]
    by (auto split: if_splits)
  have hit: "x \<in> set ?rows \<longleftrightarrow> (\<exists>t mt. x = (tr_gvk req, t, mt) \<and> (tr_gvk req, t, mt) \<in> set (table_rows req m) \<and>
      matcher_Match mt (tr_namespace req) (tr_name req) (tr_object req))" for x
    by (cases x) (auto simp: row_fires_def)
  show "set ?ts = {t. \<not> is_self req t \<and> (\<exists>mt \<in> set (watchers m (tr_gvk req) t).
           matcher_Match mt (tr_namespace req) (tr_name req) (tr_object req))}"
    unfolding set_map
  proof (intro set_eqI iffI)
    fix t assume "t \<in> (\<lambda>(g, t, mt). t) ` set ?rows"
    then obtain x where x: "x \<in> set ?rows" "t = (\<lambda>(g, t, mt). t) x" by blast
    from x(1) [unfolded hit] x(2) show "t \<in> {t. \<not> is_self req t \<and> (\<exists>mt \<in> set (watchers m (tr_gvk req) t).
           matcher_Match mt (tr_namespace req) (tr_name req) (tr_object req))}"
      by (auto simp: mem)
  next
    fix t assume "t \<in> {t. \<not> is_self req t \<and> (\<exists>mt \<in> set (watchers m (tr_gvk req) t).
           matcher_Match mt (tr_namespace req) (tr_name req) (tr_object req))}"
    then obtain mt where "(tr_gvk req, t, mt) \<in> set ?rows" by (auto simp: row_fires_def mem)
    then show "t \<in> (\<lambda>(g, t, mt). t) ` set ?rows" by force
  qed
qed

end
