(* ===== verification/Handlers.thy ===== *)
theory Handlers
  imports Triggers
begin

text \<open>
  Requests, responses and handlers: pkg/router/types.go, response_wrapper.go, the response and
  the registry of handler.go, the tracking client of client.go, handlers.go, finalizer.go and
  the route builder with its filters of router.go.

  Handlers receive pointers to objects and write through them, and the code depends on which
  pointers are equal. So an object is a reference \<open>oref\<close> into a heap that is part of the state
  \<open>rstate\<close>; a Go assignment of an object copies the reference, \<open>DeepCopyObject\<close> allocates. The
  state also has the trigger table, the kinds the registry of the current request has seen, the
  kinds being watched and the world behind the backend.
\<close>

type_synonym oref = nat

record request =
  rq_object :: "oref option"
  rq_gvk :: gvk
  rq_namespace :: gostring
  rq_name :: gostring
  rq_key :: gostring
  rq_fromTrigger :: bool

record 'w rstate =
  rs_heap :: "oref \<Rightarrow> kobject"
  rs_next :: oref
  rs_matchers :: matcher_table
  rs_gvks :: "(gvk, bool) gomap"
  rs_watching :: "(gvk, bool) gomap"
  rs_world :: 'w

definition deref :: "'w rstate \<Rightarrow> oref \<Rightarrow> kobject" where
  "deref s r = rs_heap s r"

definition assign :: "oref \<Rightarrow> kobject \<Rightarrow> 'w rstate \<Rightarrow> 'w rstate" where
  "assign r ob s = s\<lparr>rs_heap := (rs_heap s)(r := ob)\<rparr>"

definition alloc :: "kobject \<Rightarrow> 'w rstate \<Rightarrow> oref \<times> 'w rstate" where
  "alloc ob s = (rs_next s, s\<lparr>rs_heap := (rs_heap s)(rs_next s := ob), rs_next := rs_next s + 1\<rparr>)"

text \<open>
  The backend: the scheme, \<open>Watch\<close> for a kind, \<open>Trigger\<close> with a delay, and the client.
\<close>

record 'w backend =
  b_scheme :: kscheme
  b_watch :: "gvk \<Rightarrow> 'w \<Rightarrow> err option \<times> 'w"
  b_trigger :: "'w trigger_fn"
  b_client :: "'w kclient"

section \<open>Watching\<close>

text \<open>\<open>HandlerSet.WatchGVK\<close>: a kind that fails to be watched is tried again the next time.\<close>

fun watch_each :: "'w backend \<Rightarrow> gvk list \<Rightarrow> 'w rstate \<Rightarrow> err option list \<times> 'w rstate" where
  "watch_each b [] s = ([], s)"
| "watch_each b (g # gs) s =
     (if gm_bool (rs_watching s) g then watch_each b gs s
      else (case b_watch b g (rs_world s) of
              (None, w) \<Rightarrow> watch_each b gs (s\<lparr>rs_world := w, rs_watching := AList.update g True (rs_watching s)\<rparr>)
            | (Some e, w) \<Rightarrow>
                (case watch_each b gs (s\<lparr>rs_world := w\<rparr>) of (es, s') \<Rightarrow> (Some e # es, s'))))"

definition WatchGVK :: "'w backend \<Rightarrow> gvk list \<Rightarrow> 'w rstate \<Rightarrow> err option \<times> 'w rstate" where
  "WatchGVK b gs s = (case watch_each b gs s of (es, s') \<Rightarrow> (NewErrors es, s'))"

text \<open>\<open>triggerRegistry.Watch\<close> and \<open>WatchingGVKs\<close>\<close>

definition registry_Watch ::
  "'w backend \<Rightarrow> gvk \<Rightarrow> gostring \<Rightarrow> client_arg \<Rightarrow> gostring \<Rightarrow> gostring \<Rightarrow> label_selector option \<Rightarrow>
     field_selector option \<Rightarrow> 'w rstate \<Rightarrow> err option \<times> 'w rstate" where
  "registry_Watch b g key obj namespace name sel fieldSel s =
     (case triggers_Register (b_scheme b) (WatchGVK b) (\<lambda>m s. s\<lparr>rs_matchers := m\<rparr>) rs_matchers
             g key obj namespace name sel fieldSel s of
        ((_, _, Some e), s1) \<Rightarrow> (Some e, s1)
      | ((h, okay, None), s1) \<Rightarrow>
          (None, (case h of Some h \<Rightarrow> if okay then s1\<lparr>rs_gvks := AList.update h True (rs_gvks s1)\<rparr> else s1
                  | None \<Rightarrow> s1)))"

definition WatchingGVKs :: "'w rstate \<Rightarrow> gvk list" where
  "WatchingGVKs s = gm_keys (rs_gvks s)"

section \<open>Responses\<close>

text \<open>
  The two implementations of \<open>Response\<close> of the package. \<open>Objects\<close> of \<open>response\<close> registers a watch
  on each object, whose error is ignored. An attribute is any Go value; the sources store a
  pointer to a condition or a boolean.
\<close>

datatype attribute = AttrCondition condition | AttrBool bool | AttrOther json

record response =
  r_attr :: "(gostring, attribute) gomap"
  r_delay :: int
  r_objects :: "oref list"
  r_noPrune :: bool

record ResponseWrapper =
  rw_NoPrune :: bool
  rw_Delay :: int
  rw_Objs :: "oref list"
  rw_Attr :: "(gostring, attribute) gomap"

datatype resp = Resp response | Wrapper ResponseWrapper

definition new_response :: response where
  "new_response = \<lparr>r_attr = [], r_delay = 0, r_objects = [], r_noPrune = False\<rparr>"

definition new_wrapper :: ResponseWrapper where
  "new_wrapper = \<lparr>rw_NoPrune = False, rw_Delay = 0, rw_Objs = [], rw_Attr = []\<rparr>"

definition response_DisablePrune :: "response \<Rightarrow> response" where
  "response_DisablePrune r = r\<lparr>r_noPrune := True\<rparr>"

definition response_RetryAfter :: "int \<Rightarrow> response \<Rightarrow> response" where
  "response_RetryAfter delay r =
     (if r_delay r = 0 \<or> delay < r_delay r then r\<lparr>r_delay := delay\<rparr> else r)"

definition response_SetAttribute :: "gostring \<Rightarrow> attribute \<Rightarrow> response \<Rightarrow> response" where
  "response_SetAttribute k v r = r\<lparr>r_attr := AList.update k v (r_attr r)\<rparr>"

fun response_Objects ::
  "'w backend \<Rightarrow> gvk \<Rightarrow> gostring \<Rightarrow> oref list \<Rightarrow> response \<times> 'w rstate \<Rightarrow> response \<times> 'w rstate" where
  "response_Objects b g key [] (r, s) = (r, s)"
| "response_Objects b g key (x # xs) (r, s) =
     (case registry_Watch b g key (Direct (deref s x)) (k_namespace (deref s x)) (k_name (deref s x)) None None s of
        (_, s1) \<Rightarrow> response_Objects b g key xs (r\<lparr>r_objects := r_objects r @ [x]\<rparr>, s1))"

definition wrapper_DisablePrune :: "ResponseWrapper \<Rightarrow> ResponseWrapper" where
  "wrapper_DisablePrune r = r\<lparr>rw_NoPrune := True\<rparr>"

definition wrapper_RetryAfter :: "int \<Rightarrow> ResponseWrapper \<Rightarrow> ResponseWrapper" where
  "wrapper_RetryAfter delay r = r\<lparr>rw_Delay := delay\<rparr>"

definition wrapper_SetAttribute :: "gostring \<Rightarrow> attribute \<Rightarrow> ResponseWrapper \<Rightarrow> ResponseWrapper" where
  "wrapper_SetAttribute k v r = r\<lparr>rw_Attr := AList.update k v (rw_Attr r)\<rparr>"

definition wrapper_Objects :: "oref list \<Rightarrow> ResponseWrapper \<Rightarrow> ResponseWrapper" where
  "wrapper_Objects objs r = r\<lparr>rw_Objs := rw_Objs r @ objs\<rparr>"

text \<open>The interface, dispatched.\<close>

definition resp_DisablePrune :: "resp \<Rightarrow> resp" where
  "resp_DisablePrune p = (case p of Resp r \<Rightarrow> Resp (response_DisablePrune r)
     | Wrapper r \<Rightarrow> Wrapper (wrapper_DisablePrune r))"

definition resp_RetryAfter :: "int \<Rightarrow> resp \<Rightarrow> resp" where
  "resp_RetryAfter d p = (case p of Resp r \<Rightarrow> Resp (response_RetryAfter d r)
     | Wrapper r \<Rightarrow> Wrapper (wrapper_RetryAfter d r))"

definition resp_SetAttribute :: "gostring \<Rightarrow> attribute \<Rightarrow> resp \<Rightarrow> resp" where
  "resp_SetAttribute k v p = (case p of Resp r \<Rightarrow> Resp (response_SetAttribute k v r)
     | Wrapper r \<Rightarrow> Wrapper (wrapper_SetAttribute k v r))"

definition resp_Objects ::
  "'w backend \<Rightarrow> request \<Rightarrow> oref list \<Rightarrow> resp \<Rightarrow> 'w rstate \<Rightarrow> resp \<times> 'w rstate" where
  "resp_Objects b req objs p s =
     (case p of
        Resp r \<Rightarrow> (case response_Objects b (rq_gvk req) (rq_key req) objs (r, s) of (r', s') \<Rightarrow> (Resp r', s'))
      | Wrapper r \<Rightarrow> (Wrapper (wrapper_Objects objs r), s))"

section \<open>The tracking client\<close>

text \<open>
  The client a handler is given registers a watch before it passes a request on; a failing watch
  is the answer and nothing is sent. \<open>tracked\<close> is that order, for one object; the operations of
  the reader, the writer and the status writer are \<open>tracked\<close> with the operation of the client.
\<close>

definition tracked ::
  "'w backend \<Rightarrow> request \<Rightarrow> client_arg \<Rightarrow> gostring \<Rightarrow> gostring \<Rightarrow> label_selector option \<Rightarrow> field_selector option \<Rightarrow>
     ('w rstate \<Rightarrow> err option \<times> 'w rstate) \<Rightarrow> 'w rstate \<Rightarrow> err option \<times> 'w rstate" where
  "tracked b req obj ns name sel fieldSel op s =
     (case registry_Watch b (rq_gvk req) (rq_key req) obj ns name sel fieldSel s of
        (Some e, s1) \<Rightarrow> (Some e, s1)
      | (None, s1) \<Rightarrow> op s1)"

text \<open>A write of the client: the answer is decoded into the object.\<close>

definition run_write :: "(kobject \<Rightarrow> 'w kwrite) \<Rightarrow> oref \<Rightarrow> 'w rstate \<Rightarrow> err option \<times> 'w rstate" where
  "run_write wr x s =
     (case wr (deref s x) (rs_world s) of ((e, ob), w) \<Rightarrow> (e, assign x ob (s\<lparr>rs_world := w\<rparr>)))"

definition track_object ::
  "'w backend \<Rightarrow> request \<Rightarrow> oref \<Rightarrow> ('w rstate \<Rightarrow> err option \<times> 'w rstate) \<Rightarrow> 'w rstate \<Rightarrow> err option \<times> 'w rstate" where
  "track_object b req x op s =
     tracked b req (Direct (deref s x)) (k_namespace (deref s x)) (k_name (deref s x)) None None op s"

definition writer_Update :: "'w backend \<Rightarrow> request \<Rightarrow> oref \<Rightarrow> 'w rstate \<Rightarrow> err option \<times> 'w rstate" where
  "writer_Update b req x s = track_object b req x (run_write (cl_update (b_client b)) x) s"

definition writer_Create :: "'w backend \<Rightarrow> request \<Rightarrow> oref \<Rightarrow> 'w rstate \<Rightarrow> err option \<times> 'w rstate" where
  "writer_Create b req x s = track_object b req x (run_write (cl_create (b_client b)) x) s"

definition writer_Delete :: "'w backend \<Rightarrow> request \<Rightarrow> oref \<Rightarrow> 'w rstate \<Rightarrow> err option \<times> 'w rstate" where
  "writer_Delete b req x s = track_object b req x
     (\<lambda>s. case cl_delete (b_client b) (deref s x) (rs_world s) of (e, w) \<Rightarrow> (e, s\<lparr>rs_world := w\<rparr>)) s"

definition writer_Patch ::
  "'w backend \<Rightarrow> request \<Rightarrow> oref \<Rightarrow> patch_type \<Rightarrow> gostring \<Rightarrow> 'w rstate \<Rightarrow> err option \<times> 'w rstate" where
  "writer_Patch b req x ty patch s =
     track_object b req x (run_write (\<lambda>ob. cl_patch (b_client b) ob ty patch) x) s"

definition status_Update :: "'w backend \<Rightarrow> request \<Rightarrow> oref \<Rightarrow> 'w rstate \<Rightarrow> err option \<times> 'w rstate" where
  "status_Update b req x s = track_object b req x (run_write (cl_status_update (b_client b)) x) s"

text \<open>
  \<open>DeleteAllOf\<close> watches the whole selection; \<open>delete_all\<close> is the operation of the client. The operations on a
  subresource watch the object it belongs to; \<open>op\<close> is the operation of the client.
\<close>

definition writer_DeleteAllOf ::
  "'w backend \<Rightarrow> request \<Rightarrow> ('w rstate \<Rightarrow> err option \<times> 'w rstate) \<Rightarrow> oref \<Rightarrow> gostring \<Rightarrow> label_selector option \<Rightarrow>
     field_selector option \<Rightarrow> 'w rstate \<Rightarrow> err option \<times> 'w rstate" where
  "writer_DeleteAllOf b req delete_all x ns sel fieldSel s =
     tracked b req (Direct (deref s x)) ns [] sel fieldSel delete_all s"

definition subresource_request ::
  "'w backend \<Rightarrow> request \<Rightarrow> ('w rstate \<Rightarrow> err option \<times> 'w rstate) \<Rightarrow> oref \<Rightarrow> 'w rstate \<Rightarrow> err option \<times> 'w rstate" where
  "subresource_request b req op x s = track_object b req x op s"

text \<open>\<open>reader.Get\<close> fills the object \<open>x\<close>; it watches the key that was asked for.\<close>

definition run_get :: "'w backend \<Rightarrow> gostring \<Rightarrow> gostring \<Rightarrow> oref \<Rightarrow> 'w rstate \<Rightarrow> err option \<times> 'w rstate" where
  "run_get b ns name x s =
     (case cl_get (b_client b) (deref s x) ns name (rs_world s) of
        (Inl e, w) \<Rightarrow> (Some e, s\<lparr>rs_world := w\<rparr>)
      | (Inr ob, w) \<Rightarrow> (None, assign x ob (s\<lparr>rs_world := w\<rparr>)))"

definition reader_Get ::
  "'w backend \<Rightarrow> request \<Rightarrow> gostring \<Rightarrow> gostring \<Rightarrow> oref \<Rightarrow> 'w rstate \<Rightarrow> err option \<times> 'w rstate" where
  "reader_Get b req ns name x s = tracked b req (Direct (deref s x)) ns name None None (run_get b ns name x) s"

definition reader_List ::
  "'w backend \<Rightarrow> request \<Rightarrow> client_arg \<Rightarrow> gvk \<Rightarrow> gostring \<Rightarrow> label_selector option \<Rightarrow> field_selector option \<Rightarrow>
     'w rstate \<Rightarrow> (err + kobject list) \<times> 'w rstate" where
  "reader_List b req arg g ns sel fieldSel s =
     (case registry_Watch b (rq_gvk req) (rq_key req) arg ns [] sel fieldSel s of
        (Some e, s1) \<Rightarrow> (Inl e, s1)
      | (None, s1) \<Rightarrow> (case cl_list (b_client b) g ns sel (rs_world s1) of (r, w) \<Rightarrow> (r, s1\<lparr>rs_world := w\<rparr>)))"

text \<open>\<open>Request.Get\<close> and \<open>Request.Delete\<close>, which takes a missing object as deleted.\<close>

definition request_Get ::
  "'w backend \<Rightarrow> request \<Rightarrow> oref \<Rightarrow> gostring \<Rightarrow> gostring \<Rightarrow> 'w rstate \<Rightarrow> err option \<times> 'w rstate" where
  "request_Get b req x ns name s = reader_Get b req ns name x s"

definition request_Delete :: "'w backend \<Rightarrow> request \<Rightarrow> oref \<Rightarrow> 'w rstate \<Rightarrow> err option \<times> 'w rstate" where
  "request_Delete b req x s =
     (case writer_Delete b req x s of (e, s1) \<Rightarrow> (if IsNotFound e then None else e, s1))"

end
