(* ===== verification/Controller.thy ===== *)
theory Controller
  imports Handlers
begin

text \<open>
  The controller of one kind: pkg/runtime/controller.go.

  A \<open>controller\<close> turns the events of an informer and the requests of its clients into keys of a
  work queue, and its workers hand each key to a handler. The queue of client-go is not under
  src/: what the controller does to it is the list of the calls it makes on it, oldest first, and
  \<^const>\<open>None\<close> is the nil queue of a controller that has not run yet. Every operation that takes
  \<open>startLock\<close> is one step.
\<close>

section \<open>Keys\<close>

definition keyFunc :: "gostring \<Rightarrow> gostring \<Rightarrow> gostring" where
  "keyFunc namespace name = (if namespace = [] then name else namespace @ ''/'' @ name)"

definition keyParse :: "gostring \<Rightarrow> gostring \<times> gostring" where
  "keyParse key = (case str_cut key ''/'' of (namespace, name, okay) \<Rightarrow>
     if \<not> okay then ([], namespace) else (namespace, name))"

definition isSpecialKey :: "gostring \<Rightarrow> bool" where
  "isSpecialKey key \<longleftrightarrow> length key > 2 \<and> key ! 0 = CHR ''_'' \<and> key ! 2 = CHR '' ''"

lemma keyFunc_Nil [simp]: "keyFunc [] n = n"
  by (simp add: keyFunc_def)

lemma keyParse_keyFunc:
  assumes "CHR ''/'' \<notin> set ns" and "ns = [] \<Longrightarrow> CHR ''/'' \<notin> set n"
  shows "keyParse (keyFunc ns n) = (ns, n)"
proof (cases "ns = []")
  case True
  with assms(2) show ?thesis
    by (simp add: keyParse_def keyFunc_def str_cut_single_notin)
next
  case False
  with assms(1) show ?thesis
    by (simp add: keyParse_def keyFunc_def str_cut_single)
qed

lemma keyFunc_keyParse:
  assumes "\<not> has_prefix key ''/''"
  shows "(case keyParse key of (ns, n) \<Rightarrow> keyFunc ns n) = key"
proof -
  obtain b a okay where c: "str_cut key ''/'' = (b, a, okay)" by (cases "str_cut key ''/''")
  show ?thesis
  proof (cases okay)
    case True
    with str_cut_sound [OF c] have k: "key = b @ ''/'' @ a" by simp
    with assms have "b \<noteq> []" by auto
    with True c k show ?thesis by (simp add: keyParse_def keyFunc_def)
  next
    case False
    with str_cut_sound [OF c] c show ?thesis by (simp add: keyParse_def)
  qed
qed

lemma keyFunc_not_special:
  assumes "CHR '' '' \<notin> set ns" and "CHR '' '' \<notin> set n"
  shows "\<not> isSpecialKey (keyFunc ns n)"
proof
  assume s: "isSpecialKey (keyFunc ns n)"
  then have "CHR '' '' \<in> set (keyFunc ns n)"
    unfolding isSpecialKey_def by (metis nth_mem)
  with assms show False by (auto simp: keyFunc_def split: if_splits)
qed

section \<open>The controller\<close>

datatype queue_item = KeyItem gostring | OtherItem

datatype queue_call =
    Add gostring
  | AddAfter gostring int
  | AddRateLimited gostring
  | Forget queue_item
  | Done queue_item
  | ShutDown

record startKey =
  sk_key :: gostring
  sk_after :: int

text \<open>
  \<open>ct_informer\<close> and \<open>ct_registration\<close> say whether the field is not nil; \<open>ct_listening\<close> whether the
  informer delivers its events to the controller: \<open>AddEventHandler\<close> starts and
  \<open>RemoveEventHandler\<close> ends that.
\<close>

record controller =
  ct_gvk :: gvk
  ct_name :: gostring
  ct_workqueue :: "queue_call list option"
  ct_informer :: bool
  ct_startKeys :: "startKey list"
  ct_started :: bool
  ct_registration :: bool
  ct_listening :: bool
  ct_obj :: kobject

text \<open>An object of a kind the scheme does not know is an empty unstructured one.\<close>

definition newObject :: "kscheme \<Rightarrow> gvk \<Rightarrow> err + kobject" where
  "newObject sch g =
     (case scheme_new sch g of
        NotRegistered \<Rightarrow> Inr (zero_object ''unstructured.Unstructured'' (GVK [] [] []))
      | NewFailed e \<Rightarrow> Inl e
      | NewObject ob \<Rightarrow> Inr ob)"

text \<open>\<open>get_informer\<close> is the error of \<open>cache.GetInformerForKind\<close>.\<close>

definition New :: "kscheme \<Rightarrow> (gvk \<Rightarrow> err option) \<Rightarrow> gvk \<Rightarrow> err + controller" where
  "New sch get_informer g =
     (case newObject sch g of
        Inl e \<Rightarrow> Inl e
      | Inr ob \<Rightarrow>
        (case get_informer g of
           Some e \<Rightarrow> Inl e
         | None \<Rightarrow> Inr \<lparr>ct_gvk = g, ct_name = gvk_String sch g, ct_workqueue = None, ct_informer = True,
             ct_startKeys = [], ct_started = False, ct_registration = False, ct_listening = False,
             ct_obj = ob\<rparr>))"

section \<open>Enqueuing\<close>

text \<open>Calls on the queue are appended to its history.\<close>

definition on_queue :: "queue_call \<Rightarrow> controller \<Rightarrow> controller" where
  "on_queue q c = c\<lparr>ct_workqueue := map_option (\<lambda>qs. qs @ [q]) (ct_workqueue c)\<rparr>"

definition add_start :: "gostring \<Rightarrow> int \<Rightarrow> controller \<Rightarrow> controller" where
  "add_start key after c = c\<lparr>ct_startKeys := ct_startKeys c @ [\<lparr>sk_key = key, sk_after = after\<rparr>]\<rparr>"

definition EnqueueKey :: "gostring \<Rightarrow> controller \<Rightarrow> controller" where
  "EnqueueKey key c =
     (if ct_workqueue c = None then add_start key 0 c else on_queue (Add key) c)"

definition Enqueue :: "gostring \<Rightarrow> gostring \<Rightarrow> controller \<Rightarrow> controller" where
  "Enqueue namespace name c =
     (let key = keyFunc namespace name
      in if ct_workqueue c = None then add_start key 0 c else on_queue (AddRateLimited key) c)"

definition EnqueueAfter :: "gostring \<Rightarrow> gostring \<Rightarrow> int \<Rightarrow> controller \<Rightarrow> controller" where
  "EnqueueAfter namespace name duration c =
     (let key = keyFunc namespace name
      in if ct_workqueue c = None then add_start key duration c else on_queue (AddAfter key duration) c)"

text \<open>\<open>enqueue\<close>, with \<open>MetaNamespaceKeyFunc\<close> of client-go as an argument\<close>

definition enqueue_object :: "(kobject \<Rightarrow> err + gostring) \<Rightarrow> kobject \<Rightarrow> controller \<Rightarrow> controller" where
  "enqueue_object meta_key obj c =
     (case meta_key obj of
        Inl e \<Rightarrow> c
      | Inr key \<Rightarrow> if ct_workqueue c = None then add_start key 0 c else on_queue (Add key) c)"

text \<open>
  What an informer delivers: an object, the last state of a deleted one (\<^const>\<open>None\<close> when it is
  no object), or something else.
\<close>

datatype informer_obj = MetaObject kobject | Tombstone "kobject option" | OtherObject

definition handleObject :: "(kobject \<Rightarrow> err + gostring) \<Rightarrow> informer_obj \<Rightarrow> controller \<Rightarrow> controller" where
  "handleObject meta_key obj c =
     (case obj of
        MetaObject ob \<Rightarrow> enqueue_object meta_key ob c
      | Tombstone (Some ob) \<Rightarrow> enqueue_object meta_key ob c
      | Tombstone None \<Rightarrow> c
      | OtherObject \<Rightarrow> c)"

section \<open>Starting and running\<close>

text \<open>
  The outside of \<open>Start\<close>: the informer for the kind (and whether it is a \<open>SharedIndexInformer\<close>),
  the answer of \<open>AddEventHandler\<close>, whether the informer has synced and whether waiting for it
  ends well. The goroutines it starts are part of its answer.
\<close>

record start_env =
  se_GetInformer :: "err + bool"
  se_AddEventHandler :: "err option"
  se_HasSynced :: bool
  se_WaitForCacheSync :: bool

datatype go_stmt = GoCacheStart | GoRun

definition start_informer :: "start_env \<Rightarrow> controller \<Rightarrow> err + controller" where
  "start_informer env c =
     (if ct_informer c then Inr c
      else (case se_GetInformer env of
              Inl e \<Rightarrow> Inl e
            | Inr is_shared \<Rightarrow> if is_shared then Inr (c\<lparr>ct_informer := True\<rparr>)
                               else Inl (Plain ''expecting cache.SharedIndexInformer'')))"

definition start_register :: "start_env \<Rightarrow> controller \<Rightarrow> err + controller" where
  "start_register env c =
     (if ct_registration c then Inr c
      else (case se_AddEventHandler env of
              Some e \<Rightarrow> Inl e
            | None \<Rightarrow> Inr (c\<lparr>ct_registration := True, ct_listening := True\<rparr>)))"

definition controller_Start :: "start_env \<Rightarrow> controller \<Rightarrow> (err option \<times> go_stmt list) \<times> controller" where
  "controller_Start env c =
     (if ct_started c then ((None, []), c)
      else (case start_informer env c of
              Inl e \<Rightarrow> ((Some e, []), c)
            | Inr c1 \<Rightarrow>
              (case start_register env c1 of
                 Inl e \<Rightarrow> ((Some e, []), c1)
               | Inr c2 \<Rightarrow>
                 (let starts = (if se_HasSynced env then [] else [GoCacheStart])
                  in if \<not> se_WaitForCacheSync env
                     then ((Some (Plain ''failed to wait for caches to sync''), starts), c2)
                     else ((None, starts @ [GoRun]), c2\<lparr>ct_started := True\<rparr>)))))"

text \<open>
  \<open>run\<close> up to where it waits: it makes the queue and replays the keys that came before it.
\<close>

definition replay :: "startKey \<Rightarrow> queue_call" where
  "replay k = (if sk_after k = 0 then Add (sk_key k) else AddAfter (sk_key k) (sk_after k))"

definition run_begin :: "controller \<Rightarrow> controller" where
  "run_begin c = c\<lparr>ct_workqueue := Some (map replay (ct_startKeys c)), ct_startKeys := []\<rparr>"

text \<open>\<open>run\<close> after its context is done, with its deferred calls\<close>

definition run_end :: "controller \<Rightarrow> controller" where
  "run_end c = (on_queue ShutDown (c\<lparr>ct_started := False\<rparr>))\<lparr>ct_listening := False\<rparr>"

section \<open>The workers\<close>

type_synonym 'w on_change = "gostring \<Rightarrow> kobject option \<Rightarrow> 'w \<Rightarrow> err option \<times> 'w"
type_synonym 'w cache_get = "kobject \<Rightarrow> gostring \<Rightarrow> gostring \<Rightarrow> 'w \<Rightarrow> (err + kobject) \<times> 'w"

definition syncHandler ::
  "'w cache_get \<Rightarrow> 'w on_change \<Rightarrow> kobject \<Rightarrow> gostring \<Rightarrow> 'w \<Rightarrow> err option \<times> 'w" where
  "syncHandler get h obj0 key w =
     (if isSpecialKey key then h key None w
      else (case keyParse key of (ns, name) \<Rightarrow>
             (case get obj0 ns name w of
                (Inl e, w1) \<Rightarrow> if IsNotFound (Some e) then h key None w1 else (Some e, w1)
              | (Inr ob, w1) \<Rightarrow> h key (Some ob) w1)))"

text \<open>
  The answer of \<open>processSingleItem\<close> has the calls it makes on the queue, the deferred one last.
\<close>

definition processSingleItem ::
  "'w cache_get \<Rightarrow> 'w on_change \<Rightarrow> kobject \<Rightarrow> queue_item \<Rightarrow> 'w \<Rightarrow> (err option \<times> queue_call list) \<times> 'w" where
  "processSingleItem get h obj0 item w =
     (case item of
        OtherItem \<Rightarrow> ((None, [Forget item, Done item]), w)
      | KeyItem key \<Rightarrow>
        (case syncHandler get h obj0 key w of
           (Some e, w1) \<Rightarrow>
             ((Some (Plain (''error syncing '' @ [CHR 0x27] @ key @ [CHR 0x27] @ '': '' @ error_string e @ '', requeuing'')),
               [AddRateLimited key, Done item]), w1)
         | (None, w1) \<Rightarrow> ((None, [Forget item, Done item]), w1)))"

text \<open>One turn of a worker, given what \<open>Get\<close> answers: an item, or \<^const>\<open>None\<close> on shutdown.\<close>

definition processNextWorkItem ::
  "'w cache_get \<Rightarrow> 'w on_change \<Rightarrow> kobject \<Rightarrow> queue_item option \<Rightarrow> 'w \<Rightarrow> (bool \<times> queue_call list) \<times> 'w" where
  "processNextWorkItem get h obj0 got w =
     (case got of
        None \<Rightarrow> ((False, []), w)
      | Some item \<Rightarrow> (case processSingleItem get h obj0 item w of ((e, calls), w1) \<Rightarrow> ((True, calls), w1)))"

text \<open>\<open>runWorker\<close> against the answers of \<open>Get\<close>; after the last one it waits.\<close>

fun runWorker ::
  "'w cache_get \<Rightarrow> 'w on_change \<Rightarrow> kobject \<Rightarrow> queue_item option list \<Rightarrow> 'w \<Rightarrow> queue_call list \<times> 'w" where
  "runWorker get h obj0 [] w = ([], w)"
| "runWorker get h obj0 (got # gots) w =
     (case processNextWorkItem get h obj0 got w of
        ((False, calls), w1) \<Rightarrow> (calls, w1)
      | ((True, calls), w1) \<Rightarrow> (case runWorker get h obj0 gots w1 of (calls', w2) \<Rightarrow> (calls @ calls', w2)))"

end
