(* ===== verification/ControllerProperties.thy ===== *)
theory ControllerProperties
  imports Controller
begin

text \<open>
  What holds of a controller: no key that is asked for before the queue exists is lost, at most
  one \<open>run\<close> is under way, and a worker settles every item it takes.
\<close>

section \<open>Requests\<close>

datatype ctl_op =
    OpKey gostring
  | OpEnqueue gostring gostring
  | OpAfter gostring gostring int
  | OpEvent informer_obj

fun do_op :: "(kobject \<Rightarrow> err + gostring) \<Rightarrow> ctl_op \<Rightarrow> controller \<Rightarrow> controller" where
  "do_op mk (OpKey k) = EnqueueKey k"
| "do_op mk (OpEnqueue ns n) = Enqueue ns n"
| "do_op mk (OpAfter ns n d) = EnqueueAfter ns n d"
| "do_op mk (OpEvent ob) = handleObject mk ob"

definition event_keys :: "(kobject \<Rightarrow> err + gostring) \<Rightarrow> informer_obj \<Rightarrow> gostring list" where
  "event_keys mk ob =
     (case (case ob of MetaObject x \<Rightarrow> Some x | Tombstone x \<Rightarrow> x | OtherObject \<Rightarrow> None) of
        None \<Rightarrow> []
      | Some x \<Rightarrow> (case mk x of Inl _ \<Rightarrow> [] | Inr k \<Rightarrow> [k]))"

text \<open>What a request puts on a queue that exists, and what it leaves for a queue that does not.\<close>

fun live_calls :: "(kobject \<Rightarrow> err + gostring) \<Rightarrow> ctl_op \<Rightarrow> queue_call list" where
  "live_calls mk (OpKey k) = [Add k]"
| "live_calls mk (OpEnqueue ns n) = [AddRateLimited (keyFunc ns n)]"
| "live_calls mk (OpAfter ns n d) = [AddAfter (keyFunc ns n) d]"
| "live_calls mk (OpEvent ob) = map Add (event_keys mk ob)"

fun start_calls :: "(kobject \<Rightarrow> err + gostring) \<Rightarrow> ctl_op \<Rightarrow> queue_call list" where
  "start_calls mk (OpKey k) = [Add k]"
| "start_calls mk (OpEnqueue ns n) = [Add (keyFunc ns n)]"
| "start_calls mk (OpAfter ns n d) = [if d = 0 then Add (keyFunc ns n) else AddAfter (keyFunc ns n) d]"
| "start_calls mk (OpEvent ob) = map Add (event_keys mk ob)"

lemma enqueue_object_live:
  "ct_workqueue c = Some qs \<Longrightarrow> enqueue_object mk ob c =
     c\<lparr>ct_workqueue := Some (qs @ (case mk ob of Inl _ \<Rightarrow> [] | Inr k \<Rightarrow> [Add k]))\<rparr>"
  by (cases "mk ob") (simp_all add: enqueue_object_def on_queue_def)

lemma handleObject_live:
  "ct_workqueue c = Some qs \<Longrightarrow> handleObject mk ob c =
     c\<lparr>ct_workqueue := Some (qs @ map Add (event_keys mk ob))\<rparr>"
  by (cases ob) (simp_all add: handleObject_def event_keys_def enqueue_object_live split: option.split sum.split)

lemma do_op_live:
  "ct_workqueue c = Some qs \<Longrightarrow> do_op mk op c = c\<lparr>ct_workqueue := Some (qs @ live_calls mk op)\<rparr>"
  by (cases op) (simp_all add: handleObject_live EnqueueKey_def Enqueue_def EnqueueAfter_def on_queue_def)

lemma handleObject_start:
  "ct_workqueue c = None \<Longrightarrow> handleObject mk ob c =
     c\<lparr>ct_startKeys := ct_startKeys c @ map (\<lambda>k. \<lparr>sk_key = k, sk_after = 0\<rparr>) (event_keys mk ob)\<rparr>"
  by (cases ob) (simp_all add: handleObject_def event_keys_def enqueue_object_def add_start_def
      split: option.split sum.split)

lemma do_op_start:
  assumes "ct_workqueue c = None"
  shows "\<exists>ks. do_op mk op c = c\<lparr>ct_startKeys := ct_startKeys c @ ks\<rparr> \<and> map replay ks = start_calls mk op"
proof (cases op)
  case (OpKey k)
  with assms show ?thesis
    by (intro exI [of _ "[\<lparr>sk_key = k, sk_after = 0\<rparr>]"])
      (simp add: EnqueueKey_def add_start_def replay_def)
next
  case (OpEnqueue ns n)
  with assms show ?thesis
    by (intro exI [of _ "[\<lparr>sk_key = keyFunc ns n, sk_after = 0\<rparr>]"])
      (simp add: Enqueue_def add_start_def replay_def)
next
  case (OpAfter ns n d)
  with assms show ?thesis
    by (intro exI [of _ "[\<lparr>sk_key = keyFunc ns n, sk_after = d\<rparr>]"])
      (simp add: EnqueueAfter_def add_start_def replay_def)
next
  case (OpEvent ob)
  with assms show ?thesis
    by (intro exI [of _ "map (\<lambda>k. \<lparr>sk_key = k, sk_after = 0\<rparr>) (event_keys mk ob)"])
      (simp add: handleObject_start replay_def)
qed

lemma do_ops_live:
  "ct_workqueue c = Some qs \<Longrightarrow>
     fold (do_op mk) ops c = c\<lparr>ct_workqueue := Some (qs @ concat (map (live_calls mk) ops))\<rparr>"
  by (induction ops arbitrary: c qs) (simp_all add: do_op_live)

lemma do_ops_start:
  "ct_workqueue c = None \<Longrightarrow>
     \<exists>ks. fold (do_op mk) ops c = c\<lparr>ct_startKeys := ct_startKeys c @ ks\<rparr> \<and>
          map replay ks = concat (map (start_calls mk) ops)"
proof (induction ops arbitrary: c)
  case Nil
  then show ?case by (intro exI [of _ "[]"]) simp
next
  case (Cons op ops)
  from do_op_start [OF Cons.prems] obtain ks where
    1: "do_op mk op c = c\<lparr>ct_startKeys := ct_startKeys c @ ks\<rparr>" "map replay ks = start_calls mk op"
    by blast
  let ?c1 = "c\<lparr>ct_startKeys := ct_startKeys c @ ks\<rparr>"
  from Cons.IH [of ?c1] Cons.prems obtain ks' where
    "fold (do_op mk) ops ?c1 = ?c1\<lparr>ct_startKeys := ct_startKeys ?c1 @ ks'\<rparr>"
    "map replay ks' = concat (map (start_calls mk) ops)" by auto
  with 1 show ?case by (intro exI [of _ "ks @ ks'"]) simp
qed

text \<open>C17: no request is lost around the start. A controller is made without a queue; every
  request made before \<open>run\<close> creates it (a key, a namespaced name, a delayed one, or an event of
  the informer) is on the new queue, in the order the requests were made and before every later
  one, delayed by the same time; nothing else is on it and no start key is left behind.\<close>

theorem requests_survive_start:
  assumes "New sch gi g = Inr c"
  shows "let c' = fold (do_op mk) later (run_begin (fold (do_op mk) early c))
         in ct_workqueue c' = Some (concat (map (start_calls mk) early) @ concat (map (live_calls mk) later)) \<and>
            ct_startKeys c' = []"
proof -
  from assms have n: "ct_workqueue c = None" "ct_startKeys c = []"
    by (auto simp: New_def split: sum.splits option.splits)
  from do_ops_start [OF n(1)] n(2) obtain ks where
    "fold (do_op mk) early c = c\<lparr>ct_startKeys := ks\<rparr>" "map replay ks = concat (map (start_calls mk) early)"
    by fastforce
  then show ?thesis
    by (simp add: run_begin_def do_ops_live)
qed

section \<open>Runs\<close>

text \<open>
  The life of a controller: \<open>Starting\<close> is the time between the \<open>go c.run\<close> of \<open>Start\<close> and the
  creation of the queue, \<open>Running\<close> the time until the end of \<open>run\<close>.
\<close>

datatype phase = Idle | Starting | Running

inductive ctl_step :: "(kobject \<Rightarrow> err + gostring) \<Rightarrow> controller \<times> phase \<Rightarrow> controller \<times> phase \<Rightarrow> bool"
  for mk where
  ctl_request: "ctl_step mk (c, ph) (do_op mk op c, ph)"
| ctl_start: "controller_Start env c = ((e, gos), c') \<Longrightarrow>
      ctl_step mk (c, ph) (c', if GoRun \<in> set gos then Starting else ph)"
| ctl_begin: "ctl_step mk (c, Starting) (run_begin c, Running)"
| ctl_stop: "ctl_step mk (c, Running) (run_end c, Idle)"

inductive ctl_reach :: "(kobject \<Rightarrow> err + gostring) \<Rightarrow> controller \<times> phase \<Rightarrow> bool" for mk where
  ctl_init: "New sch gi g = Inr c \<Longrightarrow> ctl_reach mk (c, Idle)"
| ctl_more: "ctl_reach mk s \<Longrightarrow> ctl_step mk s s' \<Longrightarrow> ctl_reach mk s'"

inductive_cases ctl_stepE: "ctl_step mk s s'"

fun ctl_inv :: "controller \<times> phase \<Rightarrow> bool" where
  "ctl_inv (c, ph) \<longleftrightarrow>
     ct_informer c \<and> (ct_started c \<longleftrightarrow> ph \<noteq> Idle) \<and> (ct_started c \<longrightarrow> ct_registration c) \<and>
     (ct_workqueue c \<noteq> None \<longrightarrow> ct_startKeys c = []) \<and> (ph = Running \<longrightarrow> ct_workqueue c \<noteq> None)"

lemma do_op_frame:
  "\<exists>q ks. do_op mk op c = c\<lparr>ct_workqueue := q, ct_startKeys := ks\<rparr> \<and> (q = None \<longleftrightarrow> ct_workqueue c = None) \<and>
     (ct_workqueue c \<noteq> None \<longrightarrow> ks = ct_startKeys c)"
proof (cases "ct_workqueue c")
  case None
  from do_op_start [OF this, of mk op] obtain ks where "do_op mk op c = c\<lparr>ct_startKeys := ct_startKeys c @ ks\<rparr>"
    by blast
  with None show ?thesis
    by (intro exI [of _ None] exI [of _ "ct_startKeys c @ ks"]) simp
next
  case (Some qs)
  from do_op_live [OF this] Some show ?thesis
    by (intro exI [of _ "Some (qs @ live_calls mk op)"] exI [of _ "ct_startKeys c"]) simp
qed

lemma controller_Start_frame:
  assumes "controller_Start env c = ((e, gos), c')" and "ct_informer c"
  shows "ct_informer c' \<and> ct_workqueue c' = ct_workqueue c \<and> ct_startKeys c' = ct_startKeys c \<and>
     (if GoRun \<in> set gos then \<not> ct_started c \<and> ct_started c' \<and> ct_registration c'
      else ct_started c' = ct_started c \<and> (ct_registration c \<longrightarrow> ct_registration c'))"
  using assms
  by (auto simp: controller_Start_def start_informer_def start_register_def Let_def
      split: if_splits option.splits)

lemma ctl_step_inv: "ctl_step mk s s' \<Longrightarrow> ctl_inv s \<Longrightarrow> ctl_inv s'"
proof (induction rule: ctl_step.induct)
  case (ctl_request c ph op)
  from do_op_frame [of mk op c] obtain q ks where
    "do_op mk op c = c\<lparr>ct_workqueue := q, ct_startKeys := ks\<rparr>" "q = None \<longleftrightarrow> ct_workqueue c = None"
    "ct_workqueue c \<noteq> None \<longrightarrow> ks = ct_startKeys c" by (elim exE conjE) (rule that)
  with ctl_request show ?case by auto
next
  case (ctl_start env c e gos c' ph)
  from ctl_start(2) have "ct_informer c" by simp
  from controller_Start_frame [OF ctl_start(1) this] ctl_start(2) show ?case
    by (auto split: if_splits)
next
  case (ctl_begin c)
  then show ?case by (simp add: run_begin_def)
next
  case (ctl_stop c)
  then show ?case by (auto simp: run_end_def on_queue_def)
qed

lemma ctl_reach_inv: "ctl_reach mk s \<Longrightarrow> ctl_inv s"
proof (induction rule: ctl_reach.induct)
  case (ctl_init sch gi g c)
  then show ?case by (auto simp: New_def split: sum.splits option.splits)
qed (auto intro: ctl_step_inv)


text \<open>The environment in which everything succeeds, and a scheme of one kind.\<close>

definition good_env :: start_env where
  "good_env = \<lparr>se_GetInformer = Inr True, se_AddEventHandler = None, se_HasSynced = True,
     se_WaitForCacheSync = True\<rparr>"

definition plain_scheme :: kscheme where
  "plain_scheme = \<lparr>gvk_for = (\<lambda>ob. Inr (k_gvk ob)),
     gvk_String = (\<lambda>g. gvk_group g @ ''/'' @ gvk_version g @ '', Kind='' @ gvk_kind g),
     gv_String = (\<lambda>g. gvk_group g @ ''/'' @ gvk_version g), rest_scope = (\<lambda>_. Inr NamespaceScope),
     scheme_new = (\<lambda>g. NewObject (zero_object (gvk_kind g) g))\<rparr>"

definition pods :: gvk where "pods = GVK [] ''v1'' ''Pod''"

definition pod_controller :: controller where
  "pod_controller = \<lparr>ct_gvk = pods, ct_name = gvk_String plain_scheme pods, ct_workqueue = None,
     ct_informer = True, ct_startKeys = [], ct_started = False, ct_registration = False,
     ct_listening = False, ct_obj = zero_object ''Pod'' pods\<rparr>"

definition object_key :: "kobject \<Rightarrow> err + gostring" where
  "object_key ob = Inr (keyFunc (k_namespace ob) (k_name ob))"

lemma New_pod_controller: "New plain_scheme (\<lambda>_. None) pods = Inr pod_controller"
  by (simp add: New_def newObject_def plain_scheme_def pod_controller_def pods_def)

definition pod_running :: controller where
  "pod_running = run_begin (snd (controller_Start good_env (EnqueueKey ''a'' pod_controller)))"

lemma pod_running_eq:
  "pod_running = pod_controller\<lparr>ct_workqueue := Some [Add ''a''], ct_started := True, ct_registration := True,
     ct_listening := True\<rparr>"
  by (simp add: pod_running_def EnqueueKey_def pod_controller_def add_start_def controller_Start_def
      start_informer_def start_register_def good_env_def run_begin_def replay_def)

lemma reach_pod_running: "ctl_reach mk (pod_running, Running)"
proof -
  let ?c1 = "EnqueueKey ''a'' pod_controller"
  let ?c2 = "snd (controller_Start good_env ?c1)"
  have "ctl_reach mk (pod_controller, Idle)"
    by (rule ctl_init [OF New_pod_controller])
  moreover have "ctl_step mk (pod_controller, Idle) (?c1, Idle)"
    using ctl_request [of mk pod_controller Idle "OpKey ''a''"] by simp
  ultimately have 1: "ctl_reach mk (?c1, Idle)" by (rule ctl_more)
  have "controller_Start good_env ?c1 = ((None, [GoRun]), ?c2)"
    by (simp add: EnqueueKey_def pod_controller_def add_start_def controller_Start_def
      start_informer_def start_register_def good_env_def)
  from ctl_start [OF this, of mk Idle] have "ctl_step mk (?c1, Idle) (?c2, Starting)" by simp
  with 1 have 2: "ctl_reach mk (?c2, Starting)" by (rule ctl_more)
  have "ctl_step mk (?c2, Starting) (pod_running, Running)"
    unfolding pod_running_def by (rule ctl_begin)
  with 2 show ?thesis by (rule ctl_more)
qed

lemma requests_survive_start_witness:
  "ct_workqueue (EnqueueKey ''b'' (run_begin (EnqueueAfter ''n'' ''x'' 5 (EnqueueKey ''a'' pod_controller)))) =
     Some [Add ''a'', AddAfter ''n/x'' 5, Add ''b'']"
  using requests_survive_start [OF New_pod_controller, where mk = object_key and
      early = "[OpKey ''a'', OpAfter ''n'' ''x'' 5]" and later = "[OpKey ''b'']"]
  by (simp add: Let_def keyFunc_def)


text \<open>C32: a controller that is started a second time, after its first run has ended, answers
  without error but never hears of an event again, because the registration of the first run is
  still set although \<open>run\<close> removed the event handler; and a key that is enqueued between the two
  runs goes to the queue that was shut down and is not on the queue of the second run.\<close>

theorem restart_is_deaf:
  assumes "ctl_reach mk (c, Running)"
  shows "(case controller_Start good_env (EnqueueKey k (run_end c)) of
            ((e, gos), c') \<Rightarrow> e = None \<and> gos = [GoRun] \<and> \<not> ct_listening (run_begin c') \<and>
              ct_workqueue (run_begin c') = Some [])"
proof -
  from ctl_reach_inv [OF assms] have "ct_informer c" "ct_registration c" "ct_workqueue c \<noteq> None" "ct_startKeys c = []"
    by auto
  then show ?thesis
    by (auto simp: run_end_def on_queue_def EnqueueKey_def controller_Start_def start_informer_def
        start_register_def good_env_def run_begin_def)
qed

lemma restart_is_deaf_witness:
  "ct_listening pod_running \<and>
   (case controller_Start good_env (EnqueueKey ''k'' (run_end pod_running)) of
     (r, c') \<Rightarrow> \<not> ct_listening (run_begin c') \<and> ct_workqueue (run_begin c') = Some [])"
  using restart_is_deaf [OF reach_pod_running, where k = "''k''"]
  by (auto simp: pod_running_eq split: prod.splits)

section \<open>Workers\<close>

text \<open>What handling each item in turn gives.\<close>

fun sync_all ::
  "'w cache_get \<Rightarrow> 'w on_change \<Rightarrow> kobject \<Rightarrow> queue_item list \<Rightarrow> 'w \<Rightarrow> (queue_item \<times> err option) list \<times> 'w" where
  "sync_all get h ob [] w = ([], w)"
| "sync_all get h ob (KeyItem k # is) w =
     (case syncHandler get h ob k w of (e, w1) \<Rightarrow>
       (case sync_all get h ob is w1 of (rs, w2) \<Rightarrow> ((KeyItem k, e) # rs, w2)))"
| "sync_all get h ob (OtherItem # is) w =
     (case sync_all get h ob is w of (rs, w2) \<Rightarrow> ((OtherItem, None) # rs, w2))"

fun done_of :: "queue_call \<Rightarrow> queue_item list" where
  "done_of (Done i) = [i]"
| "done_of _ = []"

fun requeued_of :: "queue_call \<Rightarrow> gostring list" where
  "requeued_of (AddRateLimited k) = [k]"
| "requeued_of _ = []"

fun forgotten_of :: "queue_call \<Rightarrow> queue_item list" where
  "forgotten_of (Forget i) = [i]"
| "forgotten_of _ = []"

definition failed_keys :: "(queue_item \<times> err option) list \<Rightarrow> gostring list" where
  "failed_keys rs = concat (map (\<lambda>r. case r of (KeyItem k, Some e) \<Rightarrow> [k] | _ \<Rightarrow> []) rs)"

lemma failed_keys_simps [simp]:
  "failed_keys [] = []"
  "failed_keys ((KeyItem k, Some e) # rs) = k # failed_keys rs"
  "failed_keys ((i, None) # rs) = failed_keys rs"
  "failed_keys ((OtherItem, x) # rs) = failed_keys rs"
  by (simp_all add: failed_keys_def split: queue_item.split)

lemma sync_all_items: "map fst (fst (sync_all get h ob items w)) = items"
  by (induction get h ob items w rule: sync_all.induct) (auto split: prod.splits)

lemma processSingleItem_calls:
  assumes "processSingleItem get h ob i w = ((e, calls), w1)"
  shows "concat (map done_of calls) = [i] \<and> concat (map requeued_of calls) = failed_keys (fst (sync_all get h ob [i] w)) \<and>
    (concat (map forgotten_of calls) = (if e = None then [i] else [])) \<and> w1 = snd (sync_all get h ob [i] w) \<and>
    (\<exists>e'. fst (sync_all get h ob [i] w) = [(i, e')] \<and> (e = None \<longleftrightarrow> e' = None))"
  using assms
  by (cases i) (auto simp: processSingleItem_def split: prod.splits option.splits)

lemma sync_all_Cons:
  "sync_all get h ob (i # is) w =
     (let (rs, w1) = sync_all get h ob [i] w; (rs', w2) = sync_all get h ob is w1 in (rs @ rs', w2))"
  by (cases i) (auto split: prod.splits)

text \<open>C16: a worker settles everything it takes. Whatever items the queue hands out before it is
  shut down, the worker handles each of them in turn, marks each as done exactly once, puts back
  exactly the keys whose handling failed, forgets the failures of exactly the others, and takes
  nothing after the shutdown.\<close>

theorem runWorker_settles:
  "case runWorker get h ob (map Some items @ None # rest) w of
     (calls, w') \<Rightarrow>
       concat (map done_of calls) = items \<and>
       concat (map requeued_of calls) = failed_keys (fst (sync_all get h ob items w)) \<and>
       concat (map forgotten_of calls) = map fst (filter (\<lambda>r. snd r = None) (fst (sync_all get h ob items w))) \<and>
       w' = snd (sync_all get h ob items w)"
proof (induction items arbitrary: w)
  case Nil
  then show ?case by (simp add: processNextWorkItem_def)
next
  case (Cons i items)
  obtain e calls w1 where p: "processSingleItem get h ob i w = ((e, calls), w1)"
    by (metis prod.collapse)
  from processSingleItem_calls [OF p] obtain e' where
    c: "concat (map done_of calls) = [i]" "concat (map requeued_of calls) = failed_keys [(i, e')]"
      "concat (map forgotten_of calls) = (if e' = None then [i] else [])" "sync_all get h ob [i] w = ([(i, e')], w1)"
    by (metis prod.collapse)
  obtain calls' w2 where r: "runWorker get h ob (map Some items @ None # rest) w1 = (calls', w2)"
    by (metis prod.collapse)
  obtain rs where s: "sync_all get h ob items w1 = (rs, w2)"
    using Cons.IH [of w1] by (simp add: r) (metis prod.collapse)
  have "sync_all get h ob (i # items) w = ((i, e') # rs, w2)"
    by (subst sync_all_Cons) (simp add: c(4) s)
  with Cons.IH [of w1] show ?case
    by (simp add: processNextWorkItem_def p r s c(1-3) failed_keys_def)
qed

end
