(* ===== verification/Routes.thy ===== *)
theory Routes
  imports Handlers
begin

text \<open>
  Handlers and how a route is built from them: pkg/router/handlers.go, finalizer.go, the status
  comparison of save.go, and the route builder with its filters of router.go.

  A handler is a function of the request, the response and the state. A response keeps its
  implementation through a call; \<open>response_of\<close> and \<open>wrapper_of\<close> read it back.
\<close>

type_synonym 'w handler = "request \<Rightarrow> resp \<Rightarrow> 'w rstate \<Rightarrow> err option \<times> resp \<times> 'w rstate"

fun response_of :: "resp \<Rightarrow> response" where
  "response_of (Resp r) = r"
| "response_of (Wrapper w) =
     \<lparr>r_attr = rw_Attr w, r_delay = rw_Delay w, r_objects = rw_Objs w, r_noPrune = rw_NoPrune w\<rparr>"

fun wrapper_of :: "resp \<Rightarrow> ResponseWrapper" where
  "wrapper_of (Wrapper w) = w"
| "wrapper_of (Resp r) =
     \<lparr>rw_NoPrune = r_noPrune r, rw_Delay = r_delay r, rw_Objs = r_objects r, rw_Attr = r_attr r\<rparr>"

definition isObjectForRequest :: "request \<Rightarrow> kobject \<Rightarrow> bool" where
  "isObjectForRequest req obj \<longleftrightarrow>
     k_name obj = rq_name req \<and> k_namespace obj = rq_namespace req \<and> k_gvk obj = rq_gvk req"

text \<open>
  \<open>StatusChanged\<close> on the fields \<open>Status\<close>; \<open>sem_eq\<close> is apimachinery's semantic \<open>DeepEqual\<close>.
\<close>

definition StatusChanged :: "(json option \<Rightarrow> json option \<Rightarrow> bool) \<Rightarrow> kobject \<Rightarrow> kobject \<Rightarrow> bool" where
  "StatusChanged sem_eq unmodified new \<longleftrightarrow> \<not> sem_eq (k_status unmodified) (k_status new)"

section \<open>The handlers of a kind\<close>

type_synonym 'w handler_table = "(gvk, 'w handler list) gomap"

definition handlers_GVKs :: "'w handler_table \<Rightarrow> gvk list" where
  "handlers_GVKs t = gm_keys t"

definition AddHandler :: "gvk \<Rightarrow> 'w handler \<Rightarrow> 'w handler_table \<Rightarrow> 'w handler_table" where
  "AddHandler g h t = AList.update g (gm_list t g @ [h]) t"

definition handlers_Handles :: "'w handler_table \<Rightarrow> request \<Rightarrow> bool" where
  "handlers_Handles t req \<longleftrightarrow> length (gm_list t (rq_gvk req)) > 0"

text \<open>
  One handler after the other; an object of the response that is the request's own object
  replaces the object the next handler is given, by reference.
\<close>

definition take_request_object :: "request \<Rightarrow> 'w rstate \<Rightarrow> oref list \<Rightarrow> request \<times> oref list" where
  "take_request_object req s objs =
     (fold (\<lambda>x q. if isObjectForRequest req (deref s x) then q\<lparr>rq_object := Some x\<rparr> else q) objs req,
      filter (\<lambda>x. \<not> isObjectForRequest req (deref s x)) objs)"

fun handle_each ::
  "'w handler list \<Rightarrow> request \<Rightarrow> response \<Rightarrow> 'w rstate \<Rightarrow> err option list \<times> response \<times> 'w rstate" where
  "handle_each [] req r s = ([], r, s)"
| "handle_each (h # hs) req r s =
     (case h req (Resp r) s of (err, q, s1) \<Rightarrow>
       (case take_request_object req s1 (r_objects (response_of q)) of (req1, newObjects) \<Rightarrow>
         (case handle_each hs req1 ((response_of q)\<lparr>r_objects := newObjects\<rparr>) s1 of (errs, r2, s2) \<Rightarrow>
            (err # errs, r2, s2))))"

definition handlers_Handle ::
  "'w handler_table \<Rightarrow> request \<Rightarrow> response \<Rightarrow> 'w rstate \<Rightarrow> err option \<times> response \<times> 'w rstate" where
  "handlers_Handle t req r s =
     (case handle_each (gm_list t (rq_gvk req)) req r s of (errs, r', s') \<Rightarrow> (NewErrors errs, r', s'))"

section \<open>Filters\<close>

definition IgnoreNilHandler :: "'w handler \<Rightarrow> 'w handler" where
  "IgnoreNilHandler next req p s = (if rq_object req = None then (None, p, s) else next req p s)"

definition IgnoreRemoveHandler :: "'w handler \<Rightarrow> 'w handler" where
  "IgnoreRemoveHandler next req p s =
     (case rq_object req of None \<Rightarrow> (None, p, s)
      | Some x \<Rightarrow> if k_deletionTimestamp (deref s x) \<noteq> None then (None, p, s) else next req p s)"

definition ErrorPrefix :: "gostring \<Rightarrow> 'w handler \<Rightarrow> 'w handler" where
  "ErrorPrefix prefix next req p s =
     (case next req p s of
        (None, p1, s1) \<Rightarrow> (None, p1, s1)
      | (Some e, p1, s1) \<Rightarrow> (Some (PrefixError prefix e), p1, s1))"

definition NameNamespaceFilter :: "gostring \<Rightarrow> gostring \<Rightarrow> 'w handler \<Rightarrow> 'w handler" where
  "NameNamespaceFilter name namespace next req p s =
     (if name \<noteq> [] \<and> rq_name req \<noteq> name then (None, p, s)
      else if namespace \<noteq> [] \<and> rq_namespace req \<noteq> namespace then (None, p, s)
      else next req p s)"

definition SelectorFilter :: "label_selector \<Rightarrow> 'w handler \<Rightarrow> 'w handler" where
  "SelectorFilter sel next req p s =
     (case rq_object req of None \<Rightarrow> (None, p, s)
      | Some x \<Rightarrow> if \<not> ls_Matches sel (k_labels (deref s x)) then (None, p, s) else next req p s)"

definition FieldSelectorFilter :: "field_selector \<Rightarrow> 'w handler \<Rightarrow> 'w handler" where
  "FieldSelectorFilter sel next req p s =
     (case rq_object req of None \<Rightarrow> (None, p, s)
      | Some x \<Rightarrow>
        (case k_fields (deref s x) of None \<Rightarrow> (None, p, s)
         | Some i \<Rightarrow> if fs_Matches sel i then next req p s else (None, p, s)))"

section \<open>Finalizers\<close>

fun finalizer_objects ::
  "'w backend \<Rightarrow> request \<Rightarrow> oref list \<Rightarrow> oref \<Rightarrow> resp \<Rightarrow> 'w rstate \<Rightarrow> oref \<times> resp \<times> 'w rstate" where
  "finalizer_objects b req [] newObj p s = (newObj, p, s)"
| "finalizer_objects b req (x # xs) newObj p s =
     (let newObj = (if isObjectForRequest req (deref s x) then x else newObj)
      in case resp_Objects b req [x] p s of (p1, s1) \<Rightarrow> finalizer_objects b req xs newObj p1 s1)"

text \<open>What happens once \<open>Next\<close> has answered without an error. An empty list of finalizers cannot be sliced.\<close>

definition finalizer_finish ::
  "'w backend \<Rightarrow> (json option \<Rightarrow> json option \<Rightarrow> bool) \<Rightarrow> gostring \<Rightarrow> request \<Rightarrow> oref \<Rightarrow> oref \<Rightarrow> ResponseWrapper \<Rightarrow>
     resp \<Rightarrow> 'w rstate \<Rightarrow> err option \<times> resp \<times> 'w rstate" where
  "finalizer_finish b sem_eq fid req obj copyObj newResp p s =
     (let p = (if rw_Delay newResp \<noteq> 0 then resp_RetryAfter (rw_Delay newResp) p else p);
          p = (if rw_NoPrune newResp then resp_DisablePrune p else p);
          p = fold (\<lambda>(k, v). resp_SetAttribute k v) (rw_Attr newResp) p
      in case finalizer_objects b req (rw_Objs newResp) copyObj p s of (newObj, p, s) \<Rightarrow>
        (case (if StatusChanged sem_eq (deref s obj) (deref s newObj) then status_Update b req newObj s else (None, s)) of
           (Some e, s) \<Rightarrow> (Some e, p, s)
         | (None, s) \<Rightarrow>
           if rw_Delay newResp = 0 \<and> k_finalizers (deref s newObj) \<noteq> [] \<and> hd (k_finalizers (deref s newObj)) = fid
           then (if k_finalizers (deref s obj) = [] then (Some NilDereference, p, s)
                 else (case writer_Update b req newObj
                         (assign newObj ((deref s newObj)\<lparr>k_finalizers := tl (k_finalizers (deref s obj))\<rparr>) s) of
                         (Some e, s) \<Rightarrow> (Some e, p, s)
                       | (None, s) \<Rightarrow> (case resp_Objects b req [newObj] p s of (p, s) \<Rightarrow> (None, p, s))))
           else (None, p, s)))"

definition FinalizerHandler ::
  "'w backend \<Rightarrow> (json option \<Rightarrow> json option \<Rightarrow> bool) \<Rightarrow> gostring \<Rightarrow> 'w handler \<Rightarrow> 'w handler" where
  "FinalizerHandler b sem_eq fid next req p s =
     (case rq_object req of None \<Rightarrow> (None, p, s)
      | Some obj \<Rightarrow>
        if k_deletionTimestamp (deref s obj) = None
        then (if fid \<notin> set (k_finalizers (deref s obj))
              then (case writer_Update b req obj
                      (assign obj ((deref s obj)\<lparr>k_finalizers := k_finalizers (deref s obj) @ [fid]\<rparr>) s) of
                      (Some e, s) \<Rightarrow> (Some e, p, s)
                    | (None, s) \<Rightarrow> (case resp_Objects b req [obj] p s of (p, s) \<Rightarrow> (None, p, s)))
              else (None, p, s))
        else if k_finalizers (deref s obj) = [] \<or> hd (k_finalizers (deref s obj)) \<noteq> fid then (None, p, s)
        else (case alloc (deref s obj) s of (newObj, s) \<Rightarrow>
               (let req = req\<lparr>rq_object := Some newObj\<rparr>
                in case next req (Wrapper new_wrapper) s of
                     (Some e, _, s) \<Rightarrow> (Some e, p, s)
                   | (None, q, s) \<Rightarrow> finalizer_finish b sem_eq fid req obj newObj (wrapper_of q) p s)))"

section \<open>Routes\<close>

record 'w route_builder =
  rb_includeRemove :: bool
  rb_includeFinalizing :: bool
  rb_finalizeID :: gostring
  rb_objType :: kobject
  rb_name :: gostring
  rb_namespace :: gostring
  rb_routeName :: gostring
  rb_middleware :: "('w handler \<Rightarrow> 'w handler) list"
  rb_sel :: "label_selector option"
  rb_fieldSelector :: "field_selector option"

definition rb_Middleware :: "('w handler \<Rightarrow> 'w handler) list \<Rightarrow> 'w route_builder \<Rightarrow> 'w route_builder" where
  "rb_Middleware ms r = r\<lparr>rb_middleware := rb_middleware r @ ms\<rparr>"

definition rb_Namespace :: "gostring \<Rightarrow> 'w route_builder \<Rightarrow> 'w route_builder" where
  "rb_Namespace namespace r = r\<lparr>rb_namespace := namespace\<rparr>"

definition rb_Selector :: "label_selector \<Rightarrow> 'w route_builder \<Rightarrow> 'w route_builder" where
  "rb_Selector sel r = r\<lparr>rb_sel := Some sel\<rparr>"

definition rb_FieldSelector :: "field_selector \<Rightarrow> 'w route_builder \<Rightarrow> 'w route_builder" where
  "rb_FieldSelector sel r = r\<lparr>rb_fieldSelector := Some sel\<rparr>"

definition rb_Name :: "gostring \<Rightarrow> 'w route_builder \<Rightarrow> 'w route_builder" where
  "rb_Name name r = r\<lparr>rb_name := name\<rparr>"

definition rb_IncludeRemoved :: "'w route_builder \<Rightarrow> 'w route_builder" where
  "rb_IncludeRemoved r = r\<lparr>rb_includeRemove := True\<rparr>"

definition rb_IncludeFinalizing :: "'w route_builder \<Rightarrow> 'w route_builder" where
  "rb_IncludeFinalizing r = r\<lparr>rb_includeFinalizing := True\<rparr>"

definition rb_Type :: "kobject \<Rightarrow> 'w route_builder \<Rightarrow> 'w route_builder" where
  "rb_Type objType r = r\<lparr>rb_objType := objType\<rparr>"

text \<open>\<open>callerName\<close> is what \<open>name()\<close> finds on the stack.\<close>

definition route_handler ::
  "'w backend \<Rightarrow> (json option \<Rightarrow> json option \<Rightarrow> bool) \<Rightarrow> gostring \<Rightarrow> 'w route_builder \<Rightarrow> 'w handler \<Rightarrow> 'w handler" where
  "route_handler b sem_eq callerName r h =
     (let routeName = (if rb_routeName r = [] then callerName else rb_routeName r);
          result = h;
          result = (if rb_finalizeID r \<noteq> [] then FinalizerHandler b sem_eq (rb_finalizeID r) result else result);
          result = foldr (\<lambda>m h. m h) (rb_middleware r) result;
          result = (if rb_name r \<noteq> [] \<or> rb_namespace r \<noteq> []
                    then NameNamespaceFilter (rb_name r) (rb_namespace r) result else result);
          result = (case rb_sel r of None \<Rightarrow> result | Some sel \<Rightarrow> SelectorFilter sel result);
          result = (case rb_fieldSelector r of None \<Rightarrow> result | Some sel \<Rightarrow> FieldSelectorFilter sel result);
          result = (if rb_includeFinalizing r \<and> \<not> rb_includeRemove r \<and> rb_finalizeID r = []
                    then IgnoreNilHandler result else result);
          result = (if \<not> rb_includeRemove r \<and> \<not> rb_includeFinalizing r \<and> rb_finalizeID r = []
                    then IgnoreRemoveHandler result else result)
      in (if routeName \<noteq> [] then ErrorPrefix (''['' @ routeName @ ''] '') result else result))"

text \<open>
  \<open>Handler\<close> registers the composed handler for the kind of the type; a type the scheme does not
  know panics, which is \<^const>\<open>None\<close>.
\<close>

definition route_Handler ::
  "'w backend \<Rightarrow> (json option \<Rightarrow> json option \<Rightarrow> bool) \<Rightarrow> gostring \<Rightarrow> 'w route_builder \<Rightarrow> 'w handler \<Rightarrow>
     'w handler_table \<Rightarrow> 'w handler_table option" where
  "route_Handler b sem_eq callerName r h t =
     (case gvk_for (b_scheme b) (rb_objType r) of
        Inl e \<Rightarrow> None
      | Inr g \<Rightarrow> Some (AddHandler g (route_handler b sem_eq callerName r h) t))"

definition route_Finalize ::
  "'w backend \<Rightarrow> (json option \<Rightarrow> json option \<Rightarrow> bool) \<Rightarrow> gostring \<Rightarrow> gostring \<Rightarrow> 'w route_builder \<Rightarrow> 'w handler \<Rightarrow>
     'w handler_table \<Rightarrow> 'w handler_table option" where
  "route_Finalize b sem_eq callerName finalizerID r h t =
     route_Handler b sem_eq callerName (r\<lparr>rb_finalizeID := finalizerID, rb_routeName := callerName\<rparr>) h t"

section \<open>The interface of a filter\<close>

text \<open>
  A filter either runs the handler it wraps unchanged or answers nil and changes nothing; \<open>passes\<close>
  says which. An optional filter and a composition of filters are filters again.
\<close>

locale handler_filter =
  fixes wrap :: "'w handler \<Rightarrow> 'w handler"
    and passes :: "request \<Rightarrow> 'w rstate \<Rightarrow> bool"
  assumes wrap_pass: "passes req s \<Longrightarrow> wrap h req p s = h req p s"
    and wrap_skip: "\<not> passes req s \<Longrightarrow> wrap h req p s = (None, p, s)"
begin

lemma wrap_eq: "wrap h req p s = (if passes req s then h req p s else (None, p, s))"
  by (simp add: wrap_pass wrap_skip)

lemma wrap_optional: "(if c then wrap h else h) req p s = (if c \<longrightarrow> passes req s then h req p s else (None, p, s))"
  by (simp add: wrap_eq)

lemma wrap_idem: "wrap (wrap h) req p s = wrap h req p s"
  by (simp add: wrap_eq)

end

locale filter_pair = outer: handler_filter wrap1 passes1 + inner: handler_filter wrap2 passes2
  for wrap1 :: "'w handler \<Rightarrow> 'w handler" and passes1 and wrap2 :: "'w handler \<Rightarrow> 'w handler" and passes2
begin

lemma wrap_both: "wrap1 (wrap2 h) req p s = (if passes1 req s \<and> passes2 req s then h req p s else (None, p, s))"
  by (simp add: outer.wrap_eq inner.wrap_eq)

lemma wrap_swap: "wrap1 (wrap2 h) req p s = wrap2 (wrap1 h) req p s"
  by (simp add: outer.wrap_eq inner.wrap_eq)

end

definition has_object :: "request \<Rightarrow> 'w rstate \<Rightarrow> bool" where
  "has_object req s \<longleftrightarrow> rq_object req \<noteq> None"

definition is_live :: "request \<Rightarrow> 'w rstate \<Rightarrow> bool" where
  "is_live req s \<longleftrightarrow> (\<exists>x. rq_object req = Some x \<and> k_deletionTimestamp (deref s x) = None)"

definition in_scope :: "gostring \<Rightarrow> gostring \<Rightarrow> request \<Rightarrow> 'w rstate \<Rightarrow> bool" where
  "in_scope name namespace req s \<longleftrightarrow>
     (name = [] \<or> rq_name req = name) \<and> (namespace = [] \<or> rq_namespace req = namespace)"

definition selected :: "label_selector \<Rightarrow> request \<Rightarrow> 'w rstate \<Rightarrow> bool" where
  "selected sel req s \<longleftrightarrow> (\<exists>x. rq_object req = Some x \<and> ls_Matches sel (k_labels (deref s x)))"

definition field_selected :: "field_selector \<Rightarrow> request \<Rightarrow> 'w rstate \<Rightarrow> bool" where
  "field_selected sel req s \<longleftrightarrow>
     (\<exists>x i. rq_object req = Some x \<and> k_fields (deref s x) = Some i \<and> fs_Matches sel i)"

interpretation ignore_nil: handler_filter IgnoreNilHandler has_object
  by unfold_locales (auto simp: IgnoreNilHandler_def has_object_def)

interpretation ignore_remove: handler_filter IgnoreRemoveHandler is_live
  by unfold_locales (auto simp: IgnoreRemoveHandler_def is_live_def split: option.splits)

interpretation name_filter: handler_filter "NameNamespaceFilter name namespace" "in_scope name namespace"
  for name namespace
  by unfold_locales (auto simp: NameNamespaceFilter_def in_scope_def)

interpretation selector_filter: handler_filter "SelectorFilter sel" "selected sel" for sel
  by unfold_locales (auto simp: SelectorFilter_def selected_def split: option.splits)

interpretation field_filter: handler_filter "FieldSelectorFilter sel" "field_selected sel" for sel
  by unfold_locales (auto simp: FieldSelectorFilter_def field_selected_def split: option.splits)

interpretation selectors: filter_pair "SelectorFilter sel" "selected sel"
    "FieldSelectorFilter fsel" "field_selected fsel" for sel fsel
  by unfold_locales

end
