(* ===== verification/ObjectSet.thy ===== *)
theory ObjectSet
  imports Kube
begin

text \<open>
  The set of desired objects an apply works on (pkg/apply/objectset/objectset.go): objects
  indexed by kind and key, a second index by group and kind only, and the order in which the
  kinds were first added.

  \<open>os_ok\<close> is the invariant between the two indices, the order and the set of seen kinds;
  \<open>os_view\<close> is the abstract value, a map from kind and key to the object added last.
\<close>

record objkey =
  ok_name :: gostring
  ok_namespace :: gostring

definition ObjectKey_String :: "objkey \<Rightarrow> gostring" where
  "ObjectKey_String k =
     (if ok_namespace k = [] then ok_name k else ok_namespace k @ ''/'' @ ok_name k)"

type_synonym ObjectByKey = "(objkey, kobject) gomap"
type_synonym ObjectByGVK = "(gvk, ObjectByKey) gomap"
type_synonym ObjectByGK = "(gk, ObjectByKey) gomap"

definition object_key :: "kobject \<Rightarrow> objkey" where
  "object_key obj = \<lparr>ok_name = k_name obj, ok_namespace = k_namespace obj\<rparr>"

definition ObjectByGVK_Add :: "ObjectByGVK \<Rightarrow> gvk \<Rightarrow> kobject \<Rightarrow> ObjectByGVK" where
  "ObjectByGVK_Add o' g obj =
     (let objs = (case map_of o' g of None \<Rightarrow> [] | Some m \<Rightarrow> m)
      in AList.update g (AList.update (object_key obj) obj objs) o')"

definition ObjectByGK_Add :: "ObjectByGK \<Rightarrow> gvk \<Rightarrow> kobject \<Rightarrow> ObjectByGK" where
  "ObjectByGK_Add o' g obj =
     (let g' = GroupKind g;
          objs = (case map_of o' g' of None \<Rightarrow> [] | Some m \<Rightarrow> m)
      in AList.update g' (AList.update (object_key obj) obj objs) o')"

record objectset =
  os_objects :: ObjectByGVK
  os_objectsByGK :: ObjectByGK
  os_order :: "kobject list"
  os_gvkOrder :: "gvk list"
  os_gvkSeen :: "(gvk, bool) gomap"

section \<open>Operations\<close>

text \<open>\<open>add\<close>: a nil object is skipped; an object whose kind is unknown is an error.\<close>

definition os_add :: "kscheme \<Rightarrow> objectset \<Rightarrow> kobject option \<Rightarrow> objectset \<times> err option" where
  "os_add sch o' x =
     (case x of None \<Rightarrow> (o', None)
      | Some obj \<Rightarrow>
        (case gvk_for sch obj of
           Inl e \<Rightarrow> (o', Some e)
         | Inr g \<Rightarrow>
           (let o1 = o'\<lparr>os_objects := ObjectByGVK_Add (os_objects o') g obj,
                         os_objectsByGK := ObjectByGK_Add (os_objectsByGK o') g obj,
                         os_order := os_order o' @ [obj]\<rparr>
            in if \<not> gm_bool (os_gvkSeen o1) g
               then (o1\<lparr>os_gvkSeen := AList.update g True (os_gvkSeen o1),
                        os_gvkOrder := os_gvkOrder o1 @ [g]\<rparr>, None)
               else (o1, None))))"

fun os_Add :: "kscheme \<Rightarrow> objectset \<Rightarrow> kobject option list \<Rightarrow> objectset \<times> err option" where
  "os_Add sch o' [] = (o', None)"
| "os_Add sch o' (x # xs) =
     (case os_add sch o' x of
        (o1, Some e) \<Rightarrow> (o1, Some e)
      | (o1, None) \<Rightarrow> os_Add sch o1 xs)"

definition empty_objectset :: objectset where
  "empty_objectset =
     \<lparr>os_objects = [], os_objectsByGK = [], os_order = [], os_gvkOrder = [], os_gvkSeen = []\<rparr>"

definition NewObjectSet :: "kscheme \<Rightarrow> kobject option list \<Rightarrow> objectset \<times> err option" where
  "NewObjectSet sch objs = os_Add sch empty_objectset objs"

definition os_Contains :: "objectset \<Rightarrow> gk \<Rightarrow> objkey \<Rightarrow> bool" where
  "os_Contains o' g k =
     (case map_of (os_objectsByGK o') g of None \<Rightarrow> False | Some m \<Rightarrow> map_of m k \<noteq> None)"

definition ObjectsByGVK :: "objectset option \<Rightarrow> ObjectByGVK" where
  "ObjectsByGVK x = (case x of None \<Rightarrow> [] | Some o' \<Rightarrow> os_objects o')"

definition os_All :: "objectset \<Rightarrow> kobject list" where
  "os_All o' = os_order o'"

definition os_Len :: "objectset \<Rightarrow> nat" where
  "os_Len o' = length (os_objects o')"

text \<open>\<open>GVKOrder(known...)\<close>: the kinds in the order they were added, then the known others sorted.\<close>

definition GVKOrder :: "kscheme \<Rightarrow> objectset \<Rightarrow> gvk list \<Rightarrow> gvk list" where
  "GVKOrder sch o' known =
     os_gvkOrder o' @
       sort_key (gvk_String sch) (filter (\<lambda>g. \<not> gm_bool (os_gvkSeen o') g) known)"

definition GVKs :: "kscheme \<Rightarrow> objectset \<Rightarrow> gvk list" where
  "GVKs sch o' = GVKOrder sch o' []"

definition ObjectByKey_Namespaces :: "ObjectByKey \<Rightarrow> gostring list" where
  "ObjectByKey_Namespaces m = sort (remdups (map (\<lambda>k. ok_namespace k) (gm_keys m)))"

definition os_Namespaces :: "objectset \<Rightarrow> gostring list" where
  "os_Namespaces o' =
     sort (remdups (concat
       (map (\<lambda>(g, m). map (\<lambda>k. ok_namespace k) (gm_keys m)) (ObjectsByGVK (Some o')))))"

section \<open>The abstract value\<close>

definition os_view :: "objectset \<Rightarrow> gvk \<times> objkey \<Rightarrow> kobject option" where
  "os_view o' = nm_get (os_objects o')"

lemma ObjectByGVK_Add_put: "ObjectByGVK_Add o' g obj = nm_put (g, object_key obj) obj o'"
  by (simp add: ObjectByGVK_Add_def nm_put_def gm_list_def)

lemma ObjectByGK_Add_put: "ObjectByGK_Add o' g obj = nm_put (GroupKind g, object_key obj) obj o'"
  by (simp add: ObjectByGK_Add_def nm_put_def gm_list_def Let_def)

lemmas os_add_put = ObjectByGVK_Add_put ObjectByGK_Add_put

lemma os_Contains_get: "os_Contains o' g k \<longleftrightarrow> nm_get (os_objectsByGK o') (g, k) \<noteq> None"
  by (simp add: os_Contains_def nm_get_def split: option.splits)

text \<open>The invariant.\<close>

definition os_ok :: "objectset \<Rightarrow> bool" where
  "os_ok o' \<longleftrightarrow>
     nm_ok (os_objects o') \<and> nm_ok (os_objectsByGK o') \<and> distinct (os_gvkOrder o') \<and>
     (\<forall>g. gm_bool (os_gvkSeen o') g \<longleftrightarrow> g \<in> set (os_gvkOrder o')) \<and>
     set (gm_keys (os_objects o')) = set (os_gvkOrder o') \<and>
     (\<forall>g k. os_Contains o' g k \<longleftrightarrow> (\<exists>g'. GroupKind g' = g \<and> os_view o' (g', k) \<noteq> None)) \<and>
     (\<forall>g k obj. os_view o' (g, k) = Some obj \<longrightarrow> object_key obj = k)"

lemma os_ok_empty: "os_ok empty_objectset"
  by (simp add: os_ok_def empty_objectset_def os_Contains_get os_view_def nm_get_def gm_bool_def)

lemma keys_nm_put [simp]: "set (gm_keys (nm_put p v m)) = insert (fst p) (set (gm_keys m))"
  by (cases p) (simp add: nm_put_def del: set_map)

lemma os_add_view:
  assumes "os_add sch o' x = (o1, None)"
  shows "os_view o1 = (case x of None \<Rightarrow> os_view o'
           | Some obj \<Rightarrow> (case gvk_for sch obj of Inl e \<Rightarrow> os_view o'
               | Inr g \<Rightarrow> (os_view o')((g, object_key obj) \<mapsto> obj)))"
  using assms
  by (auto simp: os_add_def os_view_def os_add_put nested.get_put Let_def fun_eq_iff
      split: option.splits sum.splits if_splits)

lemma os_add_ok:
  assumes ok: "os_ok o'" and add: "os_add sch o' x = (o1, e)"
  shows "os_ok o1"
proof (cases "x = None \<or> (\<exists>obj e. x = Some obj \<and> gvk_for sch obj = Inl e)")
  case True
  with add ok show ?thesis by (auto simp: os_add_def)
next
  case False
  then obtain obj g where x: "x = Some obj" "gvk_for sch obj = Inr g"
    by (cases x) (auto, metis sumE)
  let ?k = "object_key obj"
  have o1: "os_objects o1 = nm_put (g, ?k) obj (os_objects o')"
    "os_objectsByGK o1 = nm_put (GroupKind g, ?k) obj (os_objectsByGK o')"
    "os_gvkOrder o1 = os_gvkOrder o' @ (if gm_bool (os_gvkSeen o') g then [] else [g])"
    "os_gvkSeen o1 = (if gm_bool (os_gvkSeen o') g then os_gvkSeen o'
        else AList.update g True (os_gvkSeen o'))"
    using add x by (auto simp: os_add_def os_add_put Let_def split: if_splits)
  have view: "os_view o1 (g', k) = (if (g', k) = (g, ?k) then Some obj else os_view o' (g', k))"
    for g' k by (simp add: os_view_def o1 nested.get_put)
  have cont: "os_Contains o1 g' k \<longleftrightarrow> (g', k) = (GroupKind g, ?k) \<or> os_Contains o' g' k"
    for g' k by (auto simp: os_Contains_get o1 nested.get_put)
  show ?thesis
    unfolding os_ok_def
  proof (intro conjI allI impI)
    show "os_Contains o1 g' k \<longleftrightarrow> (\<exists>h. GroupKind h = g' \<and> os_view o1 (h, k) \<noteq> None)" for g' k
      using ok by (auto simp: cont view os_ok_def split: if_splits)
    show "object_key ob = k" if "os_view o1 (g', k) = Some ob" for g' k ob
      using ok that by (auto simp: view os_ok_def split: if_splits)
  qed (use ok in \<open>auto simp: os_ok_def o1 nested.ok_put simp del: set_map\<close>)
qed

lemma os_Add_ok: "os_ok o' \<Longrightarrow> os_Add sch o' xs = (o1, e) \<Longrightarrow> os_ok o1"
proof (induction xs arbitrary: o')
  case (Cons x xs)
  then show ?case
    by (fastforce split: prod.splits option.splits dest: os_add_ok)
qed simp

text \<open>
  What a list of added objects means: for each kind and key the last object given. The nil
  entries count for nothing.
\<close>

definition added_pairs :: "kscheme \<Rightarrow> kobject option list \<Rightarrow> ((gvk \<times> objkey) \<times> kobject) list" where
  "added_pairs sch xs =
     concat (map (\<lambda>x. case x of None \<Rightarrow> []
        | Some obj \<Rightarrow> (case gvk_for sch obj of Inl e \<Rightarrow> [] | Inr g \<Rightarrow> [((g, object_key obj), obj)])) xs)"

lemma os_Add_view:
  "os_Add sch o' xs = (o1, None) \<Longrightarrow>
     os_view o1 = os_view o' ++ map_of (rev (added_pairs sch xs))"
proof (induction xs arbitrary: o')
  case Nil
  then show ?case by (simp add: added_pairs_def)
next
  case (Cons x xs)
  then obtain o2 where o2: "os_add sch o' x = (o2, None)" "os_Add sch o2 xs = (o1, None)"
    by (auto split: prod.splits option.splits)
  from Cons.IH [OF o2(2)] os_add_view [OF o2(1)] show ?case
    by (auto simp: added_pairs_def split: option.splits sum.splits)
qed

lemma os_Add_error:
  "os_Add sch o' xs = (o1, Some e) \<Longrightarrow>
     \<exists>obj. Some obj \<in> set xs \<and> gvk_for sch obj = Inl e"
proof (induction xs arbitrary: o')
  case (Cons x xs)
  then show ?case
    by (fastforce simp: os_add_def Let_def split: prod.splits option.splits sum.splits if_splits)
qed simp

lemma os_Add_total:
  "(\<forall>obj. Some obj \<in> set xs \<longrightarrow> (\<exists>g. gvk_for sch obj = Inr g)) \<Longrightarrow> snd (os_Add sch o' xs) = None"
proof (induction xs arbitrary: o')
  case (Cons x xs)
  have "snd (os_add sch o' x) = None"
    using Cons.prems by (fastforce simp: os_add_def Let_def split: option.splits sum.splits)
  with Cons show ?case by (auto split: prod.splits option.splits)
qed simp

section \<open>Order of the kinds\<close>

lemma set_GVKOrder:
  "os_ok o' \<Longrightarrow> set (GVKOrder sch o' known) = set (os_gvkOrder o') \<union> set known"
  by (auto simp: GVKOrder_def os_ok_def)

lemma distinct_GVKOrder:
  "os_ok o' \<Longrightarrow> distinct known \<Longrightarrow> distinct (GVKOrder sch o' known)"
  by (auto simp: GVKOrder_def os_ok_def)

text \<open>The kinds in first-added order.\<close>

definition first_seen :: "kscheme \<Rightarrow> kobject option list \<Rightarrow> gvk list" where
  "first_seen sch xs = fold (\<lambda>p gs. if fst (fst p) \<in> set gs then gs else gs @ [fst (fst p)])
     (added_pairs sch xs) []"

lemma os_Add_gvkOrder_gen:
  "os_ok o' \<Longrightarrow> os_Add sch o' xs = (o1, None) \<Longrightarrow>
     os_gvkOrder o1 =
       fold (\<lambda>p gs. if fst (fst p) \<in> set gs then gs else gs @ [fst (fst p)])
         (added_pairs sch xs) (os_gvkOrder o')"
proof (induction xs arbitrary: o')
  case Nil
  then show ?case by (simp add: added_pairs_def)
next
  case (Cons x xs)
  then obtain o2 where o2: "os_add sch o' x = (o2, None)" "os_Add sch o2 xs = (o1, None)"
    by (auto split: prod.splits option.splits)
  have ok2: "os_ok o2" using Cons.prems(1) o2(1) by (rule os_add_ok)
  have ord: "os_gvkOrder o2 = fold (\<lambda>p gs. if fst (fst p) \<in> set gs then gs else gs @ [fst (fst p)])
         (added_pairs sch [x]) (os_gvkOrder o')"
    using o2(1) Cons.prems(1)
    by (auto simp: os_add_def added_pairs_def Let_def os_ok_def
        split: option.splits sum.splits if_splits)
  have "added_pairs sch (x # xs) = added_pairs sch [x] @ added_pairs sch xs"
    by (simp add: added_pairs_def)
  with Cons.IH [OF ok2 o2(2)] ord show ?case by simp
qed

lemma NewObjectSet_ok: "NewObjectSet sch xs = (o1, e) \<Longrightarrow> os_ok o1"
  unfolding NewObjectSet_def by (rule os_Add_ok [OF os_ok_empty])

lemma NewObjectSet_view:
  "NewObjectSet sch xs = (o1, None) \<Longrightarrow> os_view o1 = map_of (rev (added_pairs sch xs))"
  unfolding NewObjectSet_def
  by (drule os_Add_view) (simp add: os_view_def empty_objectset_def nm_get_def map_add_def
      fun_eq_iff split: option.splits)

lemma NewObjectSet_gvkOrder:
  "NewObjectSet sch xs = (o1, None) \<Longrightarrow> os_gvkOrder o1 = first_seen sch xs"
  unfolding NewObjectSet_def first_seen_def
  by (drule os_Add_gvkOrder_gen [OF os_ok_empty]) (simp add: empty_objectset_def)

text \<open>Every object is filed under the kind the scheme gives it.\<close>

definition os_typed :: "kscheme \<Rightarrow> objectset \<Rightarrow> bool" where
  "os_typed sch o' \<longleftrightarrow> (\<forall>g k obj. os_view o' (g, k) = Some obj \<longrightarrow> gvk_for sch obj = Inr g)"

lemma NewObjectSet_typed:
  assumes "NewObjectSet sch xs = (o1, None)"
  shows "os_typed sch o1"
proof -
  have "gvk_for sch obj = Inr g" if "((g, k), obj) \<in> set (added_pairs sch xs)" for g k obj
    using that by (auto simp: added_pairs_def split: option.splits sum.splits)
  then show ?thesis
    by (auto simp: os_typed_def NewObjectSet_view [OF assms] dest!: map_of_SomeD)
qed

end
