(* ===== verification/JsonValues.thy ===== *)
theory JsonValues
  imports Kube "HOL-Library.Sublist"
begin

text \<open>
  The JSON part of the apply engine (pkg/apply/desiredset_compare.go): shrinking an object to
  what is kept in the "applied" annotation (\<open>pruneValues\<close>, \<open>pruneList\<close>) and cleaning a patch
  before it is sent (\<open>sanitizePatch\<close> with \<open>removeMetadataFields\<close>, \<open>mapField\<close>, \<open>emptyMaps\<close>);
  and the number translation and merge of pkg/data/generic.go.

  A byte slice that holds JSON is a \<^typ>\<open>gostring\<close>. \<open>encoding/json\<close>, gzip, base64 and the
  digests are the fields of \<open>codec\<close>. The reference notion for \<open>emptyMaps\<close> is \<open>leaf_paths\<close>, the
  paths of a document that lead to something other than a non-empty object.
\<close>

record codec =
  marshal_map :: "jmap \<Rightarrow> gostring"
  unmarshal_map :: "gostring \<Rightarrow> err + jmap"
  gzip_bytes :: "gostring \<Rightarrow> gostring option"
  gunzip_bytes :: "gostring \<Rightarrow> gostring option"
  b64_encode :: "gostring \<Rightarrow> gostring"
  b64_decode :: "gostring \<Rightarrow> gostring option"
  sha256_hex :: "gostring \<Rightarrow> gostring"
  sha1_hex :: "gostring \<Rightarrow> gostring"

fun wf_json :: "json \<Rightarrow> bool" where
  "wf_json (JArray vs) = (\<forall>v \<in> set vs. wf_json v)"
| "wf_json (JObject m) = (gm_ok m \<and> (\<forall>p \<in> set m. wf_json (snd p)))"
| "wf_json _ = True"

section \<open>Constants\<close>

abbreviation LabelPrefix :: gostring where "LabelPrefix \<equiv> ''apply.acorn.io/''"
abbreviation LabelApplied :: gostring where "LabelApplied \<equiv> ''apply.acorn.io/applied''"

definition knownListKeys :: "gostring list" where
  "knownListKeys =
     [''apiVersion'', ''containerPort'', ''devicePath'', ''ip'', ''kind'', ''mountPath'',
      ''name'', ''port'', ''topologyKey'', ''type'']"

section \<open>Pruning\<close>

definition prune_scalar :: "codec \<Rightarrow> bool \<Rightarrow> gostring \<Rightarrow> json \<Rightarrow> json" where
  "prune_scalar c isList k v =
     (if isList \<and> k \<in> set knownListKeys then v
      else (case v of
              JString x \<Rightarrow>
                if length x > 64 then JString (take 64 x @ take 8 (sha256_hex c x)) else v
            | JBytes b \<Rightarrow> JNull
            | _ \<Rightarrow> v))"

fun pruneList :: "codec \<Rightarrow> json list \<Rightarrow> json list"
  and pruneValues :: "codec \<Rightarrow> jmap \<Rightarrow> bool \<Rightarrow> jmap" where
  "pruneList c [] = []"
| "pruneList c (v # vs) =
     (case v of
        JObject m \<Rightarrow> JObject (pruneValues c m True)
      | JArray l \<Rightarrow> JArray (pruneList c l)
      | _ \<Rightarrow> v) # pruneList c vs"
| "pruneValues c [] isList = []"
| "pruneValues c ((k, v) # m) isList =
     (k, case v of
           JObject m' \<Rightarrow> JObject (pruneValues c m' False)
         | JArray l \<Rightarrow> JArray (pruneList c l)
         | _ \<Rightarrow> prune_scalar c isList k v) # pruneValues c m isList"

section \<open>Patches\<close>

fun emptyMaps_loop :: "jmap \<Rightarrow> gostring list \<Rightarrow> bool" where
  "emptyMaps_loop data [] = True"
| "emptyMaps_loop data (key # keys) =
     (if length data = 0 then True
      else if length data > 1 then False
      else (case map_of data key of
              None \<Rightarrow> False
            | Some value \<Rightarrow> emptyMaps_loop (json_as_map value) keys))"

definition emptyMaps :: "jmap \<Rightarrow> gostring list \<Rightarrow> bool" where
  "emptyMaps data keys = emptyMaps_loop data (keys @ [''__invalid_key__''])"

text \<open>
  \<open>nested\<close> stands for \<open>unstructured.NestedFieldNoCopy\<close>: the value found under a path, if any.
\<close>

definition mapField :: "(jmap \<Rightarrow> gostring list \<Rightarrow> json option) \<Rightarrow> jmap \<Rightarrow> gostring list \<Rightarrow> jmap" where
  "mapField nested data path =
     (case nested data path of None \<Rightarrow> [] | Some v \<Rightarrow> json_as_map v)"

text \<open>\<open>if _, ok := data[key]; ok { mod = true; delete(data, key) }\<close>\<close>

definition drop_key :: "gostring \<Rightarrow> jmap \<times> bool \<Rightarrow> jmap \<times> bool" where
  "drop_key key = (\<lambda>(data, m).
     if map_of data key \<noteq> None then (AList.delete key data, True) else (data, m))"

definition removeMetadataFields :: "jmap \<Rightarrow> jmap \<times> bool" where
  "removeMetadataFields data =
     (case map_of data ''metadata'' of
        None \<Rightarrow> (data, False)
      | Some metadata \<Rightarrow>
        (let (md, m) = fold drop_key
               [''creationTimestamp'', ''generation'', ''resourceVersion'', ''uid'', ''managedFields'']
               (json_as_map metadata, False)
         in (if m then AList.update ''metadata'' (JObject md) data else data, m)))"

text \<open>
  The branch of \<open>sanitizePatch\<close> for \<open>removeObjectSetAnnotation\<close>. The maps \<open>mapField\<close> returns
  alias \<open>data\<close>, so what is deleted from them is written back into it.
\<close>

definition strip_set_annotations ::
  "(jmap \<Rightarrow> gostring list \<Rightarrow> json option) \<Rightarrow> jmap \<times> bool \<Rightarrow> jmap \<times> bool" where
  "strip_set_annotations nested = (\<lambda>(data, m).
     (let metadata = mapField nested data [''metadata''];
          annotations = mapField nested data [''metadata'', ''annotations''];
          hit = (\<exists>k \<in> set (gm_keys annotations). has_prefix k LabelPrefix);
          annotations' = filter (\<lambda>(k, v). \<not> has_prefix k LabelPrefix) annotations;
          m' = (m \<or> hit);
          metadata' = (if hit then AList.update ''annotations'' (JObject annotations') metadata else metadata);
          data' = (if hit then AList.update ''metadata'' (JObject metadata') data else data)
      in if m' \<and> annotations' = []
         then (let metadata'' = AList.delete ''annotations'' metadata';
                   data'' = (if nested data [''metadata''] = Some (JObject metadata)
                             then AList.update ''metadata'' (JObject metadata'') data' else data')
               in (if metadata'' = [] then AList.delete ''metadata'' data'' else data'', m'))
         else (data', m')))"

definition sanitizePatch ::
  "codec \<Rightarrow> (jmap \<Rightarrow> gostring list \<Rightarrow> json option) \<Rightarrow> gostring \<Rightarrow> bool \<Rightarrow> err + gostring" where
  "sanitizePatch c nested patch removeObjectSetAnnotation =
     (case unmarshal_map c patch of
        Inl e \<Rightarrow> Inl e
      | Inr data0 \<Rightarrow>
        (let (data1, mod1) = drop_key ''status'' (drop_key ''apiVersion'' (drop_key ''kind'' (data0, False)));
             (data2, deleted) = removeMetadataFields data1;
             mod2 = (if deleted then True else mod1);
             (data3, mod3) = (if removeObjectSetAnnotation
                              then strip_set_annotations nested (data2, mod2) else (data2, mod2))
         in if emptyMaps data3 [''metadata'', ''annotations''] then Inr ''{}''
            else if emptyMaps data3 [''metadata'', ''annotations'', ''apply.acorn.io/applied''] then Inr ''{}''
            else if \<not> mod3 then Inr patch
            else Inr (marshal_map c data3)))"

section \<open>The applied annotation\<close>

definition appliedFromAnnotation :: "codec \<Rightarrow> gostring \<Rightarrow> gostring" where
  "appliedFromAnnotation c str =
     (if length str = 0 \<or> str ! 0 = CHR ''{'' then str
      else (case b64_decode c str of
              None \<Rightarrow> []
            | Some b \<Rightarrow> (case gunzip_bytes c b of None \<Rightarrow> [] | Some r \<Rightarrow> r)))"

definition appliedToAnnotation :: "codec \<Rightarrow> gostring \<Rightarrow> gostring" where
  "appliedToAnnotation c b = (case gzip_bytes c b of None \<Rightarrow> b | Some z \<Rightarrow> b64_encode c z)"

section \<open>Numbers and merging (pkg/data/generic.go)\<close>

text \<open>
  \<open>int64_of\<close> and \<open>float64_of\<close> are the conversions of \<open>json.Number\<close>. An error leaves the walk
  at once.
\<close>

fun translateObject :: "(gostring \<Rightarrow> int option) \<Rightarrow> (gostring \<Rightarrow> err + gostring) \<Rightarrow> json \<Rightarrow> err + json"
  and translate_fields :: "(gostring \<Rightarrow> int option) \<Rightarrow> (gostring \<Rightarrow> err + gostring) \<Rightarrow> jmap \<Rightarrow> err + jmap"
  and translate_elems :: "(gostring \<Rightarrow> int option) \<Rightarrow> (gostring \<Rightarrow> err + gostring) \<Rightarrow> json list \<Rightarrow> err + json list"
where
  "translateObject i64 f64 (JObject t) =
     (case translate_fields i64 f64 t of Inl e \<Rightarrow> Inl e | Inr t' \<Rightarrow> Inr (JObject t'))"
| "translateObject i64 f64 (JArray t) =
     (case translate_elems i64 f64 t of Inl e \<Rightarrow> Inl e | Inr t' \<Rightarrow> Inr (JArray t'))"
| "translateObject i64 f64 (JNumber t) =
     (case i64 t of
        Some i \<Rightarrow> Inr (JInt i)
      | None \<Rightarrow> (case f64 t of Inl e \<Rightarrow> Inl e | Inr f \<Rightarrow> Inr (JFloat f)))"
| "translateObject i64 f64 v = Inr v"
| "translate_fields i64 f64 [] = Inr []"
| "translate_fields i64 f64 ((k, v) # t) =
     (case translateObject i64 f64 v of
        Inl e \<Rightarrow> Inl e
      | Inr v' \<Rightarrow> (case translate_fields i64 f64 t of Inl e \<Rightarrow> Inl e | Inr t' \<Rightarrow> Inr ((k, v') # t')))"
| "translate_elems i64 f64 [] = Inr []"
| "translate_elems i64 f64 (v # t) =
     (case translateObject i64 f64 v of
        Inl e \<Rightarrow> Inl e
      | Inr v' \<Rightarrow> (case translate_elems i64 f64 t of Inl e \<Rightarrow> Inl e | Inr t' \<Rightarrow> Inr (v' # t')))"

section \<open>Paths\<close>

fun leaf_paths :: "json \<Rightarrow> gostring list list"
  and map_leaf_paths :: "jmap \<Rightarrow> gostring list list" where
  "leaf_paths (JObject m) = (if m = [] then [[]] else map_leaf_paths m)"
| "leaf_paths v = [[]]"
| "map_leaf_paths [] = []"
| "map_leaf_paths ((k, v) # m) = map ((#) k) (leaf_paths v) @ map_leaf_paths m"

fun all_keys :: "json \<Rightarrow> gostring set"
  and map_all_keys :: "jmap \<Rightarrow> gostring set" where
  "all_keys (JObject m) = map_all_keys m"
| "all_keys v = {}"
| "map_all_keys [] = {}"
| "map_all_keys ((k, v) # m) = insert k (all_keys v \<union> map_all_keys m)"

lemma leaf_paths_nonempty: "leaf_paths v \<noteq> []"
  and map_leaf_paths_nonempty: "m \<noteq> [] \<Longrightarrow> map_leaf_paths m \<noteq> []"
  by (induction v and m rule: leaf_paths_map_leaf_paths.induct) auto

lemma path_keys:
  "p \<in> set (leaf_paths v) \<Longrightarrow> set p \<subseteq> all_keys v"
  "p \<in> set (map_leaf_paths m) \<Longrightarrow> set p \<subseteq> map_all_keys m"
  by (induction v and m arbitrary: p and p rule: leaf_paths_map_leaf_paths.induct)
    (fastforce split: if_splits)+

lemma set_map_leaf_paths:
  "set (map_leaf_paths m) = (\<Union>(k, v) \<in> set m. (#) k ` set (leaf_paths v))"
proof (induction m)
  case (Cons p m)
  then show ?case by (cases p) simp
qed simp

lemma map_all_keys_eq: "map_all_keys m = (\<Union>(k, v) \<in> set m. insert k (all_keys v))"
  by (induction m) auto

definition compatible :: "gostring list \<Rightarrow> gostring list \<Rightarrow> bool" where
  "compatible p keys \<longleftrightarrow> prefix p keys \<or> prefix keys p"

lemma compatible_simps [simp]:
  "compatible [] keys" "compatible p []"
  "compatible (x # p) (k # keys) \<longleftrightarrow> x = k \<and> compatible p keys"
  by (auto simp: compatible_def)

lemma leaf_paths_as_map:
  "json_as_map v \<noteq> [] \<Longrightarrow> leaf_paths v = map_leaf_paths (json_as_map v)"
  "json_as_map v = [] \<Longrightarrow> leaf_paths v = [[]]"
  by (cases v; simp)+

lemma wf_json_as_map: "wf_json v \<Longrightarrow> wf_json (JObject (json_as_map v))"
  by (cases v) auto

lemma emptyMaps_loop_paths:
  "wf_json (JObject data) \<Longrightarrow>
     emptyMaps_loop data keys \<longleftrightarrow> (\<forall>p \<in> set (map_leaf_paths data). compatible p keys)"
proof (induction keys arbitrary: data)
  case (Cons key keys)
  consider "data = []" | k v where "data = [(k, v)]"
    | k v k' v' rest where "data = (k, v) # (k', v') # rest"
    by (metis neq_Nil_conv surj_pair)
  then show ?case
  proof cases
    case (2 k v)
    with Cons.prems have wf: "wf_json (JObject (json_as_map v))"
      using wf_json_as_map [of v] by simp
    obtain q where q: "q \<in> set (leaf_paths v)"
      using leaf_paths_nonempty [of v] by (meson last_in_set)
    show ?thesis
      using 2 q Cons.IH [OF wf] leaf_paths_as_map [of v]
      by (cases "json_as_map v = []"; cases keys) (auto simp: set_map_leaf_paths)
  next
    case (3 k v k' v' rest)
    with Cons.prems have "k \<noteq> k'" by (simp add: gm_ok_Cons)
    moreover obtain q q' where "q \<in> set (leaf_paths v)" "q' \<in> set (leaf_paths v')"
      using leaf_paths_nonempty by (meson last_in_set)
    ultimately have "\<exists>p \<in> set (map_leaf_paths data). \<not> compatible p (key # keys)"
      using 3 by (cases "k = key") (force, force)
    with 3 show ?thesis by auto
  qed simp
qed simp

lemma compatible_snoc: "x \<notin> set p \<Longrightarrow> compatible p (keys @ [x]) \<longleftrightarrow> prefix p keys"
  unfolding compatible_def prefix_snoc by (auto dest: set_mono_prefix)

lemma emptyMaps_paths:
  assumes "wf_json (JObject data)" and "''__invalid_key__'' \<notin> map_all_keys data"
  shows "emptyMaps data keys \<longleftrightarrow> (\<forall>p \<in> set (map_leaf_paths data). prefix p keys)"
  unfolding emptyMaps_def emptyMaps_loop_paths [OF assms(1)]
  using compatible_snoc path_keys(2) assms(2) by blast

section \<open>What pruning keeps\<close>

lemma pruneValues_keys [simp]: "gm_keys (pruneValues c m isList) = gm_keys m"
  by (induction m) auto

lemma pruneList_length [simp]: "length (pruneList c vs) = length vs"
  by (induction vs) auto

lemma prune_wf:
  "wf_json (JArray vs) \<Longrightarrow> wf_json (JArray (pruneList c vs))"
  "wf_json (JObject m) \<Longrightarrow> wf_json (JObject (pruneValues c m isList))"
proof (induction c vs and c m isList rule: pruneList_pruneValues.induct)
  case (2 c v vs)
  then have "wf_json (JArray (pruneList c vs))" by simp
  with "2.prems" "2.IH" show ?case by (cases v) (simp_all del: wf_json.simps(2))
next
  case (4 c k v m isList)
  then have "wf_json (JObject (pruneValues c m isList))" by (simp add: gm_ok_Cons)
  with "4.prems" "4.IH" show ?case
    by (cases v) (simp_all add: gm_ok_def prune_scalar_def del: set_map)
qed simp_all

text \<open>
  \<open>within n\<close>: every string a map holds is at most \<open>n\<close> bytes long, but for the strings that
  identify an element of a list; there are no byte slices.
\<close>

fun list_within :: "nat \<Rightarrow> json list \<Rightarrow> bool"
  and map_within :: "nat \<Rightarrow> jmap \<Rightarrow> bool \<Rightarrow> bool" where
  "list_within n [] \<longleftrightarrow> True"
| "list_within n (v # vs) \<longleftrightarrow>
     (case v of JObject m \<Rightarrow> map_within n m True | JArray l \<Rightarrow> list_within n l | _ \<Rightarrow> True) \<and>
     list_within n vs"
| "map_within n [] isList \<longleftrightarrow> True"
| "map_within n ((k, v) # m) isList \<longleftrightarrow>
     (case v of JObject m' \<Rightarrow> map_within n m' False
      | JArray l \<Rightarrow> list_within n l
      | JString s \<Rightarrow> isList \<and> k \<in> set knownListKeys \<or> length s \<le> n
      | JBytes b \<Rightarrow> isList \<and> k \<in> set knownListKeys
      | _ \<Rightarrow> True) \<and> map_within n m isList"

lemma prune_within:
  "list_within 72 (pruneList c vs)"
  "map_within 72 (pruneValues c m isList) isList"
proof (induction c vs and c m isList rule: pruneList_pruneValues.induct)
  case (2 c v vs)
  then show ?case by (cases v) auto
next
  case (4 c k v m isList)
  then show ?case by (cases v) (auto simp: prune_scalar_def)
qed auto

lemma prune_within_id:
  "list_within 64 vs \<Longrightarrow> pruneList c vs = vs"
  "map_within 64 m isList \<Longrightarrow> pruneValues c m isList = m"
proof (induction c vs and c m isList rule: pruneList_pruneValues.induct)
  case (2 c v vs)
  then show ?case by (cases v) auto
next
  case (4 c k v m isList)
  then show ?case by (cases v) (auto simp: prune_scalar_def)
qed auto

section \<open>What sanitizing keeps\<close>

lemma drop_key_eq: "drop_key k (m, b) = (AList.delete k m, b \<or> map_of m k \<noteq> None)"
  by (auto simp: drop_key_def delete_idem map_of_eq_None_iff)

lemma fold_drop_key:
  "fold drop_key ks (m, b) =
     (fold AList.delete ks m, b \<or> (\<exists>k \<in> set ks. map_of m k \<noteq> None))"
proof (induction ks arbitrary: m b)
  case (Cons k ks)
  have "map_of m k \<noteq> None \<or> map_of (AList.delete k m) j \<noteq> None \<longleftrightarrow>
      map_of m k \<noteq> None \<or> map_of m j \<noteq> None" for j by simp
  then have "(\<exists>j \<in> set (k # ks). map_of m j \<noteq> None) \<longleftrightarrow>
      map_of m k \<noteq> None \<or> (\<exists>j \<in> set ks. map_of (AList.delete k m) j \<noteq> None)"
    unfolding list.set by blast
  then show ?case by (simp only: fold_simps drop_key_eq Cons disj_assoc)
qed simp

text \<open>The fields of the metadata that the server manages.\<close>

definition managed_fields :: "gostring list" where
  "managed_fields =
     [''creationTimestamp'', ''generation'', ''resourceVersion'', ''uid'', ''managedFields'']"

definition metadata_of :: "jmap \<Rightarrow> jmap" where
  "metadata_of data = (case map_of data ''metadata'' of None \<Rightarrow> [] | Some v \<Rightarrow> json_as_map v)"

lemma removeMetadataFields_eq:
  "removeMetadataFields data =
     (let md = metadata_of data; hit = (\<exists>k \<in> set managed_fields. map_of md k \<noteq> None)
      in (if hit then AList.update ''metadata'' (JObject (fold AList.delete managed_fields md)) data
          else data, hit))"
  unfolding removeMetadataFields_def managed_fields_def [symmetric] fold_drop_key metadata_of_def
  by (simp add: Let_def split: option.split)

lemma removeMetadataFields_other:
  "removeMetadataFields data = (data', m) \<Longrightarrow> k \<noteq> ''metadata'' \<Longrightarrow> map_of data' k = map_of data k"
  by (auto simp: removeMetadataFields_eq Let_def split: if_splits)

lemma removeMetadataFields_metadata:
  "removeMetadataFields data = (data', m) \<Longrightarrow>
     map_of (metadata_of data') k = (if k \<in> set managed_fields then None else map_of (metadata_of data) k)"
  by (auto simp: removeMetadataFields_eq Let_def metadata_of_def gomap.get_del_all split: if_splits)

lemma removeMetadataFields_unchanged:
  "removeMetadataFields data = (data', False) \<Longrightarrow> data' = data"
  by (auto simp: removeMetadataFields_eq Let_def split: if_splits)

lemma map_all_keys_delete: "map_all_keys (AList.delete k m) \<subseteq> map_all_keys m"
  by (induction m) auto

lemma map_all_keys_delete_all: "map_all_keys (fold AList.delete ks m) \<subseteq> map_all_keys m"
  using map_all_keys_delete by (induction ks arbitrary: m) fastforce+

lemma map_all_keys_update:
  "map_all_keys (AList.update k v m) \<subseteq> insert k (all_keys v \<union> map_all_keys m)"
  by (induction m) auto

lemma all_keys_member: "map_of m k = Some v \<Longrightarrow> k \<in> map_all_keys m \<and> all_keys v \<subseteq> map_all_keys m"
  by (induction m) (auto split: if_splits)

lemma metadata_of_keys: "map_all_keys (metadata_of data) \<subseteq> map_all_keys data"
proof -
  have "map_all_keys (json_as_map v) \<subseteq> all_keys v" for v by (cases v) auto
  then show ?thesis
    using all_keys_member [of data "''metadata''"]
    by (fastforce simp: metadata_of_def split: option.splits)
qed

lemma removeMetadataFields_keys:
  assumes "removeMetadataFields data = (data', m)"
  shows "map_all_keys data' \<subseteq> insert ''metadata'' (map_all_keys data)"
  using assms map_all_keys_update [of "''metadata''" _ data]
    map_all_keys_delete_all [of managed_fields "metadata_of data"] metadata_of_keys [of data]
  by (fastforce simp: removeMetadataFields_eq Let_def split: if_splits)

lemma wf_update: "wf_json (JObject m) \<Longrightarrow> wf_json v \<Longrightarrow> wf_json (JObject (AList.update k v m))"
  using set_update_subset [of k v m] by fastforce

lemma wf_delete: "wf_json (JObject m) \<Longrightarrow> wf_json (JObject (AList.delete k m))"
  by (auto simp: AList.delete_eq gm_ok_def distinct_map_filter)

lemma wf_delete_all: "wf_json (JObject m) \<Longrightarrow> wf_json (JObject (fold AList.delete ks m))"
proof (induction ks arbitrary: m)
  case (Cons k ks)
  from Cons.IH [OF wf_delete [OF Cons.prems]] show ?case by simp
qed simp

lemma wf_metadata_of:
  assumes "wf_json (JObject data)"
  shows "wf_json (JObject (metadata_of data))"
proof (cases "map_of data ''metadata''")
  case (Some v)
  then have "wf_json v" using assms by (force dest: map_of_SomeD)
  with Some show ?thesis using wf_json_as_map [of v] by (simp add: metadata_of_def)
qed (simp add: metadata_of_def)

lemma removeMetadataFields_wf:
  "wf_json (JObject data) \<Longrightarrow> removeMetadataFields data = (data', m) \<Longrightarrow> wf_json (JObject data')"
  using wf_update [of data "JObject (fold AList.delete managed_fields (metadata_of data))"]
    wf_delete_all [OF wf_metadata_of]
  by (auto simp: removeMetadataFields_eq Let_def simp del: wf_json.simps split: if_splits)

text \<open>
  The document a patch is reduced to: the three top-level keys are gone, no managed metadata
  is left and everything else is as it was.
\<close>

definition cleaned :: "jmap \<Rightarrow> jmap \<Rightarrow> bool" where
  "cleaned data data' \<longleftrightarrow>
     (\<forall>k. k \<noteq> ''metadata'' \<longrightarrow> map_of data' k =
        (if k \<in> {''kind'', ''apiVersion'', ''status''} then None else map_of data k)) \<and>
     (\<forall>k. map_of (metadata_of data') k =
        (if k \<in> set managed_fields then None else map_of (metadata_of data) k))"

definition only_applied :: "jmap \<Rightarrow> bool" where
  "only_applied data \<longleftrightarrow>
     (\<forall>p \<in> set (map_leaf_paths data). prefix p [''metadata'', ''annotations'', LabelApplied])"

lemma metadata_of_delete: "k \<noteq> ''metadata'' \<Longrightarrow> metadata_of (AList.delete k data) = metadata_of data"
  by (simp add: metadata_of_def)

lemma cleaned_self:
  assumes "cleaned data data"
  shows "k \<in> {''kind'', ''apiVersion'', ''status''} \<Longrightarrow> map_of data k = None"
    and "k \<in> set managed_fields \<Longrightarrow> map_of (metadata_of data) k = None"
proof -
  note c = assms [unfolded cleaned_def]
  show "map_of data k = None" if k: "k \<in> {''kind'', ''apiVersion'', ''status''}"
  proof -
    from k have "k \<noteq> ''metadata''" by auto
    from c [THEN conjunct1, rule_format, OF this] k show ?thesis by (simp only: if_True)
  qed
  show "map_of (metadata_of data) k = None" if k: "k \<in> set managed_fields"
    using c [THEN conjunct2, rule_format, of k] k by (simp only: if_True)
qed

lemma sanitizePatch_cleaned:
  assumes un: "unmarshal_map c patch = Inr data" and wf: "wf_json (JObject data)"
    and fresh: "''__invalid_key__'' \<notin> map_all_keys data"
  shows "\<exists>data'. cleaned data data' \<and>
     sanitizePatch c nested patch False =
       Inr (if only_applied data' then ''{}''
            else if data' = data then patch else marshal_map c data')"
proof -
  let ?ks = "[''kind'', ''apiVersion'', ''status'']"
  let ?m1 = "\<exists>k \<in> set ?ks. map_of data k \<noteq> None"
  define d1 where "d1 = fold AList.delete ?ks data"
  have dk: "drop_key ''status'' (drop_key ''apiVersion'' (drop_key ''kind'' (data, False))) = (d1, ?m1)"
    using fold_drop_key [of ?ks data False] by (simp add: d1_def)
  obtain d2 m2 where d2: "removeMetadataFields d1 = (d2, m2)" by fastforce
  have md1: "metadata_of d1 = metadata_of data" by (simp add: d1_def metadata_of_delete)
  have look1: "map_of d1 k = (if k \<in> set ?ks then None else map_of data k)" for k
    by (simp add: d1_def gomap.get_del_all)
  have cl: "cleaned data d2"
    unfolding cleaned_def removeMetadataFields_metadata [OF d2] md1
    using removeMetadataFields_other [OF d2] look1 by simp
  have wf2: "wf_json (JObject d2)"
    using removeMetadataFields_wf [OF _ d2] wf_delete_all [OF wf] unfolding d1_def by blast
  have fresh2: "''__invalid_key__'' \<notin> map_all_keys d2"
    using removeMetadataFields_keys [OF d2] map_all_keys_delete_all [of ?ks data] fresh
    unfolding d1_def by auto
  have two: "emptyMaps d2 [''metadata'', ''annotations''] \<or>
      emptyMaps d2 [''metadata'', ''annotations'', LabelApplied] \<longleftrightarrow> only_applied d2"
    unfolding only_applied_def emptyMaps_paths [OF wf2 fresh2]
    using prefix_prefix [of _ "[''metadata'', ''annotations'']" "[LabelApplied]"]
    by (simp only: append_Cons append_Nil) blast
  have same: "\<not> (if m2 then True else ?m1) \<longleftrightarrow> d2 = data"
  proof
    assume n: "\<not> (if m2 then True else ?m1)"
    then have "d1 = data"
      unfolding d1_def by (simp add: delete_idem map_of_eq_None_iff split: if_splits)
    with n d2 show "d2 = data" by (auto dest!: removeMetadataFields_unchanged split: if_splits)
  next
    assume "d2 = data"
    with cl have "cleaned data data" by simp
    note self = cleaned_self [OF this]
    from d2 md1 self(2) have "\<not> m2" by (auto simp: removeMetadataFields_eq Let_def)
    moreover have "\<not> ?m1" using self(1) by auto
    ultimately show "\<not> (if m2 then True else ?m1)" by simp
  qed
  have "sanitizePatch c nested patch False =
      (if emptyMaps d2 [''metadata'', ''annotations''] \<or>
          emptyMaps d2 [''metadata'', ''annotations'', LabelApplied] then Inr ''{}''
       else if \<not> (if m2 then True else ?m1) then Inr patch else Inr (marshal_map c d2))"
    unfolding sanitizePatch_def un sum.case dk Let_def prod.case d2 by simp
  with cl show ?thesis
    unfolding two same by (intro exI [of _ d2]) simp
qed

end
