(* ===== verification/ApplyConfig.thy ===== *)
theory ApplyConfig
  imports ObjectSet JsonValues
begin

text \<open>
  The configuration of an apply and the marks it leaves on objects: pkg/apply/apply.go,
  desiredset.go (the builder methods), desiredset_apply.go (labels, annotations, the owner
  hash and the selector), desiredset_log.go, desiredset_crud.go and desiredset_owner.go.
\<close>

section \<open>Labels and annotations\<close>

definition LabelSubContext :: gostring where "LabelSubContext = LabelPrefix @ ''owner-sub-context''"
definition LabelGVK :: gostring where "LabelGVK = LabelPrefix @ ''owner-gvk''"
definition LabelName :: gostring where "LabelName = LabelPrefix @ ''owner-name''"
definition LabelNamespace :: gostring where "LabelNamespace = LabelPrefix @ ''owner-namespace''"
definition LabelHash :: gostring where "LabelHash = LabelPrefix @ ''hash''"
definition AnnotationPrune :: gostring where "AnnotationPrune = LabelPrefix @ ''prune''"
definition AnnotationCreate :: gostring where "AnnotationCreate = LabelPrefix @ ''create''"
definition AnnotationUpdate :: gostring where "AnnotationUpdate = LabelPrefix @ ''update''"

lemmas label_names = LabelSubContext_def LabelGVK_def LabelName_def LabelNamespace_def LabelHash_def
  AnnotationPrune_def AnnotationCreate_def AnnotationUpdate_def

definition hashOrder :: "gostring list" where
  "hashOrder = [LabelSubContext, LabelGVK, LabelName, LabelNamespace]"

section \<open>Configuration\<close>

type_synonym reconciler = "kobject \<Rightarrow> kobject \<Rightarrow> err + bool"

record apply_cfg =
  a_defaultNamespace :: gostring
  a_listerNamespace :: gostring
  a_pruneTypes :: "(gvk, bool) gomap"
  a_pruneObjects :: "kobject list"
  a_reconcilers :: "(gvk, reconciler) gomap"
  a_ownerSubContext :: gostring
  a_owner :: "kobject option"
  a_ownerGVK :: gvk
  a_ensure :: bool
  a_noPrune :: bool

text \<open>
  What the engine calls outside the repository, besides the client: the scheme, the codecs,
  the contents of an unstructured object (\<^const>\<open>None\<close> for a typed one), \<open>json.Marshal\<close> of
  an object, the decoder with \<open>UseNumber\<close>, an unstructured object made from a map, the
  requirement \<open>key = value\<close> as a selector, the nested-field lookup, the scheme of client-go,
  the patch metadata of a type and the two patch generators.
\<close>

record apply_env =
  ae_scheme :: kscheme
  ae_codec :: codec
  ae_unstructured :: "kobject \<Rightarrow> jmap option"
  ae_marshal :: "kobject \<Rightarrow> err + gostring"
  ae_decode :: "gostring \<Rightarrow> err + jmap"
  ae_from_map :: "jmap \<Rightarrow> kobject"
  ae_requirement :: "gostring \<Rightarrow> gostring \<Rightarrow> err + label_selector"
  ae_nested :: "jmap \<Rightarrow> gostring list \<Rightarrow> json option"
  ae_clientgo_new :: "gvk \<Rightarrow> new_result"
  ae_patch_meta :: "kobject \<Rightarrow> err + gostring"
  ae_strategic_patch :: "gostring \<Rightarrow> gostring \<Rightarrow> gostring \<Rightarrow> gostring \<Rightarrow> err + gostring"
  ae_json_merge_patch :: "gostring \<Rightarrow> gostring \<Rightarrow> gostring \<Rightarrow> err + gostring"

definition zero_gvk :: gvk where
  "zero_gvk = GVK [] [] []"

definition NewApply :: "(gvk, reconciler) gomap \<Rightarrow> apply_cfg" where
  "NewApply defaultReconcilers =
     \<lparr>a_defaultNamespace = ''default'', a_listerNamespace = [], a_pruneTypes = [],
      a_pruneObjects = [], a_reconcilers = defaultReconcilers, a_ownerSubContext = [],
      a_owner = None, a_ownerGVK = zero_gvk, a_ensure = False, a_noPrune = False\<rparr>"

definition WithNoPrune :: "apply_cfg \<Rightarrow> apply_cfg" where
  "WithNoPrune a = a\<lparr>a_noPrune := True\<rparr>"

definition WithPruneTypes :: "kobject list \<Rightarrow> apply_cfg \<Rightarrow> apply_cfg" where
  "WithPruneTypes objs a = a\<lparr>a_pruneObjects := a_pruneObjects a @ objs\<rparr>"

definition withPruneGVKs :: "gvk list \<Rightarrow> apply_cfg \<Rightarrow> apply_cfg" where
  "withPruneGVKs gvks a =
     (let pruneTypes = fold (\<lambda>(k, v). AList.update k v) (a_pruneTypes a) [];
          pruneTypes = fold (\<lambda>g. AList.update g True) gvks pruneTypes
      in a\<lparr>a_pruneTypes := pruneTypes\<rparr>)"

definition WithPruneGVKs :: "gvk list \<Rightarrow> apply_cfg \<Rightarrow> apply_cfg" where
  "WithPruneGVKs gvks a = withPruneGVKs gvks a"

definition WithNamespace :: "gostring \<Rightarrow> apply_cfg \<Rightarrow> apply_cfg" where
  "WithNamespace ns a = a\<lparr>a_listerNamespace := ns, a_defaultNamespace := ns\<rparr>"

definition WithOwnerSubContext :: "gostring \<Rightarrow> apply_cfg \<Rightarrow> apply_cfg" where
  "WithOwnerSubContext ctx a = a\<lparr>a_ownerSubContext := ctx\<rparr>"

text \<open>\<open>AddValidOwnerChange\<close>: the global set of allowed changes of sub-context.\<close>

definition owner_change_key :: "gostring \<Rightarrow> gostring \<Rightarrow> gostring" where
  "owner_change_key old new = old @ '' => '' @ new"

definition AddValidOwnerChange :: "gostring \<Rightarrow> gostring \<Rightarrow> (gostring, unit) gomap \<Rightarrow> (gostring, unit) gomap" where
  "AddValidOwnerChange old new validOwnerChange =
     AList.update (owner_change_key old new) () validOwnerChange"

definition knownGVK :: "apply_cfg \<Rightarrow> gvk list" where
  "knownGVK a = map (\<lambda>(k, v). k) (a_pruneTypes a)"

section \<open>The owner's marks\<close>

definition objectSetHash :: "codec \<Rightarrow> (gostring, gostring) gomap \<Rightarrow> gostring" where
  "objectSetHash c labels = sha1_hex c (concat (map (\<lambda>key. gm_str labels key) hashOrder))"

text \<open>The two nil maps of the first return are the empty maps here.\<close>

definition GetLabelsAndAnnotations ::
  "apply_env \<Rightarrow> gostring \<Rightarrow> kobject option \<Rightarrow>
     err + (gostring, gostring) gomap \<times> (gostring, gostring) gomap" where
  "GetLabelsAndAnnotations env ownerSubContext owner =
     (if ownerSubContext = [] \<and> owner = None then Inr ([], [])
      else
        (let annotations = [(LabelSubContext, ownerSubContext)];
             annotations = (if ownerSubContext \<noteq> []
                            then AList.update LabelSubContext ownerSubContext annotations else annotations)
         in case owner of
              None \<Rightarrow> Inr ([(LabelHash, objectSetHash (ae_codec env) annotations)], annotations)
            | Some ob \<Rightarrow>
              (case gvk_for (ae_scheme env) ob of
                 Inl e \<Rightarrow> Inl e
               | Inr g \<Rightarrow>
                 (let annotations = AList.update LabelGVK (gvk_String (ae_scheme env) g) annotations;
                      annotations = AList.update LabelName (k_name ob) annotations;
                      annotations = AList.update LabelNamespace (k_namespace ob) annotations
                  in Inr ([(LabelHash, objectSetHash (ae_codec env) annotations)], annotations)))))"

definition GetSelector :: "apply_env \<Rightarrow> (gostring, gostring) gomap \<Rightarrow> err + label_selector option" where
  "GetSelector env labelSet =
     (if length labelSet = 0 then Inr None
      else (case ae_requirement env LabelHash (gm_str labelSet LabelHash) of
              Inl e \<Rightarrow> Inl e
            | Inr req \<Rightarrow> Inr (Some req)))"

definition setAnnotations :: "kobject \<Rightarrow> (gostring, gostring) gomap \<Rightarrow> kobject" where
  "setAnnotations obj annotations =
     (let objAnn = AList.delete LabelApplied (k_annotations obj)
      in obj\<lparr>k_annotations := gm_merge objAnn annotations\<rparr>)"

definition setLabels :: "kobject \<Rightarrow> (gostring, gostring) gomap \<Rightarrow> kobject" where
  "setLabels obj labels = obj\<lparr>k_labels := gm_merge (k_labels obj) labels\<rparr>"

fun inject_all ::
  "kscheme \<Rightarrow> (gostring, gostring) gomap \<Rightarrow> (gostring, gostring) gomap \<Rightarrow> kobject list \<Rightarrow> objectset \<Rightarrow>
     err + objectset" where
  "inject_all sch labels annotations [] result = Inr result"
| "inject_all sch labels annotations (obj # objs) result =
     (case os_Add sch result [Some (setAnnotations (setLabels obj labels) annotations)] of
        (result', Some e) \<Rightarrow> Inl e
      | (result', None) \<Rightarrow> inject_all sch labels annotations objs result')"

definition injectLabelsAndAnnotations ::
  "apply_env \<Rightarrow> objectset \<Rightarrow> (gostring, gostring) gomap \<Rightarrow> (gostring, gostring) gomap \<Rightarrow> err + objectset" where
  "injectLabelsAndAnnotations env input labels annotations =
     (case NewObjectSet (ae_scheme env) [] of
        (result, Some e) \<Rightarrow> Inl e
      | (result, None) \<Rightarrow>
          inject_all (ae_scheme env) labels annotations
            (concat (map (\<lambda>(g, objMap). map (\<lambda>(k, obj). obj) objMap) (ObjectsByGVK (Some input)))) result)"

section \<open>Finding the owner again\<close>

text \<open>\<open>getGVK\<close>: the kind written in the annotation \<open>owner-gvk\<close>.\<close>

definition getGVK :: "gostring \<Rightarrow> err + gvk" where
  "getGVK gvkLabel =
     (let parts = str_split gvkLabel '', Kind=''
      in if length parts \<noteq> 2 then Inl (Plain (''invalid GVK format: '' @ gvkLabel))
         else (case str_cut (parts ! 0) ''/'' of
                 (grp, version, _) \<Rightarrow> Inr (GVK grp version (parts ! 1))))"

definition newObj :: "apply_env \<Rightarrow> gvk \<Rightarrow> bool \<Rightarrow> err + kobject" where
  "newObj env g list =
     (case scheme_new (ae_scheme env) g of
        NotRegistered \<Rightarrow>
          (if list then Inr (zero_object ''*unstructured.UnstructuredList'' g)
           else Inr (zero_object ''*unstructured.Unstructured'' g))
      | NewFailed e \<Rightarrow> Inl e
      | NewObject obj \<Rightarrow> Inr obj)"

definition apply_create :: "'w kclient \<Rightarrow> kobject \<Rightarrow> 'w kwrite" where
  "apply_create cl obj = cl_create cl obj"

definition apply_get ::
  "apply_env \<Rightarrow> 'w kclient \<Rightarrow> gvk \<Rightarrow> kobject option \<Rightarrow> gostring \<Rightarrow> gostring \<Rightarrow> 'w \<Rightarrow>
     (err + kobject) \<times> 'w" where
  "apply_get env cl g obj namespace name w =
     (case (case obj of None \<Rightarrow> newObj env g False | Some ob \<Rightarrow> Inr ob) of
        Inl e \<Rightarrow> (Inl e, w)
      | Inr ob \<Rightarrow> cl_get cl ob namespace name w)"

definition apply_delete ::
  "'w kclient \<Rightarrow> gvk \<Rightarrow> gostring \<Rightarrow> gostring \<Rightarrow> 'w \<Rightarrow> err option \<times> 'w" where
  "apply_delete cl g namespace name w =
     (let ustr = (zero_object ''*unstructured.Unstructured'' g)\<lparr>k_name := name, k_namespace := namespace\<rparr>
      in cl_delete cl ustr w)"

definition FindOwner ::
  "apply_env \<Rightarrow> 'w kclient \<Rightarrow> kobject option \<Rightarrow> 'w \<Rightarrow> (err + kobject) \<times> 'w" where
  "FindOwner env cl obj w =
     (case obj of None \<Rightarrow> (Inl ErrOwnerNotFound, w)
      | Some ob \<Rightarrow>
        (let gvkLabel = gm_str (k_annotations ob) LabelGVK;
             namespace = gm_str (k_annotations ob) LabelNamespace;
             name = gm_str (k_annotations ob) LabelName
         in if gvkLabel = [] then (Inl ErrOwnerNotFound, w)
            else (case getGVK gvkLabel of
                    Inl e \<Rightarrow> (Inl e, w)
                  | Inr g \<Rightarrow> apply_get env cl g None namespace name w)))"

definition PurgeOrphan ::
  "apply_env \<Rightarrow> 'w kclient \<Rightarrow> kobject option \<Rightarrow> 'w \<Rightarrow> err option \<times> 'w" where
  "PurgeOrphan env cl obj w =
     (case obj of None \<Rightarrow> (None, w)
      | Some ob \<Rightarrow>
        (case FindOwner env cl obj w of
           (Inr _, w1) \<Rightarrow> (None, w1)
         | (Inl e, w1) \<Rightarrow>
             if IsNotFound (Some e)
             then (case gvk_for (ae_scheme env) ob of
                     Inl e' \<Rightarrow> (Some e', w1)
                   | Inr g \<Rightarrow> apply_delete cl g (k_namespace ob) (k_name ob) w1)
             else if e = ErrOwnerNotFound then (None, w1)
             else (Some e, w1)))"

text \<open>\<open>GCOrphans\<close> and \<open>DoNothing\<close> of pkg/handlers/handlers.go\<close>

definition GCOrphans ::
  "apply_env \<Rightarrow> 'w kclient \<Rightarrow> kobject option \<Rightarrow> 'w \<Rightarrow> err option \<times> 'w" where
  "GCOrphans env cl obj w = PurgeOrphan env cl obj w"

section \<open>Log lines\<close>

definition logKey :: "kobject \<Rightarrow> gostring" where
  "logKey obj = (if k_namespace obj = [] then k_name obj else k_namespace obj @ ''/'' @ k_name obj)"

definition ownerLogKey :: "apply_env \<Rightarrow> apply_cfg \<Rightarrow> gostring" where
  "ownerLogKey env a =
     (let r = (case a_owner a of None \<Rightarrow> []
               | Some ob \<Rightarrow> ''['' @ logKey ob @ ''] ['' @ gvk_String (ae_scheme env) (a_ownerGVK a) @ '']'')
      in if a_ownerSubContext a \<noteq> []
         then (if length r > 0 then r @ '' '' else r) @ ''subctx ['' @ a_ownerSubContext a @ '']''
         else r)"

definition debugID :: "apply_cfg \<Rightarrow> gostring" where
  "debugID a =
     (case a_owner a of None \<Rightarrow> a_ownerSubContext a
      | Some ob \<Rightarrow> ''subcontext ['' @ a_ownerSubContext a @ ''] namespace ['' @ k_namespace ob @
                    ''] name ['' @ k_name ob @ '']'')"

section \<open>Facts about the configuration\<close>

lemma withPruneGVKs_lookup:
  assumes "gm_ok (a_pruneTypes a)"
  shows "map_of (a_pruneTypes (withPruneGVKs gvks a)) g =
           (if g \<in> set gvks then Some True else map_of (a_pruneTypes a) g)"
proof -
  have start: "map_of (fold (\<lambda>(k, v). AList.update k v) (a_pruneTypes a) []) g = map_of (a_pruneTypes a) g"
    using map_of_gm_merge [OF assms, of "[]" g] by (simp add: gm_merge_def split: option.splits)
  have "map_of (fold (\<lambda>g. AList.update g True) gs m) g = (if g \<in> set gs then Some True else map_of m g)"
    for gs and m :: "(gvk, bool) gomap"
    by (induction gs arbitrary: m) auto
  with start show ?thesis by (simp add: withPruneGVKs_def Let_def)
qed

lemma withPruneGVKs_ok: "gm_ok (a_pruneTypes (withPruneGVKs gvks a))"
proof -
  have "gm_ok (fold (\<lambda>(k, v). AList.update k v) (a_pruneTypes a) [])"
    using gm_ok_merge [of "[]" "a_pruneTypes a"] by (simp add: gm_merge_def)
  then show ?thesis
    using gomap.ok_put_all [of _ "\<lambda>x. x" "\<lambda>_. True" gvks] by (simp add: withPruneGVKs_def Let_def)
qed

lemma distinct_knownGVK: "gm_ok (a_pruneTypes a) \<Longrightarrow> distinct (knownGVK a)"
proof -
  have "knownGVK a = gm_keys (a_pruneTypes a)"
    unfolding knownGVK_def by (rule map_cong) auto
  then show "gm_ok (a_pruneTypes a) \<Longrightarrow> distinct (knownGVK a)" by (simp add: gm_ok_def)
qed

lemma label_names_distinct [simp]: "distinct [LabelSubContext, LabelGVK, LabelName, LabelNamespace]"
  by (simp add: label_names)

lemma label_names_neq [simp]:
  "LabelSubContext \<noteq> LabelGVK" "LabelSubContext \<noteq> LabelName" "LabelSubContext \<noteq> LabelNamespace"
  "LabelGVK \<noteq> LabelSubContext" "LabelGVK \<noteq> LabelName" "LabelGVK \<noteq> LabelNamespace"
  "LabelName \<noteq> LabelSubContext" "LabelName \<noteq> LabelGVK" "LabelName \<noteq> LabelNamespace"
  "LabelNamespace \<noteq> LabelSubContext" "LabelNamespace \<noteq> LabelGVK" "LabelNamespace \<noteq> LabelName"
  "LabelSubContext \<noteq> LabelApplied" "LabelGVK \<noteq> LabelApplied" "LabelName \<noteq> LabelApplied"
  "LabelNamespace \<noteq> LabelApplied"
  by (simp_all add: label_names)

lemma objectSetHash_cong:
  "(\<And>k. k \<in> set hashOrder \<Longrightarrow> gm_str l k = gm_str l' k) \<Longrightarrow> objectSetHash c l = objectSetHash c l'"
  unfolding objectSetHash_def by (metis (mono_tags, lifting) map_cong)

lemma objectSetHash_text:
  "objectSetHash c l = sha1_hex c
     (gm_str l LabelSubContext @ gm_str l LabelGVK @ gm_str l LabelName @ gm_str l LabelNamespace)"
  by (simp add: objectSetHash_def hashOrder_def)

text \<open>What the marks of an owner are.\<close>

lemma GetLabelsAndAnnotations_owner:
  assumes "gvk_for (ae_scheme env) ob = Inr g"
  obtains labels annotations where
    "GetLabelsAndAnnotations env ctx (Some ob) = Inr (labels, annotations)"
    "labels = [(LabelHash, objectSetHash (ae_codec env) annotations)]"
    "gm_ok annotations" "gm_keys annotations = hashOrder"
    "map_of annotations LabelSubContext = Some ctx"
    "map_of annotations LabelGVK = Some (gvk_String (ae_scheme env) g)"
    "map_of annotations LabelName = Some (k_name ob)"
    "map_of annotations LabelNamespace = Some (k_namespace ob)"
proof -
  let ?a = "[(LabelSubContext, ctx), (LabelGVK, gvk_String (ae_scheme env) g),
     (LabelName, k_name ob), (LabelNamespace, k_namespace ob)]"
  have "GetLabelsAndAnnotations env ctx (Some ob) =
      Inr ([(LabelHash, objectSetHash (ae_codec env) ?a)], ?a)"
    using assms by (simp add: GetLabelsAndAnnotations_def Let_def)
  then show ?thesis by (rule that) (auto simp: gm_ok_def hashOrder_def)
qed

lemma setAnnotations_lookup:
  "gm_ok annotations \<Longrightarrow>
     map_of (k_annotations (setAnnotations obj annotations)) k =
       (case map_of annotations k of Some v \<Rightarrow> Some v
        | None \<Rightarrow> if k = LabelApplied then None else map_of (k_annotations obj) k)"
  by (auto simp: setAnnotations_def gm_simps split: option.splits)

lemma setLabels_lookup:
  "gm_ok labels \<Longrightarrow>
     map_of (k_labels (setLabels obj labels)) k =
       (case map_of labels k of Some v \<Rightarrow> Some v | None \<Rightarrow> map_of (k_labels obj) k)"
  by (simp add: setLabels_def gm_simps)

lemma set_marks_other [simp]:
  "k_name (setAnnotations obj as) = k_name obj" "k_namespace (setAnnotations obj as) = k_namespace obj"
  "k_labels (setAnnotations obj as) = k_labels obj"
  "k_name (setLabels obj ls) = k_name obj" "k_namespace (setLabels obj ls) = k_namespace obj"
  "k_annotations (setLabels obj ls) = k_annotations obj"
  "object_key (setAnnotations obj as) = object_key obj" "object_key (setLabels obj ls) = object_key obj"
  by (simp_all add: setAnnotations_def setLabels_def Let_def object_key_def)

text \<open>An object that carries the marks of an owner.\<close>

definition mark :: "(gostring, gostring) gomap \<Rightarrow> (gostring, gostring) gomap \<Rightarrow> kobject \<Rightarrow> kobject" where
  "mark labels annotations obj = setAnnotations (setLabels obj labels) annotations"

lemma inject_all_Add:
  "inject_all sch ls as objs r =
     (case os_Add sch r (map (Some \<circ> mark ls as) objs) of
        (r', Some e) \<Rightarrow> Inl e | (r', None) \<Rightarrow> Inr r')"
proof (induction objs arbitrary: r)
  case (Cons obj objs)
  then show ?case
    by (auto simp: mark_def split: prod.splits option.splits)
qed simp

lemma injectLabelsAndAnnotations_new:
  "injectLabelsAndAnnotations env input ls as =
     (case NewObjectSet (ae_scheme env)
             (map (Some \<circ> mark ls as) (map snd (nm_pairs (os_objects input)))) of
        (r', Some e) \<Rightarrow> Inl e | (r', None) \<Rightarrow> Inr r')"
proof -
  have "concat (map (\<lambda>(g, objMap). map (\<lambda>(k, obj). obj) objMap) M) = map snd (nm_pairs M)"
    for M :: ObjectByGVK
    by (induction M) (auto simp: nm_pairs_def)
  then show ?thesis
    by (simp add: injectLabelsAndAnnotations_def NewObjectSet_def inject_all_Add ObjectsByGVK_def)
qed

text \<open>Injecting the marks changes neither the kinds nor the keys of the set.\<close>

lemma inject_view:
  assumes ok: "os_ok input" and ty: "os_typed (ae_scheme env) input"
    and same: "\<And>obj. gvk_for (ae_scheme env) (mark ls as obj) = gvk_for (ae_scheme env) obj"
    and inj: "injectLabelsAndAnnotations env input ls as = Inr out"
  shows "os_view out p = map_option (mark ls as) (os_view input p)"
proof -
  let ?P = "nm_pairs (os_objects input)"
  have nok: "nm_ok (os_objects input)" using ok by (simp add: os_ok_def)
  from inj have new: "NewObjectSet (ae_scheme env) (map (Some \<circ> mark ls as) (map snd ?P)) = (out, None)"
    by (auto simp: injectLabelsAndAnnotations_new split: prod.splits option.splits)
  have each: "gvk_for (ae_scheme env) (snd q) = Inr (fst (fst q)) \<and> object_key (snd q) = snd (fst q)"
    if "q \<in> set ?P" for q
  proof -
    from that have "os_view input (fst q) = Some (snd q)"
      by (simp add: os_view_def nm_pairs_get [OF nok, symmetric] nm_pairs_distinct [OF nok])
    with ok ty show ?thesis
      by (cases q; cases "fst q") (auto simp: os_ok_def os_typed_def)
  qed
  have pairs: "added_pairs (ae_scheme env) (map (Some \<circ> mark ls as) (map snd qs)) =
      map (\<lambda>q. (fst q, mark ls as (snd q))) qs" if "set qs \<subseteq> set ?P" for qs
    using that
  proof (induction qs)
    case (Cons q qs)
    then have "gvk_for (ae_scheme env) (snd q) = Inr (fst (fst q))" "object_key (snd q) = snd (fst q)"
      using each [of q] by auto
    moreover have "object_key (mark ls as (snd q)) = object_key (snd q)" by (simp add: mark_def)
    ultimately have "added_pairs (ae_scheme env) (map (Some \<circ> mark ls as) (map snd (q # qs))) =
        (fst q, mark ls as (snd q)) # added_pairs (ae_scheme env) (map (Some \<circ> mark ls as) (map snd qs))"
      by (simp add: added_pairs_def same)
    with Cons show ?case by (simp add: comp_def)
  qed (simp add: added_pairs_def)
  have "os_view out p = map_of (rev (map (\<lambda>q. (fst q, mark ls as (snd q))) ?P)) p"
    using NewObjectSet_view [OF new] pairs [of ?P] by simp
  also have "\<dots> = map_of (map (\<lambda>q. (fst q, mark ls as (snd q))) ?P) p"
    by (rule map_of_rev_distinct) (use nm_pairs_distinct [OF nok] in \<open>simp add: comp_def\<close>)
  also have "\<dots> = map_option (mark ls as) (map_of ?P p)"
    by (rule map_of_map_snd)
  finally show ?thesis by (simp add: os_view_def nm_pairs_get [OF nok])
qed

end
