(* ===== verification/ApplyPatch.thy ===== *)
theory ApplyPatch
  imports ApplyConfig
begin

text \<open>
  Comparing one desired object with the one in the cluster and patching it: the functions of
  pkg/apply/desiredset_compare.go that work on objects, pkg/apply/patch_style.go,
  pkg/apply/reconcilers.go and \<open>ToMapInterface\<close> of pkg/data/map.go.

  \<open>applied_state\<close> is what an apply changes: the world behind the client and the global cache
  of merge styles. An object whose pointer the engine writes through (\<open>newObject\<close> when
  ensuring) is returned as it is left.
\<close>

record patchCacheEntry =
  pce_patchType :: patch_type
  pce_lookup :: gostring

record 'w apply_state =
  as_world :: 'w
  as_patchCache :: "(gvk, patchCacheEntry) gomap"

section \<open>Serializing\<close>

definition ToMapInterface :: "apply_env \<Rightarrow> kobject \<Rightarrow> err + jmap" where
  "ToMapInterface env obj =
     (case ae_unstructured env obj of
        Some m \<Rightarrow> Inr m
      | None \<Rightarrow>
        (case ae_marshal env obj of
           Inl e \<Rightarrow> Inl e
         | Inr b \<Rightarrow> ae_decode env b))"

definition serializeApplied :: "apply_env \<Rightarrow> kobject \<Rightarrow> err + gostring" where
  "serializeApplied env obj =
     (case ToMapInterface env obj of
        Inl e \<Rightarrow> Inl e
      | Inr data \<Rightarrow> Inr (marshal_map (ae_codec env) (pruneValues (ae_codec env) data False)))"

definition prepareObjectForCreate :: "apply_env \<Rightarrow> gvk \<Rightarrow> kobject \<Rightarrow> bool \<Rightarrow> err + kobject" where
  "prepareObjectForCreate env g obj clone =
     (case serializeApplied env obj of
        Inl e \<Rightarrow> Inl e
      | Inr serialized \<Rightarrow>
        (let obj = (if clone then obj\<lparr>k_uid := [], k_creationTimestamp := None\<rparr> else obj);
             annotations = AList.update LabelApplied
               (appliedToAnnotation (ae_codec env) serialized) (k_annotations obj)
         in Inr (obj\<lparr>k_annotations := annotations, k_gvk := g\<rparr>)))"

definition getOriginalObject :: "apply_env \<Rightarrow> gvk \<Rightarrow> kobject \<Rightarrow> err + kobject option" where
  "getOriginalObject env g obj =
     (let original = appliedFromAnnotation (ae_codec env) (gm_str (k_annotations obj) LabelApplied)
      in if length original = 0 then Inr None
         else (case unmarshal_map (ae_codec env) original of
                 Inl e \<Rightarrow> Inl e
               | Inr mapObj \<Rightarrow>
                 (let (mapObj, _) = removeMetadataFields mapObj
                  in case prepareObjectForCreate env g (ae_from_map env mapObj) True of
                       Inl e \<Rightarrow> Inl e
                     | Inr ob \<Rightarrow> Inr (Some ob))))"

definition getOriginalBytes :: "apply_env \<Rightarrow> gvk \<Rightarrow> kobject \<Rightarrow> err + gostring" where
  "getOriginalBytes env g obj =
     (case getOriginalObject env g obj of
        Inl e \<Rightarrow> Inl e
      | Inr None \<Rightarrow> Inr ''{}''
      | Inr (Some objCopy) \<Rightarrow> ae_marshal env objCopy)"

definition originalAndModified ::
  "apply_env \<Rightarrow> gvk \<Rightarrow> kobject \<Rightarrow> kobject \<Rightarrow> err + gostring \<times> gostring" where
  "originalAndModified env g oldMetadata newObject =
     (case getOriginalBytes env g oldMetadata of
        Inl e \<Rightarrow> Inl e
      | Inr original \<Rightarrow>
        (case prepareObjectForCreate env g newObject True of
           Inl e \<Rightarrow> Inl e
         | Inr newObject \<Rightarrow>
           (case ae_marshal env newObject of
              Inl e \<Rightarrow> Inl e
            | Inr modified \<Rightarrow> Inr (original, modified))))"

section \<open>Merge styles\<close>

definition getMergeStyle ::
  "apply_env \<Rightarrow> gvk \<Rightarrow> (gvk, patchCacheEntry) gomap \<Rightarrow>
     (err + patchCacheEntry) \<times> (gvk, patchCacheEntry) gomap" where
  "getMergeStyle env g patchCache =
     (case map_of patchCache g of
        Some entry \<Rightarrow> (Inr entry, patchCache)
      | None \<Rightarrow>
        (let versioned = ae_clientgo_new env g;
             store = (\<lambda>entry. (Inr entry, AList.update g entry patchCache))
         in if versioned = NotRegistered \<or> gvk_kind g = ''CustomResourceDefinition''
            then store \<lparr>pce_patchType = MergePatchType, pce_lookup = []\<rparr>
            else (case versioned of
                    NewFailed e \<Rightarrow> (Inl e, patchCache)
                  | NewObject ob \<Rightarrow>
                    (case ae_patch_meta env ob of
                       Inl e \<Rightarrow> (Inl e, patchCache)
                     | Inr lookup \<Rightarrow>
                         store \<lparr>pce_patchType = StrategicMergePatchType, pce_lookup = lookup\<rparr>))))"

definition createPatch ::
  "apply_env \<Rightarrow> gvk \<Rightarrow> gostring \<Rightarrow> gostring \<Rightarrow> gostring \<Rightarrow> (gvk, patchCacheEntry) gomap \<Rightarrow>
     (err + patch_type \<times> gostring) \<times> (gvk, patchCacheEntry) gomap" where
  "createPatch env g original modified current cache =
     (case getMergeStyle env g cache of
        (Inl e, cache') \<Rightarrow> (Inl e, cache')
      | (Inr style, cache') \<Rightarrow>
        (case (if pce_patchType style = StrategicMergePatchType
               then ae_strategic_patch env (pce_lookup style) original modified current
               else ae_json_merge_patch env original modified current) of
           Inl e \<Rightarrow> (Inl e, cache')
         | Inr patch \<Rightarrow> (Inr (pce_patchType style, patch), cache')))"

section \<open>Patching\<close>

text \<open>
  \<open>applyPatch\<close>: whether anything was done, the error, the object behind \<open>newObject\<close> and the
  state.
\<close>

definition send_patch ::
  "apply_cfg \<Rightarrow> 'w kclient \<Rightarrow> gvk \<Rightarrow> kobject \<Rightarrow> kobject \<Rightarrow> patch_type \<Rightarrow> gostring \<Rightarrow> 'w apply_state \<Rightarrow>
     (bool \<times> err option) \<times> kobject \<times> 'w apply_state" where
  "send_patch a cl g oldObject newObject patchType patch st =
     (let ustr = (zero_object ''*unstructured.Unstructured'' g)
            \<lparr>k_resourceVersion := k_resourceVersion oldObject,
             k_namespace := k_namespace oldObject, k_name := k_name oldObject\<rparr>
      in if a_ensure a
         then (let newObject = newObject\<lparr>k_resourceVersion := k_resourceVersion oldObject\<rparr>
               in case cl_patch cl newObject patchType patch (as_world st) of
                    ((e, ob), w) \<Rightarrow> ((True, e), ob, st\<lparr>as_world := w\<rparr>))
         else (case cl_patch cl ustr patchType patch (as_world st) of
                 ((e, ob), w) \<Rightarrow> ((True, e), newObject, st\<lparr>as_world := w\<rparr>)))"

definition run_reconciler ::
  "apply_env \<Rightarrow> reconciler \<Rightarrow> gvk \<Rightarrow> kobject \<Rightarrow> kobject \<Rightarrow> err + bool" where
  "run_reconciler env rc g oldObject newObject =
     (case prepareObjectForCreate env g newObject True of
        Inl e \<Rightarrow> Inl e
      | Inr newObject \<Rightarrow>
        (case getOriginalObject env g oldObject of
           Inl e \<Rightarrow> Inl e
         | Inr originalObject \<Rightarrow>
             rc (case originalObject of None \<Rightarrow> oldObject | Some ob \<Rightarrow> ob) newObject))"

definition applyPatch ::
  "apply_env \<Rightarrow> apply_cfg \<Rightarrow> 'w kclient \<Rightarrow> gvk \<Rightarrow> kobject \<Rightarrow> kobject \<Rightarrow> 'w apply_state \<Rightarrow>
     (bool \<times> err option) \<times> kobject \<times> 'w apply_state" where
  "applyPatch env a cl g oldObject newObject st =
     (case originalAndModified env g oldObject newObject of
        Inl e \<Rightarrow> ((False, Some e), newObject, st)
      | Inr (original, modified) \<Rightarrow>
        (case ae_marshal env oldObject of
           Inl e \<Rightarrow> ((False, Some e), newObject, st)
         | Inr current \<Rightarrow>
           (case createPatch env g original modified current (as_patchCache st) of
              (Inl e, cache) \<Rightarrow>
                ((False, Some (Wrap ''patch generation: '' e)), newObject, st\<lparr>as_patchCache := cache\<rparr>)
            | (Inr (patchType, patch), cache) \<Rightarrow>
              (let st = st\<lparr>as_patchCache := cache\<rparr>
               in if patch = ''{}'' then ((False, None), newObject, st)
                  else (case sanitizePatch (ae_codec env) (ae_nested env) patch False of
                          Inl e \<Rightarrow> ((False, Some e), newObject, st)
                        | Inr patch \<Rightarrow>
                            if patch = ''{}'' then ((False, None), newObject, st)
                            else (case map_of (a_reconcilers a) g of
                                    None \<Rightarrow> send_patch a cl g oldObject newObject patchType patch st
                                  | Some rc \<Rightarrow>
                                    (case run_reconciler env rc g oldObject newObject of
                                       Inl e \<Rightarrow> ((False, Some e), newObject, st)
                                     | Inr handled \<Rightarrow>
                                         if handled then ((True, None), newObject, st)
                                         else send_patch a cl g oldObject newObject patchType patch st)))))))"

definition compareObjects ::
  "apply_env \<Rightarrow> apply_cfg \<Rightarrow> 'w kclient \<Rightarrow> gvk \<Rightarrow> kobject \<Rightarrow> kobject \<Rightarrow> 'w apply_state \<Rightarrow>
     err option \<times> kobject \<times> 'w apply_state" where
  "compareObjects env a cl g oldObject newObject st =
     (case applyPatch env a cl g oldObject newObject st of
        ((did, Some e), ob, st') \<Rightarrow> (Some e, ob, st')
      | ((did, None), ob, st') \<Rightarrow>
          if \<not> did \<and> a_ensure a
          then (if k_type oldObject \<noteq> k_type ob
                then (Some (Plain (''type '' @ k_type oldObject @ '' not assignable to '' @ k_type ob)), ob, st')
                else (None, oldObject, st'))
          else (None, ob, st'))"

section \<open>Reconcilers\<close>

text \<open>
  The typed objects of the Kubernetes API. \<open>re_decode\<close> is \<open>json.Unmarshal\<close> of a document into a
  new object of the named Go type; the other fields read a typed object.
\<close>

record reconcile_env =
  re_apply :: apply_env
  re_decode :: "gostring \<Rightarrow> gostring \<Rightarrow> err + kobject"
  re_equal :: "json \<Rightarrow> json \<Rightarrow> bool"
  re_spec_selector :: "kobject \<Rightarrow> json"
  re_secret_type :: "kobject \<Rightarrow> gostring"
  re_service_type :: "kobject \<Rightarrow> gostring"
  re_job_template :: "kobject \<Rightarrow> json"

definition convertObj :: "reconcile_env \<Rightarrow> gostring \<Rightarrow> kobject \<Rightarrow> err + kobject" where
  "convertObj re ty src =
     (case ae_unstructured (re_apply re) src of
        None \<Rightarrow> Inl (Plain (''expected unstructured but got '' @ k_type src))
      | Some _ \<Rightarrow>
        (case ae_marshal (re_apply re) src of
           Inl e \<Rightarrow> Inl e
         | Inr bytes \<Rightarrow> re_decode re ty bytes))"

text \<open>\<open>x, ok := obj.(*T); if !ok { x = &T{}; convertObj(obj, x) }\<close>\<close>

definition as_typed :: "reconcile_env \<Rightarrow> gostring \<Rightarrow> kobject \<Rightarrow> err + kobject" where
  "as_typed re ty obj = (if k_type obj = ty then Inr obj else convertObj re ty obj)"

definition reconcileDaemonSet :: "reconcile_env \<Rightarrow> reconciler" where
  "reconcileDaemonSet re oldOb newOb =
     (case as_typed re ''*v1.DaemonSet'' oldOb of Inl e \<Rightarrow> Inl e
      | Inr oldSvc \<Rightarrow>
        (case as_typed re ''*v1.DaemonSet'' newOb of Inl e \<Rightarrow> Inl e
         | Inr newSvc \<Rightarrow>
             if \<not> re_equal re (re_spec_selector re oldSvc) (re_spec_selector re newSvc)
             then Inl ErrReplace else Inr False))"

definition reconcileDeployment :: "reconcile_env \<Rightarrow> reconciler" where
  "reconcileDeployment re oldOb newOb =
     (case as_typed re ''*v1.Deployment'' oldOb of Inl e \<Rightarrow> Inl e
      | Inr oldSvc \<Rightarrow>
        (case as_typed re ''*v1.Deployment'' newOb of Inl e \<Rightarrow> Inl e
         | Inr newSvc \<Rightarrow>
             if \<not> re_equal re (re_spec_selector re oldSvc) (re_spec_selector re newSvc)
             then Inl ErrReplace else Inr False))"

definition reconcileSecret :: "reconcile_env \<Rightarrow> reconciler" where
  "reconcileSecret re oldOb newOb =
     (case as_typed re ''*v1.Secret'' oldOb of Inl e \<Rightarrow> Inl e
      | Inr oldSvc \<Rightarrow>
        (case as_typed re ''*v1.Secret'' newOb of Inl e \<Rightarrow> Inl e
         | Inr newSvc \<Rightarrow>
             if re_secret_type re newSvc \<noteq> [] \<and> re_secret_type re oldSvc \<noteq> re_secret_type re newSvc
             then Inl ErrReplace else Inr False))"

definition reconcileService :: "reconcile_env \<Rightarrow> reconciler" where
  "reconcileService re oldOb newOb =
     (case as_typed re ''*v1.Service'' oldOb of Inl e \<Rightarrow> Inl e
      | Inr oldSvc \<Rightarrow>
        (case as_typed re ''*v1.Service'' newOb of Inl e \<Rightarrow> Inl e
         | Inr newSvc \<Rightarrow>
             if re_service_type re newSvc \<noteq> [] \<and> re_service_type re oldSvc \<noteq> re_service_type re newSvc
             then Inl ErrReplace else Inr False))"

definition reconcileJob :: "reconcile_env \<Rightarrow> reconciler" where
  "reconcileJob re oldOb newOb =
     (case as_typed re ''*v1.Job'' oldOb of Inl e \<Rightarrow> Inl e
      | Inr oldJob \<Rightarrow>
        (case as_typed re ''*v1.Job'' newOb of Inl e \<Rightarrow> Inl e
         | Inr newJob \<Rightarrow>
           (case getOriginalObject (re_apply re) (k_gvk newJob) newJob of Inl e \<Rightarrow> Inl e
            | Inr None \<Rightarrow> Inl (Plain ''expected unstructured but got <nil>'')
            | Inr (Some prunedSvc) \<Rightarrow>
              (case convertObj re ''*v1.Job'' prunedSvc of Inl e \<Rightarrow> Inl e
               | Inr newPrunedJob \<Rightarrow>
                   if \<not> re_equal re (re_job_template re oldJob) (re_job_template re newPrunedJob)
                   then Inl ErrReplace else Inr False))))"

definition defaultReconcilers :: "reconcile_env \<Rightarrow> (gvk, reconciler) gomap" where
  "defaultReconcilers re =
     [(GVK [] ''v1'' ''Secret'', reconcileSecret re),
      (GVK [] ''v1'' ''Service'', reconcileService re),
      (GVK ''batch'' ''v1'' ''Job'', reconcileJob re),
      (GVK ''apps'' ''v1'' ''Deployment'', reconcileDeployment re),
      (GVK ''apps'' ''v1'' ''DaemonSet'', reconcileDaemonSet re)]"

end
