(* ===== verification/ApplyProcess.thy ===== *)
theory ApplyProcess
  imports ApplyPatch
begin

text \<open>
  The engine's loop over one kind (pkg/apply/desiredset_process.go) and the entry points
  (\<open>apply\<close> of desiredset_apply.go, \<open>Apply\<close> and \<open>Ensure\<close> of desiredset.go).

  A \<open>range\<close> loop that moves entries of the map it visits is \<open>range_map\<close>: it goes through the
  keys the map has at the start, reads the current value of each and skips a key that was
  deleted meanwhile. Go may also visit a key the loop itself inserted; the lemmas
  \<open>assign_owner_again\<close>, \<open>adjust_again\<close> and \<open>clear_again\<close> show that such a visit changes nothing.
\<close>

section \<open>Loops\<close>

fun range_map ::
  "('k \<Rightarrow> 'v \<Rightarrow> ('k, 'v) gomap \<Rightarrow> err + ('k, 'v) gomap) \<Rightarrow> 'k list \<Rightarrow> ('k, 'v) gomap \<Rightarrow>
     err + ('k, 'v) gomap" where
  "range_map f [] m = Inr m"
| "range_map f (k # ks) m =
     (case map_of m k of
        None \<Rightarrow> range_map f ks m
      | Some v \<Rightarrow> (case f k v m of Inl e \<Rightarrow> Inl e | Inr m' \<Rightarrow> range_map f ks m'))"

text \<open>\<open>for _, k := range ks { errs = append(errs, f(k)) }\<close>\<close>

fun run_all :: "('k \<Rightarrow> 's \<Rightarrow> err option \<times> 's) \<Rightarrow> 'k list \<Rightarrow> 's \<Rightarrow> err option list \<times> 's" where
  "run_all f [] s = ([], s)"
| "run_all f (k # ks) s =
     (case f k s of (e, s1) \<Rightarrow> (case run_all f ks s1 of (es, s2) \<Rightarrow> (e # es, s2)))"

section \<open>Namespaces and owners\<close>

definition should :: "kobject \<Rightarrow> gostring \<Rightarrow> bool" where
  "should obj label = (gm_str (k_annotations obj) label \<noteq> ''false'')"

definition IsNamespaced :: "apply_env \<Rightarrow> gvk \<Rightarrow> err + bool" where
  "IsNamespaced env g =
     (case rest_scope (ae_scheme env) g of Inl e \<Rightarrow> Inl e | Inr s \<Rightarrow> Inr (s = NamespaceScope))"

definition owner_reference :: "apply_env \<Rightarrow> gvk \<Rightarrow> kobject \<Rightarrow> owner_ref" where
  "owner_reference env ownerGVK owner =
     \<lparr>or_apiVersion = gv_String (ae_scheme env) ownerGVK, or_kind = gvk_kind ownerGVK,
      or_name = k_name owner, or_uid = k_uid owner, or_controller = True,
      or_blockOwnerDeletion = True\<rparr>"

text \<open>The object after the owner reference is added, unless it is there or not wanted.\<close>

definition with_owner :: "apply_env \<Rightarrow> gvk \<Rightarrow> kobject \<Rightarrow> kobject \<Rightarrow> kobject" where
  "with_owner env ownerGVK owner v =
     (let shouldSet = \<not> (\<exists>r \<in> set (k_ownerReferences v). k_uid owner = or_uid r)
      in if shouldSet \<and> k_uid owner \<noteq> [] \<and> should v AnnotationPrune
         then v\<lparr>k_ownerReferences := k_ownerReferences v @ [owner_reference env ownerGVK owner]\<rparr>
         else v)"

definition assign_owner_one ::
  "apply_env \<Rightarrow> gvk \<Rightarrow> kobject \<Rightarrow> gvk \<Rightarrow> bool \<Rightarrow> objkey \<Rightarrow> kobject \<Rightarrow> ObjectByKey \<Rightarrow> err + ObjectByKey" where
  "assign_owner_one env g owner ownerGVK ownerNSed k v objs =
     (case IsNamespaced env g of
        Inl e \<Rightarrow> Inl e
      | Inr nsed \<Rightarrow>
          if ownerNSed \<and> \<not> nsed then Inr objs
          else
            (let assignNS = (nsed \<and> ok_namespace k = []);
                 assignOwner = \<not> (nsed \<and> ok_namespace k \<noteq> [] \<and>
                                  ok_namespace k \<noteq> k_namespace owner \<and> ownerNSed)
             in if \<not> assignOwner then Inr objs
                else (let v = (if assignNS then v\<lparr>k_namespace := k_namespace owner\<rparr> else v);
                          v = with_owner env ownerGVK owner v;
                          objs = AList.update k v objs
                      in if assignNS
                         then Inr (AList.update (k\<lparr>ok_namespace := k_namespace owner\<rparr>) v (AList.delete k objs))
                         else Inr objs)))"

definition assignOwnerReference :: "apply_env \<Rightarrow> apply_cfg \<Rightarrow> gvk \<Rightarrow> ObjectByKey \<Rightarrow> err + ObjectByKey" where
  "assignOwnerReference env a g objs =
     (case a_owner a of
        None \<Rightarrow> Inl (Plain ''no owner set to assign owner reference'')
      | Some owner \<Rightarrow>
        (case gvk_for (ae_scheme env) owner of
           Inl e \<Rightarrow> Inl e
         | Inr ownerGVK \<Rightarrow>
           (case IsNamespaced env ownerGVK of
              Inl e \<Rightarrow> Inl e
            | Inr ownerNSed \<Rightarrow>
                range_map (assign_owner_one env g owner ownerGVK ownerNSed) (gm_keys objs) objs)))"

definition adjust_one :: "gostring \<Rightarrow> objkey \<Rightarrow> kobject \<Rightarrow> ObjectByKey \<Rightarrow> err + ObjectByKey" where
  "adjust_one defaultNamespace k v objs =
     (if ok_namespace k \<noteq> [] then Inr objs
      else Inr (AList.update (k\<lparr>ok_namespace := defaultNamespace\<rparr>) (v\<lparr>k_namespace := defaultNamespace\<rparr>)
                  (AList.delete k objs)))"

definition adjustNamespace :: "apply_cfg \<Rightarrow> ObjectByKey \<Rightarrow> err + ObjectByKey" where
  "adjustNamespace a objs = range_map (adjust_one (a_defaultNamespace a)) (gm_keys objs) objs"

definition clear_one :: "objkey \<Rightarrow> kobject \<Rightarrow> ObjectByKey \<Rightarrow> err + ObjectByKey" where
  "clear_one k v objs =
     (if ok_namespace k = [] then Inr objs
      else Inr (AList.update (k\<lparr>ok_namespace := []\<rparr>) (v\<lparr>k_namespace := []\<rparr>) (AList.delete k objs)))"

definition clearNamespace :: "ObjectByKey \<Rightarrow> err + ObjectByKey" where
  "clearNamespace objs = range_map clear_one (gm_keys objs) objs"

definition filterCrossVersion :: "apply_cfg \<Rightarrow> objectset \<Rightarrow> gvk \<Rightarrow> objkey list \<Rightarrow> objkey list" where
  "filterCrossVersion a objs g keys =
     filter (\<lambda>key. \<not> os_Contains objs (GroupKind g) key \<and>
        \<not> (ok_namespace key = a_defaultNamespace a \<and>
           os_Contains objs (GroupKind g) \<lparr>ok_name = ok_name key, ok_namespace = []\<rparr>)) keys"

section \<open>Taking over objects\<close>

definition isAllowOwnerTransition :: "(gostring, unit) gomap \<Rightarrow> kobject \<Rightarrow> kobject \<Rightarrow> bool" where
  "isAllowOwnerTransition validOwnerChange existingObj new =
     (let old = gm_str (k_annotations existingObj); nw = gm_str (k_annotations new)
      in if nw LabelSubContext = [] \<or>
            (old LabelGVK \<noteq> [] \<and> old LabelGVK \<noteq> nw LabelGVK) \<or>
            (old LabelNamespace \<noteq> [] \<and> old LabelNamespace \<noteq> nw LabelNamespace) \<or>
            (old LabelName \<noteq> [] \<and> old LabelName \<noteq> nw LabelName)
         then False
         else map_of validOwnerChange (owner_change_key (old LabelSubContext) (nw LabelSubContext)) \<noteq> None)"

definition isAssigningSubContext :: "kobject \<Rightarrow> kobject \<Rightarrow> bool" where
  "isAssigningSubContext existingObj new =
     (let old = gm_str (k_annotations existingObj); nw = gm_str (k_annotations new)
      in old LabelSubContext = [] \<and> nw LabelSubContext \<noteq> [] \<and>
         old LabelGVK = nw LabelGVK \<and> old LabelNamespace = nw LabelNamespace \<and>
         old LabelName = nw LabelName)"

section \<open>Listing what exists\<close>

definition addObjectToMap :: "kobject \<Rightarrow> ObjectByKey \<Rightarrow> ObjectByKey" where
  "addObjectToMap obj objs = AList.update (object_key obj) obj objs"

definition listBySelector ::
  "apply_env \<Rightarrow> apply_cfg \<Rightarrow> 'w kclient \<Rightarrow> gvk \<Rightarrow> label_selector \<Rightarrow> 'w \<Rightarrow> (err + ObjectByKey) \<times> 'w" where
  "listBySelector env a cl g selector w =
     (let g = g\<lparr>gvk_kind := gvk_kind g @ ''List''\<rparr>
      in case newObj env g True of
           Inl e \<Rightarrow> (Inl e, w)
         | Inr _ \<Rightarrow>
           (case cl_list cl g (a_listerNamespace a) (Some selector) w of
              (Inl e, w1) \<Rightarrow> (Inl e, w1)
            | (Inr items, w1) \<Rightarrow> (Inr (fold addObjectToMap items []), w1)))"

fun list_by_get ::
  "apply_env \<Rightarrow> 'w kclient \<Rightarrow> gvk \<Rightarrow> ObjectByKey \<Rightarrow> ObjectByKey \<Rightarrow> 'w \<Rightarrow> (err + ObjectByKey) \<times> 'w" where
  "list_by_get env cl g [] result w = (Inr result, w)"
| "list_by_get env cl g ((k, v) # objs) result w =
     (case apply_get env cl g (Some v) (ok_namespace k) (ok_name k) w of
        (Inl e, w1) \<Rightarrow>
          if IsNotFound (Some e) then list_by_get env cl g objs result w1 else (Inl e, w1)
      | (Inr obj, w1) \<Rightarrow> list_by_get env cl g objs (AList.update k obj result) w1)"

definition list_existing ::
  "apply_env \<Rightarrow> apply_cfg \<Rightarrow> 'w kclient \<Rightarrow> gvk \<Rightarrow> label_selector option \<Rightarrow> ObjectByKey \<Rightarrow> 'w \<Rightarrow>
     (err + ObjectByKey) \<times> 'w" where
  "list_existing env a cl g selector objs w =
     (case selector of
        Some sel \<Rightarrow> listBySelector env a cl g sel w
      | None \<Rightarrow> list_by_get env cl g objs [] w)"

section \<open>The plan\<close>

definition sortObjectKeys :: "objkey list \<Rightarrow> objkey list" where
  "sortObjectKeys keys = sort_key ObjectKey_String keys"

definition prunable :: "codec \<Rightarrow> kobject \<Rightarrow> bool" where
  "prunable c obj =
     (should obj AnnotationPrune \<and> k_deletionTimestamp obj = None \<and>
      (case map_of (k_labels obj) LabelHash of
         None \<Rightarrow> True
       | Some labelHash \<Rightarrow> labelHash = objectSetHash c (k_annotations obj)))"

definition compareSets ::
  "codec \<Rightarrow> ObjectByKey \<Rightarrow> ObjectByKey \<Rightarrow> objkey list \<times> objkey list \<times> objkey list" where
  "compareSets c existingSet newSet =
     (let toUpdate = [k. (k, obj) \<leftarrow> newSet, map_of existingSet k \<noteq> None, should obj AnnotationUpdate];
          toCreate = [k. (k, obj) \<leftarrow> newSet, map_of existingSet k = None, should obj AnnotationCreate];
          toDelete = [k. (k, obj) \<leftarrow> existingSet, map_of newSet k = None, prunable c obj]
      in (sortObjectKeys toCreate, sortObjectKeys toDelete, sortObjectKeys toUpdate))"

section \<open>Carrying it out\<close>

record 'w process_state =
  ps_st :: "'w apply_state"
  ps_objs :: ObjectByKey
  ps_existing :: ObjectByKey
  ps_toUpdate :: "objkey list"
  ps_toReplace :: "objkey list"

abbreviation ps_world :: "'w process_state \<Rightarrow> 'w" where
  "ps_world ps \<equiv> as_world (ps_st ps)"

definition set_world :: "'w \<Rightarrow> 'w process_state \<Rightarrow> 'w process_state" where
  "set_world w ps = ps\<lparr>ps_st := (ps_st ps)\<lparr>as_world := w\<rparr>\<rparr>"

definition failure :: "apply_env \<Rightarrow> gostring \<Rightarrow> objkey \<Rightarrow> gvk \<Rightarrow> gostring \<Rightarrow> gostring" where
  "failure env what k g debug =
     what @ '' '' @ ObjectKey_String k @ '' '' @ gvk_String (ae_scheme env) g @ '' for '' @ debug"

definition createF ::
  "apply_env \<Rightarrow> apply_cfg \<Rightarrow> 'w kclient \<Rightarrow> (gostring, unit) gomap \<Rightarrow> gostring \<Rightarrow> gvk \<Rightarrow> objkey \<Rightarrow>
     'w process_state \<Rightarrow> err option \<times> 'w process_state" where
  "createF env a cl valid debug g k ps =
     (case map_of (ps_objs ps) k of None \<Rightarrow> (Some NilDereference, ps)
      | Some desired \<Rightarrow>
        (case prepareObjectForCreate env g desired (\<not> a_ensure a) of
           Inl e \<Rightarrow> (Some (Wrap (failure env ''failed to prepare create'' k g debug @ '': '') e), ps)
         | Inr obj \<Rightarrow>
           (case apply_create cl obj (ps_world ps) of ((err, obj), w1) \<Rightarrow>
             (let ps1 = set_world w1 (if a_ensure a then ps\<lparr>ps_objs := AList.update k obj (ps_objs ps)\<rparr> else ps);
                  fail = (\<lambda>e ps. (Some (Wrap (failure env ''failed to create'' k g debug @ '': '') e), ps))
              in case err of
                   None \<Rightarrow> (None, ps1)
                 | Some e \<Rightarrow>
                   if IsAlreadyExists err
                   then (case apply_get env cl g (map_of (ps_objs ps1) k) (ok_namespace k) (ok_name k) w1 of
                           (Inl _, w2) \<Rightarrow> fail e (set_world w2 ps1)
                         | (Inr existingObj, w2) \<Rightarrow>
                           (let ps2 = set_world w2 ps1
                            in if gm_str (k_labels existingObj) LabelHash \<noteq> [] \<and>
                                  \<not> isAssigningSubContext existingObj obj \<and>
                                  \<not> isAllowOwnerTransition valid existingObj obj
                               then (Some (Wrap (failure env ''failed to update existing owned object'' k g debug @
                                      '', old subcontext ['' @ gm_str (k_annotations existingObj) LabelSubContext @
                                      ''] gvk ['' @ gm_str (k_annotations existingObj) LabelGVK @
                                      ''] namespace ['' @ gm_str (k_annotations existingObj) LabelNamespace @
                                      ''] name ['' @ gm_str (k_annotations existingObj) LabelName @ '']: '') e), ps2)
                               else (None, ps2
                                 \<lparr>ps_toUpdate := (if should obj AnnotationUpdate
                                                then ps_toUpdate ps2 @ [k] else ps_toUpdate ps2),
                                  ps_existing := AList.update k existingObj (ps_existing ps2)\<rparr>)))
                   else fail e ps1))))"

definition deleteF ::
  "apply_env \<Rightarrow> 'w kclient \<Rightarrow> gostring \<Rightarrow> gvk \<Rightarrow> objkey \<Rightarrow> 'w process_state \<Rightarrow> err option \<times> 'w process_state" where
  "deleteF env cl debug g k ps =
     (case apply_delete cl g (ok_namespace k) (ok_name k) (ps_world ps) of
        (None, w) \<Rightarrow> (None, set_world w ps)
      | (Some e, w) \<Rightarrow> (Some (Wrap (failure env ''failed to delete'' k g debug @ '': '') e), set_world w ps))"

definition updateF ::
  "apply_env \<Rightarrow> apply_cfg \<Rightarrow> 'w kclient \<Rightarrow> gostring \<Rightarrow> gvk \<Rightarrow> objkey \<Rightarrow>
     'w process_state \<Rightarrow> err option \<times> 'w process_state" where
  "updateF env a cl debug g k ps =
     (case (map_of (ps_existing ps) k, map_of (ps_objs ps) k) of
        (Some existing, Some desired) \<Rightarrow>
        (case compareObjects env a cl g existing desired (ps_st ps) of (err, obj, st) \<Rightarrow>
          (let ps1 = ps\<lparr>ps_st := st, ps_objs := AList.update k obj (ps_objs ps)\<rparr>
           in case err of
                None \<Rightarrow> (None, ps1)
              | Some e \<Rightarrow>
                if e = ErrReplace
                then (None,
                      if gm_str (k_annotations obj) AnnotationUpdate = ''true'' \<or>
                         (should existing AnnotationPrune \<and> should existing AnnotationCreate)
                      then ps1\<lparr>ps_toReplace := ps_toReplace ps1 @ [k]\<rparr> else ps1)
                else (Some (Wrap (failure env ''failed to update'' k g debug @ '': '') e), ps1)))
      | _ \<Rightarrow> (Some NilDereference, ps))"

text \<open>The five loops of \<open>process\<close>, each starting where the one before it stopped.\<close>

definition carry_out ::
  "apply_env \<Rightarrow> apply_cfg \<Rightarrow> 'w kclient \<Rightarrow> (gostring, unit) gomap \<Rightarrow> gostring \<Rightarrow> gvk \<Rightarrow>
     objkey list \<Rightarrow> objkey list \<Rightarrow> 'w process_state \<Rightarrow> err option \<times> 'w process_state" where
  "carry_out env a cl valid debug g toCreate toDelete ps =
     (let (errs1, ps1) = run_all (createF env a cl valid debug g) toCreate ps;
          (errs2, ps2) = run_all (updateF env a cl debug g) (ps_toUpdate ps1) ps1;
          (errs3, ps3) = (if a_noPrune a then ([], ps2) else run_all (deleteF env cl debug g) toDelete ps2);
          (errs4, ps4) = run_all (deleteF env cl debug g) (ps_toReplace ps3) ps3;
          (errs5, ps5) = run_all (createF env a cl valid debug g) (ps_toReplace ps4) ps4
      in (NewErrors (errs1 @ errs2 @ errs3 @ errs4 @ errs5), ps5))"

definition desired_objects :: "apply_env \<Rightarrow> apply_cfg \<Rightarrow> gvk \<Rightarrow> objectset \<Rightarrow> err + ObjectByKey" where
  "desired_objects env a g allObjs =
     (let objs = gm_list (ObjectsByGVK (Some allObjs)) g
      in case IsNamespaced env g of
           Inl e \<Rightarrow> Inl e
         | Inr nsed \<Rightarrow>
           (case (if a_owner a \<noteq> None then assignOwnerReference env a g objs else Inr objs) of
              Inl e \<Rightarrow> Inl e
            | Inr objs \<Rightarrow> (if nsed then adjustNamespace a objs else clearNamespace objs)))"

definition process ::
  "apply_env \<Rightarrow> apply_cfg \<Rightarrow> 'w kclient \<Rightarrow> (gostring, unit) gomap \<Rightarrow> gostring \<Rightarrow> label_selector option \<Rightarrow> gvk \<Rightarrow>
     objectset \<Rightarrow> 'w apply_state \<Rightarrow> err option \<times> ObjectByKey \<times> 'w apply_state" where
  "process env a cl valid debug sel g allObjs st =
     (case desired_objects env a g allObjs of
        Inl e \<Rightarrow> (Some e, [], st)
      | Inr objs \<Rightarrow>
        (case list_existing env a cl g sel objs (as_world st) of
           (Inl e, w) \<Rightarrow>
             (Some (Wrap (''failed to list '' @ gvk_String (ae_scheme env) g @ '' for '' @ debug @ '': '') e),
              objs, st\<lparr>as_world := w\<rparr>)
         | (Inr existing, w) \<Rightarrow>
           (let (toCreate, toDelete, toUpdate) = compareSets (ae_codec env) existing objs;
                toDelete = filterCrossVersion a allObjs g toDelete;
                ps = \<lparr>ps_st = st\<lparr>as_world := w\<rparr>, ps_objs = objs, ps_existing = existing,
                      ps_toUpdate = toUpdate, ps_toReplace = []\<rparr>
            in case carry_out env a cl valid debug g toCreate toDelete ps of
                 (err, ps') \<Rightarrow> (err, ps_objs ps', ps_st ps'))))"

section \<open>Entry points\<close>

fun process_all ::
  "(gvk \<Rightarrow> 's \<Rightarrow> err option \<times> 's) \<Rightarrow> gvk list \<Rightarrow> 's \<Rightarrow> err list \<times> 's" where
  "process_all f [] s = ([], s)"
| "process_all f (g # gs) s =
     (case f g s of (e, s1) \<Rightarrow>
       (case process_all f gs s1 of (es, s2) \<Rightarrow>
          (case e of None \<Rightarrow> (es, s2) | Some x \<Rightarrow> (x # es, s2))))"

definition apply_set ::
  "apply_env \<Rightarrow> apply_cfg \<Rightarrow> 'w kclient \<Rightarrow> (gostring, unit) gomap \<Rightarrow> objectset \<Rightarrow> 'w apply_state \<Rightarrow>
     err option \<times> 'w apply_state" where
  "apply_set env a cl valid objs st =
     (let gvkOrder = GVKOrder (ae_scheme env) objs (knownGVK a)
      in case GetLabelsAndAnnotations env (a_ownerSubContext a) (a_owner a) of
           Inl e \<Rightarrow> (Some e, st)
         | Inr (labelSet, annotationSet) \<Rightarrow>
           (case injectLabelsAndAnnotations env objs labelSet annotationSet of
              Inl e \<Rightarrow> (Some e, st)
            | Inr objs \<Rightarrow>
              (case GetSelector env labelSet of
                 Inl e \<Rightarrow> (Some e, st)
               | Inr sel \<Rightarrow>
                 (case process_all (\<lambda>g st. case process env a cl valid (debugID a) sel g objs st of
                           (e, _, st') \<Rightarrow> (e, st')) gvkOrder st of
                    (errs, st') \<Rightarrow> (Errors_Err errs, st')))))"

fun gvks_for :: "kscheme \<Rightarrow> kobject list \<Rightarrow> err + gvk list" where
  "gvks_for sch [] = Inr []"
| "gvks_for sch (ob # obs) =
     (case gvk_for sch ob of
        Inl e \<Rightarrow> Inl e
      | Inr g \<Rightarrow> (case gvks_for sch obs of Inl e \<Rightarrow> Inl e | Inr gs \<Rightarrow> Inr (g # gs)))"

definition Apply ::
  "apply_env \<Rightarrow> apply_cfg \<Rightarrow> 'w kclient \<Rightarrow> (gostring, unit) gomap \<Rightarrow> kobject option \<Rightarrow> kobject option list \<Rightarrow>
     'w apply_state \<Rightarrow> err option \<times> 'w apply_state" where
  "Apply env a cl valid owner objs st =
     (case gvks_for (ae_scheme env) (a_pruneObjects a) of
        Inl e \<Rightarrow> (Some e, st)
      | Inr newPruneGVKs \<Rightarrow>
        (let a = (withPruneGVKs newPruneGVKs a)\<lparr>a_owner := owner\<rparr>
         in case (case owner of None \<Rightarrow> Inr a
                  | Some ob \<Rightarrow> (case gvk_for (ae_scheme env) ob of
                                Inl e \<Rightarrow> Inl e | Inr g \<Rightarrow> Inr (a\<lparr>a_ownerGVK := g\<rparr>))) of
              Inl e \<Rightarrow> (Some e, st)
            | Inr a \<Rightarrow>
              (case NewObjectSet (ae_scheme env) objs of
                 (os, Some e) \<Rightarrow> (Some e, st)
               | (os, None) \<Rightarrow> apply_set env a cl valid os st)))"

definition Ensure ::
  "apply_env \<Rightarrow> apply_cfg \<Rightarrow> 'w kclient \<Rightarrow> (gostring, unit) gomap \<Rightarrow> kobject option list \<Rightarrow>
     'w apply_state \<Rightarrow> err option \<times> 'w apply_state" where
  "Ensure env a cl valid objs st =
     Apply env (a\<lparr>a_ensure := True, a_owner := None, a_ownerSubContext := []\<rparr>) cl valid None objs st"

end
