(* ===== verification/HandlerSet.thy ===== *)
theory HandlerSet
  imports Routes ApplyProcess
begin

text \<open>
  Processing one key: \<open>HandlerSet\<close> of pkg/router/handler.go and \<open>save\<close> of pkg/router/save.go.

  A change of a key goes through \<open>onChange\<close>: the prefix says where it comes from, the limiter may
  put it off, the object is read again, and \<open>handle\<close> runs the handlers, fires the triggers, applies
  what the handlers asked for, stores the status and schedules a retry. The per-key lock is held
  for all of it, so one call of \<open>handle\<close> is one step. The engine of pkg/apply is the
  model of the other theories, on the same world.
\<close>

definition TriggerPrefix :: gostring where "TriggerPrefix = ''_t ''"
definition ReplayPrefix :: gostring where "ReplayPrefix = ''_r ''"

type_synonym 'w error_handler = "request \<Rightarrow> response \<Rightarrow> err option \<Rightarrow> 'w rstate \<Rightarrow> err option \<times> response \<times> 'w rstate"

record 'w handler_set =
  h_name :: gostring
  h_backend :: "'w backend"
  h_handlers :: "'w handler_table"
  h_onError :: "'w error_handler option"
  h_sem_eq :: "json option \<Rightarrow> json option \<Rightarrow> bool"
  h_apply_env :: apply_env
  h_reconcilers :: "(gvk, reconciler) gomap"
  h_validOwnerChange :: "(gostring, unit) gomap"

text \<open>The state of a handler set: what handlers see and the global cache of merge styles.\<close>

record 'w hs_state =
  hs_r :: "'w rstate"
  hs_patchCache :: "(gvk, patchCacheEntry) gomap"

section \<open>Limiting the rate of a key\<close>

record limiterKey =
  lk_key :: gostring
  lk_gvk :: gvk

text \<open>
  \<open>bo_sleepers\<close> are the goroutines that wait for a delay to pass; \<open>new_limiter\<close> and \<open>reserve\<close> are
  golang.org/x/time/rate: a reservation at a time gives a delay and the limiter after it.
\<close>

record 'l backoff =
  bo_limiters :: "(limiterKey, 'l) gomap"
  bo_waiting :: "(limiterKey, unit) gomap"
  bo_sleepers :: "limiterKey list"

definition checkDelay ::
  "'l \<Rightarrow> (int \<Rightarrow> 'l \<Rightarrow> int \<times> 'l) \<Rightarrow> int \<Rightarrow> gvk \<Rightarrow> gostring \<Rightarrow> 'l backoff \<Rightarrow> bool \<times> 'l backoff" where
  "checkDelay new_limiter reserve now g key bo =
     (let lKey = \<lparr>lk_key = key, lk_gvk = g\<rparr>
      in if map_of (bo_waiting bo) lKey \<noteq> None then (False, bo)
         else (let limit = (case map_of (bo_limiters bo) lKey of None \<Rightarrow> new_limiter | Some l \<Rightarrow> l)
               in case reserve now limit of (delay, limit') \<Rightarrow>
                    (let bo1 = bo\<lparr>bo_limiters := AList.update lKey limit' (bo_limiters bo)\<rparr>
                     in if delay > 0
                        then (False, bo1\<lparr>bo_waiting := AList.update lKey () (bo_waiting bo1),
                                       bo_sleepers := bo_sleepers bo1 @ [lKey]\<rparr>)
                        else (True, bo1))))"

text \<open>A sleeper wakes up: the key stops waiting and is triggered as a replay.\<close>

definition wake :: "'w trigger_fn \<Rightarrow> limiterKey \<Rightarrow> 'l backoff \<Rightarrow> 'w \<Rightarrow> 'l backoff \<times> 'w" where
  "wake trig lKey bo w =
     (bo\<lparr>bo_waiting := AList.delete lKey (bo_waiting bo), bo_sleepers := remove1 lKey (bo_sleepers bo)\<rparr>,
      snd (trig (lk_gvk lKey) (ReplayPrefix @ lk_key lKey) 0 w))"

definition forgetBackoff :: "gvk \<Rightarrow> gostring \<Rightarrow> 'l backoff \<Rightarrow> 'l backoff" where
  "forgetBackoff g key bo = bo\<lparr>bo_limiters := AList.delete \<lparr>lk_key = key, lk_gvk = g\<rparr> (bo_limiters bo)\<rparr>"

section \<open>Saving\<close>

text \<open>
  The variable \<open>owner\<close> that the source sets for a deleted object is a new one of the inner block;
  the outer one stays nil, and nil is what is passed on.
\<close>

definition save_owner :: "request \<Rightarrow> 'w rstate \<Rightarrow> kobject option" where
  "save_owner req s = (case rq_object req of None \<Rightarrow> None | Some x \<Rightarrow> Some (deref s x))"

definition save_config :: "'w handler_set \<Rightarrow> response \<Rightarrow> gvk list \<Rightarrow> apply_cfg" where
  "save_config h r watchingGVKS =
     (let a = WithPruneGVKs watchingGVKS (WithOwnerSubContext (h_name h) (NewApply (h_reconcilers h)))
      in if r_noPrune r \<or> length (r_objects r) = 0 \<and> r_delay r > 0 then WithNoPrune a else a)"

definition run_apply ::
  "'w handler_set \<Rightarrow> apply_cfg \<Rightarrow> kobject option \<Rightarrow> oref list \<Rightarrow> 'w hs_state \<Rightarrow> err option \<times> 'w hs_state" where
  "run_apply h a owner objs s =
     (case Apply (h_apply_env h) a (b_client (h_backend h)) (h_validOwnerChange h) owner
             (map (\<lambda>x. Some (deref (hs_r s) x)) objs)
             \<lparr>as_world = rs_world (hs_r s), as_patchCache = hs_patchCache s\<rparr> of
        (e, st) \<Rightarrow> (e, s\<lparr>hs_r := (hs_r s)\<lparr>rs_world := as_world st\<rparr>, hs_patchCache := as_patchCache st\<rparr>))"

text \<open>The status, stored through the backend's own client; it returns the object and the error.\<close>

definition save_status ::
  "'w handler_set \<Rightarrow> oref option \<Rightarrow> request \<Rightarrow> 'w rstate \<Rightarrow> (oref option \<times> err option) \<times> 'w rstate" where
  "save_status h unmodified req s =
     (case rq_object req of None \<Rightarrow> ((None, None), s)
      | Some newRef \<Rightarrow>
        (case unmodified of None \<Rightarrow> ((None, Some NilDereference), s)
         | Some u \<Rightarrow>
           (let update = (\<lambda>s. case run_write (cl_status_update (b_client (h_backend h))) newRef s of
                                (e, s') \<Rightarrow> ((Some newRef, e), s'))
            in if \<not> StatusChanged (h_sem_eq h) (deref s u) (deref s newRef) then ((Some newRef, None), s)
               else if k_generation (deref s u) \<noteq> k_generation (deref s newRef)
               then (case request_Get (h_backend h) req u (k_namespace (deref s u)) (k_name (deref s u)) s of
                       (Some e, s1) \<Rightarrow> ((None, Some e), s1)
                     | (None, s1) \<Rightarrow>
                       if \<not> StatusChanged (h_sem_eq h) (deref s1 u) (deref s1 newRef)
                       then ((Some newRef, None), s1)
                       else update s1)
               else update s)))"

definition save ::
  "'w handler_set \<Rightarrow> oref option \<Rightarrow> request \<Rightarrow> response \<Rightarrow> gvk list \<Rightarrow> 'w hs_state \<Rightarrow>
     (oref option \<times> err option) \<times> 'w hs_state" where
  "save h unmodified req r watchingGVKS s =
     (case run_apply h (save_config h r watchingGVKS) (save_owner req (hs_r s)) (r_objects r) s of
        (Some e, s1) \<Rightarrow> ((None, Some e), s1)
      | (None, s1) \<Rightarrow>
        (case save_status h unmodified req (hs_r s1) of (res, r2) \<Rightarrow> (res, s1\<lparr>hs_r := r2\<rparr>)))"

section \<open>Handling\<close>

definition handleError ::
  "'w handler_set \<Rightarrow> request \<Rightarrow> response \<Rightarrow> err option \<Rightarrow> 'w rstate \<Rightarrow> err option \<times> response \<times> 'w rstate" where
  "handleError h req r err s =
     (case h_onError h of None \<Rightarrow> (err, r, s) | Some f \<Rightarrow> f req r err s)"

text \<open>The namespace and the name of a key.\<close>

definition split_key :: "gostring \<Rightarrow> gostring \<times> gostring" where
  "split_key key = (case str_cut key ''/'' of (ns, name, okay) \<Rightarrow> if okay then (ns, name) else ([], key))"

definition newRequestResponse ::
  "gvk \<Rightarrow> gostring \<Rightarrow> oref option \<Rightarrow> bool \<Rightarrow> 'w rstate \<Rightarrow> request \<times> response \<times> 'w rstate" where
  "newRequestResponse g key obj trigger s =
     (case (case obj of None \<Rightarrow> (None, s)
            | Some x \<Rightarrow> (case alloc (deref s x) s of (y, s1) \<Rightarrow> (Some y, s1))) of
        (copied, s1) \<Rightarrow>
          (case split_key key of (ns, name) \<Rightarrow>
            (\<lparr>rq_object = copied, rq_gvk = g, rq_namespace = ns, rq_name = name, rq_key = key,
              rq_fromTrigger = trigger\<rparr>,
             new_response, s1\<lparr>rs_gvks := []\<rparr>)))"

definition trigger_req_of :: "request \<Rightarrow> 'w rstate \<Rightarrow> trigger_req" where
  "trigger_req_of req s =
     \<lparr>tr_gvk = rq_gvk req, tr_key = rq_key req, tr_namespace = rq_namespace req, tr_name = rq_name req,
      tr_object = map_option (deref s) (rq_object req), tr_fromTrigger = rq_fromTrigger req\<rparr>"

definition fire_triggers :: "'w handler_set \<Rightarrow> bool \<Rightarrow> request \<Rightarrow> 'w rstate \<Rightarrow> 'w rstate" where
  "fire_triggers h deleted req s =
     (let trig = b_trigger (h_backend h); tr = trigger_req_of req s
      in if deleted
         then (case UnregisterAndTrigger trig tr (rs_matchers s) (rs_world s) of
                 (m, w) \<Rightarrow> s\<lparr>rs_matchers := m, rs_world := w\<rparr>)
         else s\<lparr>rs_world := triggers_Trigger trig (rs_matchers s) tr (rs_world s)\<rparr>)"

text \<open>The handlers of the kind, and what the error handler makes of their error.\<close>

definition run_handlers ::
  "'w handler_set \<Rightarrow> request \<Rightarrow> response \<Rightarrow> 'w rstate \<Rightarrow> err option \<times> response \<times> 'w rstate" where
  "run_handlers h req r s =
     (if handlers_Handles (h_handlers h) req
      then (case handlers_Handle (h_handlers h) req r s of
              (None, r1, s1) \<Rightarrow> (None, r1, s1)
            | (Some e, r1, s1) \<Rightarrow> handleError h req r1 (Some e) s1)
      else (None, r, s))"

text \<open>\<open>save\<close> and the retry. The answer is the request's object after it, or the error.\<close>

definition save_and_retry ::
  "'w handler_set \<Rightarrow> oref option \<Rightarrow> request \<Rightarrow> response \<Rightarrow> 'w hs_state \<Rightarrow>
     (err + request \<times> response) \<times> 'w hs_state" where
  "save_and_retry h unmodified req r s =
     (case save h unmodified req r (gm_keys (rs_watching (hs_r s))) s of ((newRef, err), s1) \<Rightarrow>
       (case (case err of None \<Rightarrow> (None, r, hs_r s1) | Some e \<Rightarrow> handleError h req r (Some e) (hs_r s1)) of
          (Some e, r1, s2) \<Rightarrow> (Inl e, s1\<lparr>hs_r := s2\<rparr>)
        | (None, r1, s2) \<Rightarrow>
          (let req1 = req\<lparr>rq_object := newRef\<rparr>
           in if r_delay r1 > 0
              then (case b_trigger (h_backend h) (rq_gvk req) (rq_key req) (r_delay r1) (rs_world s2) of
                      (Some e, w) \<Rightarrow> (Inl e, s1\<lparr>hs_r := s2\<lparr>rs_world := w\<rparr>\<rparr>)
                    | (None, w) \<Rightarrow> (Inr (req1, r1), s1\<lparr>hs_r := s2\<lparr>rs_world := w\<rparr>\<rparr>))
              else (Inr (req1, r1), s1\<lparr>hs_r := s2\<rparr>))))"

definition handle ::
  "'w handler_set \<Rightarrow> gvk \<Rightarrow> gostring \<Rightarrow> oref option \<Rightarrow> bool \<Rightarrow> 'w hs_state \<Rightarrow>
     (oref option \<times> err option) \<times> 'w hs_state" where
  "handle h g key unmodified trigger s =
     (case newRequestResponse g key unmodified trigger (hs_r s) of (req, r, s1) \<Rightarrow>
       (case run_handlers h req r s1 of
          (Some e, _, s2) \<Rightarrow> ((None, Some e), s\<lparr>hs_r := s2\<rparr>)
        | (None, r1, s2) \<Rightarrow>
          (let s3 = s\<lparr>hs_r := fire_triggers h (unmodified = None) req s2\<rparr>
           in case (if handlers_Handles (h_handlers h) req then save_and_retry h unmodified req r1 s3
                    else (Inr (req, r1), s3)) of
                (Inl e, s4) \<Rightarrow> ((None, Some e), s4)
              | (Inr (req1, r2), s4) \<Rightarrow>
                (case handleError h req1 r2 None (hs_r s4) of
                   (err, _, s5) \<Rightarrow> ((rq_object req1, err), s4\<lparr>hs_r := s5\<rparr>)))))"

section \<open>Changes\<close>

text \<open>The prefixes of a key: whether it is a trigger, whether it is a replay, and the key.\<close>

definition parse_key :: "gostring \<Rightarrow> bool \<times> bool \<times> gostring" where
  "parse_key key =
     (let (fromTrigger, key) =
            (if has_prefix key TriggerPrefix then (True, trim_prefix key TriggerPrefix) else (False, key))
      in if has_prefix key ReplayPrefix then (False, True, trim_prefix key ReplayPrefix)
         else (fromTrigger, False, key))"

text \<open>The object is read again; a missing one leaves what the caller passed.\<close>

definition refresh ::
  "'w handler_set \<Rightarrow> gvk \<Rightarrow> gostring \<Rightarrow> oref option \<Rightarrow> 'w rstate \<Rightarrow> (err + oref option) \<times> 'w rstate" where
  "refresh h g key obj s =
     (case scheme_new (b_scheme (h_backend h)) g of
        NotRegistered \<Rightarrow> (Inl (Plain ''no kind is registered''), s)
      | NewFailed e \<Rightarrow> (Inl e, s)
      | NewObject ob \<Rightarrow>
        (case alloc ob s of (x, s1) \<Rightarrow>
          (case split_key key of (ns, name) \<Rightarrow>
            (case run_get (h_backend h) ns name x s1 of
               (None, s2) \<Rightarrow> (Inr (Some x), s2)
             | (Some e, s2) \<Rightarrow> if \<not> IsNotFound (Some e) then (Inl e, s2) else (Inr obj, s2)))))"

definition onChange ::
  "'l \<Rightarrow> (int \<Rightarrow> 'l \<Rightarrow> int \<times> 'l) \<Rightarrow> int \<Rightarrow> 'w handler_set \<Rightarrow> gvk \<Rightarrow> gostring \<Rightarrow> oref option \<Rightarrow>
     'l backoff \<times> 'w hs_state \<Rightarrow> (oref option \<times> err option) \<times> 'l backoff \<times> 'w hs_state" where
  "onChange new_limiter reserve now h g rawKey obj = (\<lambda>(bo, s).
     (case parse_key rawKey of (fromTrigger, fromReplay, key) \<Rightarrow>
       (case (if \<not> fromReplay \<and> \<not> fromTrigger then checkDelay new_limiter reserve now g key bo else (True, bo)) of
          (False, bo1) \<Rightarrow> ((obj, None), bo1, s)
        | (True, bo1) \<Rightarrow>
          (case refresh h g key obj (hs_r s) of
             (Inl e, s1) \<Rightarrow> ((None, Some e), bo1, s\<lparr>hs_r := s1\<rparr>)
           | (Inr obj', s1) \<Rightarrow>
             (let bo2 = (if obj' = None then forgetBackoff g key bo1 else bo1)
              in case handle h g key obj' fromTrigger (s\<lparr>hs_r := s1\<rparr>) of (res, s2) \<Rightarrow> (res, bo2, s2))))))"

text \<open>\<open>Start\<close> watches the kinds that have handlers and starts the backend.\<close>

definition HandlerSet_Start ::
  "('w \<Rightarrow> err option \<times> 'w) \<Rightarrow> 'w handler_set \<Rightarrow> 'w rstate \<Rightarrow> err option \<times> 'w rstate" where
  "HandlerSet_Start start h s =
     (case WatchGVK (h_backend h) (handlers_GVKs (h_handlers h)) s of
        (Some e, s1) \<Rightarrow> (Some e, s1)
      | (None, s1) \<Rightarrow> (case start (rs_world s1) of (e, w) \<Rightarrow> (e, s1\<lparr>rs_world := w\<rparr>)))"

end
