(* ===== verification/TriggerProperties.thy ===== *)
theory TriggerProperties
  imports Handlers
begin

text \<open>
  What the triggers guarantee: a watch that was registered fires when a matching object changes,
  for any client call of a handler; and deleting an object removes it from the table on both
  sides and wakes exactly those that were watching it.
\<close>

section \<open>A registered watch fires\<close>

text \<open>
  A matcher that is already there counts as registered when the selectors print the same. That
  is sound when selectors that print the same match the same objects.
\<close>

definition text_decides :: "objectMatcher list \<Rightarrow> objectMatcher \<Rightarrow> bool" where
  "text_decides mts mr \<longleftrightarrow>
     (\<forall>x \<in> set mts. matcher_Equals x mr \<longrightarrow> matcher_Match x = matcher_Match mr)"

lemma text_decides_plain:
  assumes "om_selector mr = None" and "om_fields mr = None"
  shows "text_decides mts mr"
proof -
  have "matcher_Equals x mr \<Longrightarrow> om_selector x = None \<and> om_fields x = None \<and>
      om_name x = om_name mr \<and> om_namespace x = om_namespace mr" for x
    using assms by (auto simp: matcher_Equals_iff)
  then show ?thesis
    unfolding text_decides_def using assms by (auto simp: matcher_Match_iff fun_eq_iff)
qed

lemma fired_registered:
  assumes ok: "nm_ok m" and td: "text_decides (watchers m t \<lparr>et_key = key, et_gvk = g\<rparr>) mr"
    and req: "tr_gvk req = t" and mt: "matcher_Match mr (tr_namespace req) (tr_name req) (tr_object req)"
    and other: "(g, key) \<noteq> (tr_gvk req, tr_key req)"
  shows "\<lparr>et_key = key, et_gvk = g\<rparr> \<in> set (fired (triggers_register g key t mr m) req)"
proof -
  let ?target = "\<lparr>et_key = key, et_gvk = g\<rparr>"
  obtain x where x: "x \<in> set (watchers (triggers_register g key t mr m) t ?target)" "matcher_Equals x mr"
    using register_has by blast
  have "matcher_Match x = matcher_Match mr"
    using x td by (auto simp: watchers_register text_decides_def split: if_splits)
  with x(1) mt req have "\<exists>y \<in> set (watchers (triggers_register g key t mr m) (tr_gvk req) ?target).
      matcher_Match y (tr_namespace req) (tr_name req) (tr_object req)"
    by (intro bexI [of _ x]) simp_all
  with other show ?thesis
    unfolding fired_iff [OF triggers_register_ok [OF ok]] by auto
qed

text \<open>A registered watch fires. After \<open>register\<close>, a change of an object that the matcher
  matches enqueues the registering key, once, along with the others; a key never enqueues itself,
  and an event that is itself a trigger enqueues nothing.\<close>

theorem register_fires:
  assumes "nm_ok m" and "text_decides (watchers m (tr_gvk req) \<lparr>et_key = key, et_gvk = g\<rparr>) mr"
    and "matcher_Match mr (tr_namespace req) (tr_name req) (tr_object req)"
    and "(g, key) \<noteq> (tr_gvk req, tr_key req)"
  shows "\<exists>ts. distinct ts \<and> \<lparr>et_key = key, et_gvk = g\<rparr> \<in> set ts \<and>
    \<lparr>et_key = tr_key req, et_gvk = tr_gvk req\<rparr> \<notin> set ts \<and>
    triggers_Trigger trig (triggers_register g key (tr_gvk req) mr m) req w =
      (if tr_fromTrigger req then w else fold (fire trig) ts w)"
proof (intro exI conjI)
  let ?m = "triggers_register g key (tr_gvk req) mr m"
  have ok: "nm_ok ?m" using assms(1) by (rule triggers_register_ok)
  then show "distinct (fired ?m req)" by (rule distinct_fired)
  show "\<lparr>et_key = key, et_gvk = g\<rparr> \<in> set (fired ?m req)"
    by (rule fired_registered [OF assms(1,2) refl assms(3,4)])
  show "\<lparr>et_key = tr_key req, et_gvk = tr_gvk req\<rparr> \<notin> set (fired ?m req)"
    by (simp add: fired_iff [OF ok])
  show "triggers_Trigger trig ?m req w = (if tr_fromTrigger req then w else fold (fire trig) (fired ?m req) w)"
    by (simp add: triggers_Trigger_def invokeTriggers_fired)
qed

definition ex_cm :: gvk where "ex_cm = GVK [] ''v1'' ''ConfigMap''"

definition ex_event :: trigger_req where
  "ex_event = \<lparr>tr_gvk = ex_cm, tr_key = ''ns/cm'', tr_namespace = ''ns'', tr_name = ''cm'', tr_object = None,
     tr_fromTrigger = False\<rparr>"

definition ex_name_matcher :: objectMatcher where
  "ex_name_matcher = \<lparr>om_namespace = ''ns'', om_name = ''cm'', om_selector = None, om_fields = None\<rparr>"

definition ex_trig :: "(gvk \<times> gostring) list trigger_fn" where
  "ex_trig = (\<lambda>g k d w. (None, w @ [(g, k)]))"

lemma register_fires_witness:
  "\<exists>ts. \<lparr>et_key = ''app'', et_gvk = ex_cm\<rparr> \<in> set ts \<and>
     triggers_Trigger ex_trig (triggers_register ex_cm ''app'' ex_cm ex_name_matcher []) ex_event [] =
       fold (fire ex_trig) ts []"
proof -
  have "text_decides (watchers [] (tr_gvk ex_event) \<lparr>et_key = ''app'', et_gvk = ex_cm\<rparr>) ex_name_matcher"
    by (rule text_decides_plain) (simp_all add: ex_name_matcher_def)
  from register_fires [OF nm_ok_Nil this, of ex_trig "[]"] show ?thesis
    by (simp add: ex_event_def ex_name_matcher_def matcher_Match_def) blast
qed

section \<open>What a handler read wakes it up\<close>

lemma watch_each_matchers [simp]: "rs_matchers (snd (watch_each b gs s)) = rs_matchers s"
  by (induction b gs s rule: watch_each.induct) (auto split: prod.splits option.splits)

lemma WatchGVK_matchers: "WatchGVK b gs s = (e, s') \<Longrightarrow> rs_matchers s' = rs_matchers s"
  using watch_each_matchers [of b gs s] by (cases "watch_each b gs s") (simp add: WatchGVK_def)

lemma registry_Watch_direct:
  assumes "registry_Watch b g key (Direct ob) ns name sel fsel s = (None, s')"
  obtains t where "gvk_for (b_scheme b) ob = Inr t"
    and "rs_matchers s' = triggers_register g key t
           \<lparr>om_namespace = ns, om_name = name, om_selector = sel, om_fields = fsel\<rparr> (rs_matchers s)"
  using assms
  by (auto simp: registry_Watch_def triggers_Register_def Let_def dest: WatchGVK_matchers
      split: sum.splits prod.splits option.splits if_splits)

lemma run_get_matchers [simp]: "rs_matchers (snd (run_get b ns name x s)) = rs_matchers s"
  by (auto simp: run_get_def assign_def split: prod.splits sum.splits)

text \<open>What a handler read wakes it up. When a handler's \<open>Get\<close> was sent (it answered without an
  error), a later change of the object it asked for, named by kind, namespace and name, enqueues the
  key that was being handled; so an object that did not exist when it was asked for is noticed when it
  appears.\<close>

theorem reader_Get_wakes:
  assumes "nm_ok (rs_matchers s)" and "reader_Get b req ns name x s = (None, s')" and "name \<noteq> []"
    and "gvk_for (b_scheme b) (deref s x) = Inr t"
    and "tr_gvk ev = t" and "tr_namespace ev = ns" and "tr_name ev = name"
    and "(rq_gvk req, rq_key req) \<noteq> (t, tr_key ev)"
  shows "\<lparr>et_key = rq_key req, et_gvk = rq_gvk req\<rparr> \<in> set (fired (rs_matchers s') ev)"
proof -
  let ?mr = "\<lparr>om_namespace = ns, om_name = name, om_selector = None, om_fields = None\<rparr>"
  from assms(2) obtain s1 where w: "registry_Watch b (rq_gvk req) (rq_key req) (Direct (deref s x)) ns name None None s = (None, s1)"
    and g: "run_get b ns name x s1 = (None, s')"
    by (auto simp: reader_Get_def tracked_def split: prod.splits option.splits)
  from registry_Watch_direct [OF w] assms(4)
  have m1: "rs_matchers s1 = triggers_register (rq_gvk req) (rq_key req) t ?mr (rs_matchers s)"
    by (metis sum.inject(2))
  have "rs_matchers s' = rs_matchers s1" using run_get_matchers [of b ns name x s1] g by simp
  moreover have "\<lparr>et_key = rq_key req, et_gvk = rq_gvk req\<rparr> \<in>
      set (fired (triggers_register (rq_gvk req) (rq_key req) t ?mr (rs_matchers s)) ev)"
  proof (rule fired_registered [OF assms(1) _ assms(5)])
    show "text_decides (watchers (rs_matchers s) t \<lparr>et_key = rq_key req, et_gvk = rq_gvk req\<rparr>) ?mr"
      by (rule text_decides_plain) simp_all
    show "matcher_Match ?mr (tr_namespace ev) (tr_name ev) (tr_object ev)"
      using assms(3,6,7) by (simp add: matcher_Match_def)
    show "(rq_gvk req, rq_key req) \<noteq> (tr_gvk ev, tr_key ev)" using assms(5,8) by simp
  qed
  ultimately show ?thesis using m1 by simp
qed

definition ex_kscheme :: kscheme where
  "ex_kscheme = \<lparr>gvk_for = (\<lambda>ob. Inr (k_gvk ob)), gvk_String = gvk_kind, gv_String = gvk_version,
     rest_scope = (\<lambda>g. Inr NamespaceScope), scheme_new = (\<lambda>g. NewObject (zero_object ''t'' g))\<rparr>"

text \<open>A backend whose client holds one object and whose world is the list of keys it enqueued.\<close>

definition ex_kclient :: "(gvk \<times> gostring) list kclient" where
  "ex_kclient = \<lparr>cl_get = (\<lambda>ob ns nm w. (Inr (ob\<lparr>k_namespace := ns, k_name := nm\<rparr>), w)),
     cl_list = (\<lambda>g ns sel w. (Inr [], w)), cl_create = (\<lambda>ob w. ((None, ob), w)),
     cl_update = (\<lambda>ob w. ((None, ob), w)), cl_status_update = (\<lambda>ob w. ((None, ob), w)),
     cl_delete = (\<lambda>ob w. (None, w)), cl_patch = (\<lambda>ob ty p w. ((None, ob), w))\<rparr>"

definition ex_backend :: "(gvk \<times> gostring) list backend" where
  "ex_backend = \<lparr>b_scheme = ex_kscheme, b_watch = (\<lambda>g w. (None, w)), b_trigger = ex_trig, b_client = ex_kclient\<rparr>"

definition ex_rstate :: "(gvk \<times> gostring) list rstate" where
  "ex_rstate = \<lparr>rs_heap = (\<lambda>x. zero_object ''t'' ex_cm), rs_next = 1, rs_matchers = [], rs_gvks = [],
     rs_watching = [], rs_world = []\<rparr>"

definition ex_request :: request where
  "ex_request = \<lparr>rq_object = Some 0, rq_gvk = ex_cm, rq_namespace = ''ns'', rq_name = ''app'', rq_key = ''ns/app'',
     rq_fromTrigger = False\<rparr>"

lemma reader_Get_wakes_witness:
  "\<exists>s'. reader_Get ex_backend ex_request ''ns'' ''cm'' 0 ex_rstate = (None, s') \<and>
     \<lparr>et_key = ''ns/app'', et_gvk = ex_cm\<rparr> \<in> set (fired (rs_matchers s') ex_event)"
proof -
  have ok: "nm_ok (rs_matchers ex_rstate)" by (simp add: ex_rstate_def)
  have "fst (reader_Get ex_backend ex_request ''ns'' ''cm'' 0 ex_rstate) = None"
    by (simp add: reader_Get_def tracked_def registry_Watch_def triggers_Register_def WatchGVK_def
        ex_backend_def ex_kscheme_def ex_kclient_def ex_rstate_def run_get_def Let_def gm_bool_def)
  then obtain s' where g: "reader_Get ex_backend ex_request ''ns'' ''cm'' 0 ex_rstate = (None, s')"
    by (metis prod.collapse)
  have t: "gvk_for (b_scheme ex_backend) (deref ex_rstate 0) = Inr ex_cm"
    by (simp add: ex_backend_def ex_kscheme_def ex_rstate_def deref_def zero_object_def)
  from reader_Get_wakes [OF ok g _ t, of ex_event] g show ?thesis
    by (simp add: ex_event_def ex_request_def)
qed

section \<open>Deletion\<close>

text \<open>C18: Deleting an object cleans the table and wakes its watchers. Afterwards no watch is left
  for the deleted key as a target, nor one that names exactly the deleted object; every other watch is
  kept, in order; and the keys enqueued are exactly the other targets with a matcher that matches
  the deleted object.\<close>

theorem UnregisterAndTrigger_sound:
  assumes "nm_ok m" and "UnregisterAndTrigger trig req m w = (m', w')"
  shows "nm_ok m' \<and>
    (\<forall>g t. watchers m' g t =
       (if t = \<lparr>et_key = tr_key req, et_gvk = tr_gvk req\<rparr> then []
        else filter (\<lambda>mt. \<not> (g = tr_gvk req \<and> om_namespace mt = tr_namespace req \<and> om_name mt = tr_name req))
               (watchers m g t))) \<and>
    (\<exists>ts. w' = fold (fire trig) ts w \<and>
       set ts = {t. t \<noteq> \<lparr>et_key = tr_key req, et_gvk = tr_gvk req\<rparr> \<and>
         (\<exists>mt \<in> set (watchers m (tr_gvk req) t). matcher_Match mt (tr_namespace req) (tr_name req) (tr_object req))})"
proof -
  have self: "is_self req t \<longleftrightarrow> t = \<lparr>et_key = tr_key req, et_gvk = tr_gvk req\<rparr>" for t
    by (cases t) (auto simp: is_self_def)
  obtain ts where "w' = fold (fire trig) ts w"
    "set ts = {t. \<not> is_self req t \<and> (\<exists>mt \<in> set (watchers m (tr_gvk req) t).
           matcher_Match mt (tr_namespace req) (tr_name req) (tr_object req))}"
    by (rule Unregister_fires [OF assms])
  with Unregister_watchers [OF assms] show ?thesis
    unfolding self exact_match_def by blast
qed

lemma UnregisterAndTrigger_sound_witness:
  "\<exists>m' w'. UnregisterAndTrigger ex_trig ex_event (triggers_register ex_cm ''app'' ex_cm ex_name_matcher []) [] = (m', w') \<and>
     watchers m' ex_cm \<lparr>et_key = ''app'', et_gvk = ex_cm\<rparr> = []"
proof -
  let ?m = "triggers_register ex_cm ''app'' ex_cm ex_name_matcher []"
  obtain m' w' where u: "UnregisterAndTrigger ex_trig ex_event ?m [] = (m', w')" by fastforce
  have "watchers ?m ex_cm \<lparr>et_key = ''app'', et_gvk = ex_cm\<rparr> = [ex_name_matcher]"
    by (simp add: watchers_register) (simp add: watchers_def gm_list_def)
  with u UnregisterAndTrigger_sound [OF triggers_register_ok [OF nm_ok_Nil] u] show ?thesis
    by (simp add: ex_event_def ex_name_matcher_def)
qed

end
