(* ===== verification/RouteProperties.thy ===== *)
theory RouteProperties
  imports Routes TriggerProperties
begin

text \<open>
  What a route guarantees: which requests reach its handler, that every handler of a kind is run and
  every error reported, and when a finalizer is added and removed. The filters come in through their
  interpretations of \<open>handler_filter\<close>.
\<close>

section \<open>Which requests reach a handler\<close>

text \<open>The requests a route accepts, and the handler inside its filters.\<close>

definition route_accepts :: "'w route_builder \<Rightarrow> request \<Rightarrow> 'w rstate \<Rightarrow> bool" where
  "route_accepts r req s \<longleftrightarrow>
     (rb_name r = [] \<or> rq_name req = rb_name r) \<and>
     (rb_namespace r = [] \<or> rq_namespace req = rb_namespace r) \<and>
     (\<forall>sel. rb_sel r = Some sel \<longrightarrow> selected sel req s) \<and>
     (\<forall>sel. rb_fieldSelector r = Some sel \<longrightarrow> field_selected sel req s) \<and>
     (rb_includeRemove r \<or> rb_finalizeID r \<noteq> [] \<or>
      (if rb_includeFinalizing r then has_object req s else is_live req s))"

definition route_core ::
  "'w backend \<Rightarrow> (json option \<Rightarrow> json option \<Rightarrow> bool) \<Rightarrow> 'w route_builder \<Rightarrow> 'w handler \<Rightarrow> 'w handler" where
  "route_core b sem_eq r h =
     foldr (\<lambda>m h. m h) (rb_middleware r)
       (if rb_finalizeID r \<noteq> [] then FinalizerHandler b sem_eq (rb_finalizeID r) h else h)"

lemma in_scope_trivial: "in_scope [] [] req s"
  by (simp add: in_scope_def)

lemma route_filters:
  "route_handler b sem_eq callerName r h req p s =
     (let routeName = (if rb_routeName r = [] then callerName else rb_routeName r);
          inner = (if route_accepts r req s then route_core b sem_eq r h req p s else (None, p, s))
      in if routeName = [] then inner
         else (case inner of (e, q, s') \<Rightarrow> (map_option (PrefixError (''['' @ routeName @ ''] '')) e, q, s')))"
proof -
  define core where "core = route_core b sem_eq r h"
  define f1 where "f1 = (if rb_name r \<noteq> [] \<or> rb_namespace r \<noteq> []
     then NameNamespaceFilter (rb_name r) (rb_namespace r) core else core)"
  define f2 where "f2 = (case rb_sel r of None \<Rightarrow> f1 | Some sel \<Rightarrow> SelectorFilter sel f1)"
  define f3 where "f3 = (case rb_fieldSelector r of None \<Rightarrow> f2 | Some sel \<Rightarrow> FieldSelectorFilter sel f2)"
  define f4 where "f4 = (if rb_includeFinalizing r \<and> \<not> rb_includeRemove r \<and> rb_finalizeID r = []
     then IgnoreNilHandler f3 else f3)"
  define f5 where "f5 = (if \<not> rb_includeRemove r \<and> \<not> rb_includeFinalizing r \<and> rb_finalizeID r = []
     then IgnoreRemoveHandler f4 else f4)"
  have e1: "f1 req p s = (if in_scope (rb_name r) (rb_namespace r) req s then core req p s else (None, p, s))"
    unfolding f1_def name_filter.wrap_optional using in_scope_trivial by auto
  have e2: "f2 req p s = (if \<forall>sel. rb_sel r = Some sel \<longrightarrow> selected sel req s then f1 req p s else (None, p, s))"
    by (simp add: f2_def selector_filter.wrap_eq split: option.split)
  have e3: "f3 req p s = (if \<forall>sel. rb_fieldSelector r = Some sel \<longrightarrow> field_selected sel req s
      then f2 req p s else (None, p, s))"
    by (simp add: f3_def field_filter.wrap_eq split: option.split)
  have e4: "f4 req p s = (if rb_includeFinalizing r \<and> \<not> rb_includeRemove r \<and> rb_finalizeID r = [] \<longrightarrow> has_object req s
      then f3 req p s else (None, p, s))"
    unfolding f4_def by (rule ignore_nil.wrap_optional)
  have e5: "f5 req p s = (if \<not> rb_includeRemove r \<and> \<not> rb_includeFinalizing r \<and> rb_finalizeID r = [] \<longrightarrow> is_live req s
      then f4 req p s else (None, p, s))"
    unfolding f5_def by (rule ignore_remove.wrap_optional)
  have inner: "f5 req p s = (if route_accepts r req s then core req p s else (None, p, s))"
    unfolding e5 e4 e3 e2 e1 by (auto simp: route_accepts_def in_scope_def)
  have "route_handler b sem_eq callerName r h =
      (let routeName = (if rb_routeName r = [] then callerName else rb_routeName r)
       in if routeName \<noteq> [] then ErrorPrefix (''['' @ routeName @ ''] '') f5 else f5)"
    unfolding route_handler_def Let_def f5_def f4_def f3_def f2_def f1_def core_def route_core_def ..
  then show ?thesis
    unfolding Let_def core_def [symmetric] inner [symmetric]
    by (auto simp: ErrorPrefix_def split: prod.split option.split)
qed

text \<open>C13: A route runs its handler for exactly the requests it was built for. A request reaches the
  middleware and the handler when its name and namespace, the labels and the fields of its object match
  what was asked for, and, unless removed objects are included or the route is a finalizer, its
  object exists and (unless finalizing objects are included) is not being deleted; any other request is
  answered nil and changes nothing. Errors are reported with the name of the route.\<close>

theorem route_handler_runs:
  "route_handler b sem_eq callerName r h req p s =
     (let routeName = (if rb_routeName r = [] then callerName else rb_routeName r)
      in if \<not> route_accepts r req s then (None, p, s)
         else (case route_core b sem_eq r h req p s of (e, q, s') \<Rightarrow>
                (if routeName = [] then e else map_option (PrefixError (''['' @ routeName @ ''] '')) e, q, s')))"
  unfolding route_filters by (simp add: Let_def split: prod.split)

section \<open>All handlers of a kind\<close>

text \<open>The errors of the handlers, each run where the one before it stopped.\<close>

lemma handle_each_length: "handle_each hs req r s = (errs, r', s') \<Longrightarrow> length errs = length hs"
proof (induction hs arbitrary: req r s errs r' s')
  case (Cons h hs)
  then show ?case by (auto split: prod.splits)
qed simp

lemma handlers_Handle_errors:
  assumes "handle_each (gm_list t (rq_gvk req)) req r s = (errs, r', s')"
  shows "handlers_Handle t req r s = (NewErrors errs, r', s')"
  using assms by (simp add: handlers_Handle_def)

text \<open>A failing handler does not keep the others from running, and no error is lost. \<open>Handle\<close>
  runs every handler registered for the kind, each from where the one before it stopped; it answers nil
  exactly when all of them did; and every error one of them answered can be found in the answer.\<close>

theorem handlers_Handle_all:
  assumes "handle_each (gm_list t (rq_gvk req)) req r s = (errs, r', s')"
  shows "length errs = length (gm_list t (rq_gvk req)) \<and>
    (fst (handlers_Handle t req r s) = None \<longleftrightarrow> (\<forall>e \<in> set errs. e = None)) \<and>
    (\<forall>e. Some e \<in> set errs \<longrightarrow> (\<exists>x. fst (handlers_Handle t req r s) = Some x \<and> errors_is x e))"
  unfolding handlers_Handle_errors [OF assms] fst_conv
  using handle_each_length [OF assms] NewErrors_None_iff NewErrors_is by blast

definition ex_fail :: "gostring \<Rightarrow> 'w handler" where
  "ex_fail m req p s = (Some (Plain m), p, s)"

lemma handlers_Handle_all_witness:
  "fst (handlers_Handle (AddHandler ex_cm (ex_fail ''b'') (AddHandler ex_cm (ex_fail ''a'') []))
      ex_request new_response ex_rstate) \<noteq> None"
proof -
  let ?t = "AddHandler ex_cm (ex_fail ''b'') (AddHandler ex_cm (ex_fail ''a'') [])"
  obtain errs r' s' where h: "handle_each (gm_list ?t (rq_gvk ex_request)) ex_request new_response ex_rstate = (errs, r', s')"
    by (metis prod_cases3)
  have "errs = [Some (Plain ''a''), Some (Plain ''b'')]"
    using h by (simp add: AddHandler_def gm_list_def ex_request_def ex_fail_def take_request_object_def
        new_response_def)
  with handlers_Handle_all [OF h] show ?thesis by auto
qed

section \<open>Finalizers\<close>

text \<open>The same backend with another answer to \<open>Update\<close>.\<close>

definition with_update :: "(kobject \<Rightarrow> 'w kwrite) \<Rightarrow> 'w backend \<Rightarrow> 'w backend" where
  "with_update u b = b\<lparr>b_client := (b_client b)\<lparr>cl_update := u\<rparr>\<rparr>"

lemma with_update_watch_each [simp]: "watch_each (with_update u b) gs s = watch_each b gs s"
  by (induction b gs s rule: watch_each.induct) (simp_all add: with_update_def split: option.split prod.split)

lemma with_update_fields [simp]:
  "b_scheme (with_update u b) = b_scheme b" "b_watch (with_update u b) = b_watch b"
  "cl_status_update (b_client (with_update u b)) = cl_status_update (b_client b)"
  by (simp_all add: with_update_def)

lemma with_update_WatchGVK [simp]: "WatchGVK (with_update u b) = WatchGVK b"
  by (simp add: WatchGVK_def fun_eq_iff)

lemma with_update_Watch [simp]: "registry_Watch (with_update u b) = registry_Watch b"
  by (simp add: registry_Watch_def fun_eq_iff)

lemma with_update_response_Objects [simp]:
  "response_Objects (with_update u b) g key xs (r, s) = response_Objects b g key xs (r, s)"
  by (induction xs arbitrary: r s) (simp_all split: prod.split)

lemma with_update_resp_Objects [simp]: "resp_Objects (with_update u b) req xs p s = resp_Objects b req xs p s"
  by (cases p) (simp_all add: resp_Objects_def)

lemma with_update_status [simp]: "status_Update (with_update u b) req x s = status_Update b req x s"
  by (simp add: status_Update_def track_object_def tracked_def)

lemma with_update_objects [simp]:
  "finalizer_objects (with_update u b) req xs x p s = finalizer_objects b req xs x p s"
  by (induction xs arbitrary: x p s) (simp_all add: Let_def split: prod.split)

text \<open>C20: A finalizer is only ever updated for a reason. While an object is not being deleted and
  carries the finalizer, while it is being deleted and another finalizer comes first, when the next
  handler answers an error, and when it asks for a retry, \<open>FinalizerHandler\<close> sends no update: its
  answer and effect are the same whatever \<open>Update\<close> would do. In particular the finalizer is not removed
  before the clean-up has succeeded and is complete.\<close>

theorem finalizer_update_guarded:
  assumes "rq_object req = Some x" and "deref s x = ob"
    and "k_deletionTimestamp ob = None \<and> fid \<in> set (k_finalizers ob) \<or>
      k_deletionTimestamp ob \<noteq> None \<and>
        (k_finalizers ob = [] \<or> hd (k_finalizers ob) \<noteq> fid \<or>
         (\<forall>e q s'. next (req\<lparr>rq_object := Some (rs_next s)\<rparr>) (Wrapper new_wrapper) (snd (alloc ob s)) = (e, q, s') \<longrightarrow>
            e \<noteq> None \<or> rw_Delay (wrapper_of q) \<noteq> 0))"
  shows "FinalizerHandler (with_update u b) sem_eq fid next req p s = FinalizerHandler b sem_eq fid next req p s"
proof (cases "k_deletionTimestamp ob = None \<or> k_finalizers ob = [] \<or> hd (k_finalizers ob) \<noteq> fid")
  case True
  with assms show ?thesis by (auto simp: FinalizerHandler_def)
next
  case False
  obtain e q s' where n: "next (req\<lparr>rq_object := Some (rs_next s)\<rparr>) (Wrapper new_wrapper) (snd (alloc ob s)) = (e, q, s')"
    by (metis prod_cases3)
  have al: "alloc ob s = (rs_next s, snd (alloc ob s))" by (simp add: alloc_def)
  have "e \<noteq> None \<or> rw_Delay (wrapper_of q) \<noteq> 0" using assms(3) False n by blast
  then have fin: "finalizer_finish (with_update u b) sem_eq fid r x y (wrapper_of q) p s' =
      finalizer_finish b sem_eq fid r x y (wrapper_of q) p s'" if "e = None" for r x y
    using that by (simp add: finalizer_finish_def Let_def split: prod.split option.split)
  have c: "k_deletionTimestamp ob = None \<longleftrightarrow> False" "k_finalizers ob = [] \<or> hd (k_finalizers ob) \<noteq> fid \<longleftrightarrow> False"
    using False by simp_all
  show ?thesis
    unfolding FinalizerHandler_def assms(1,2) option.case c if_False
    by (subst (1 2) al) (simp add: Let_def n fin split: option.split)
qed

definition ex_dying :: "(gvk \<times> gostring) list rstate" where
  "ex_dying = ex_rstate\<lparr>rs_heap := (\<lambda>x. (zero_object ''t'' ex_cm)
     \<lparr>k_deletionTimestamp := Some 1, k_finalizers := [''f'']\<rparr>)\<rparr>"

definition ex_update :: "kobject \<Rightarrow> (gvk \<times> gostring) list kwrite" where
  "ex_update ob w = ((Some (Plain ''no''), ob), (ex_cm, k_name ob) # w)"

lemma finalizer_update_guarded_witness:
  "FinalizerHandler (with_update ex_update ex_backend) (=) ''f'' (ex_fail ''busy'') ex_request (Resp new_response) ex_dying =
   FinalizerHandler ex_backend (=) ''f'' (ex_fail ''busy'') ex_request (Resp new_response) ex_dying"
  by (rule finalizer_update_guarded [where x = 0 and ob = "deref ex_dying 0"])
    (simp_all add: ex_request_def ex_dying_def deref_def ex_fail_def)

end
