(* ===== verification/ApplyExample.thy ===== *)
theory ApplyExample
  imports ApplyProcess
begin

text \<open>
  A small concrete environment on which the hypotheses of the theorems about the apply engine
  can be seen to hold: kinds are read off the objects, \<open>Node\<close> is the only cluster-wide kind,
  kinds print the way apimachinery prints them, the codecs are the identity on texts, and the
  cluster is a map from keys to the objects of one kind that records the deletions.
\<close>

definition ex_gvk_String :: "gvk \<Rightarrow> gostring" where
  "ex_gvk_String g = gvk_group g @ ''/'' @ gvk_version g @ '', Kind='' @ gvk_kind g"

definition ex_scheme :: kscheme where
  "ex_scheme =
     \<lparr>gvk_for = (\<lambda>ob. Inr (k_gvk ob)), gvk_String = ex_gvk_String,
      gv_String = (\<lambda>g. gvk_group g @ ''/'' @ gvk_version g),
      rest_scope = (\<lambda>g. Inr (if gvk_kind g = ''Node'' then RootScope else NamespaceScope)),
      scheme_new = (\<lambda>g. NotRegistered)\<rparr>"

fun ex_marshal :: "jmap \<Rightarrow> gostring" where
  "ex_marshal [] = ''{}''"
| "ex_marshal ((k, v) # m) = CHR ''{'' # k"

definition ex_codec :: codec where
  "ex_codec =
     \<lparr>marshal_map = ex_marshal, unmarshal_map = (\<lambda>s. Inr (if s = ''{}'' then [] else [(tl s, JNull)])),
      gzip_bytes = Some, gunzip_bytes = Some,
      b64_encode = (\<lambda>s. CHR ''Z'' # s), b64_decode = (\<lambda>s. Some (tl s)),
      sha256_hex = (\<lambda>s. take 8 s @ replicate 8 (CHR ''0'')), sha1_hex = (\<lambda>s. s)\<rparr>"

definition ex_env :: apply_env where
  "ex_env =
     \<lparr>ae_scheme = ex_scheme, ae_codec = ex_codec, ae_unstructured = (\<lambda>ob. Some (json_as_map (k_body ob))),
      ae_marshal = (\<lambda>ob. Inr (ex_marshal (json_as_map (k_body ob)))), ae_decode = (\<lambda>s. Inr []),
      ae_from_map = (\<lambda>m. (zero_object ''*unstructured.Unstructured'' (GVK [] [] []))\<lparr>k_body := JObject m\<rparr>),
      ae_requirement = (\<lambda>k v. Inr \<lparr>ls_String = k @ ''='' @ v, ls_Matches = (\<lambda>l. map_of l k = Some v)\<rparr>),
      ae_nested = (\<lambda>m p. case p of [k] \<Rightarrow> map_of m k | _ \<Rightarrow> None),
      ae_clientgo_new = (\<lambda>g. NotRegistered), ae_patch_meta = (\<lambda>ob. Inr (k_type ob)),
      ae_strategic_patch = (\<lambda>l x y z. Inr ''{}''),
      ae_json_merge_patch = (\<lambda>x y z. Inr (if y = z then ''{}'' else y))\<rparr>"

record ex_world =
  ew_store :: ObjectByKey
  ew_deleted :: "objkey list"

definition ex_client :: "ex_world kclient" where
  "ex_client =
     \<lparr>cl_get = (\<lambda>ob ns nm w. (case map_of (ew_store w) \<lparr>ok_name = nm, ok_namespace = ns\<rparr> of
          None \<Rightarrow> Inl (Api NotFound nm) | Some x \<Rightarrow> Inr x, w)),
      cl_list = (\<lambda>g ns sel w. (Inr (filter (\<lambda>ob. case sel of None \<Rightarrow> True | Some s \<Rightarrow> ls_Matches s (k_labels ob))
          (map snd (ew_store w))), w)),
      cl_create = (\<lambda>ob w. if map_of (ew_store w) (object_key ob) = None
          then ((None, ob), w\<lparr>ew_store := AList.update (object_key ob) ob (ew_store w)\<rparr>)
          else ((Some (Api AlreadyExists (k_name ob)), ob), w)),
      cl_update = (\<lambda>ob w. ((None, ob), w\<lparr>ew_store := AList.update (object_key ob) ob (ew_store w)\<rparr>)),
      cl_status_update = (\<lambda>ob w. ((None, ob), w)),
      cl_delete = (\<lambda>ob w. (None, w\<lparr>ew_store := AList.delete (object_key ob) (ew_store w),
          ew_deleted := ew_deleted w @ [object_key ob]\<rparr>)),
      cl_patch = (\<lambda>ob ty p w. ((None, ob), w))\<rparr>"

definition ex_gvk :: gvk where "ex_gvk = GVK ''apps'' ''v1'' ''Deployment''"

definition ex_obj :: "gostring \<Rightarrow> gostring \<Rightarrow> kobject" where
  "ex_obj ns nm = (zero_object ''*unstructured.Unstructured'' ex_gvk)
     \<lparr>k_name := nm, k_namespace := ns, k_body := JObject [(nm, JNull)]\<rparr>"

definition ex_owner :: kobject where
  "ex_owner = (ex_obj ''ns'' ''app'')\<lparr>k_uid := ''u1''\<rparr>"

definition ex_cfg :: apply_cfg where
  "ex_cfg = (NewApply [])\<lparr>a_owner := Some ex_owner, a_ownerGVK := ex_gvk\<rparr>"

definition ex_set :: objectset where
  "ex_set = fst (NewObjectSet ex_scheme [Some (ex_obj [] ''a''), Some (ex_obj ''other'' ''b'')])"

lemma ex_set_ok: "os_ok ex_set"
  unfolding ex_set_def by (metis NewObjectSet_ok prod.collapse)

lemmas ex_defs = ex_scheme_def ex_codec_def ex_env_def ex_client_def ex_gvk_def ex_obj_def
  ex_owner_def ex_cfg_def NewApply_def zero_object_def

lemma ex_set_objects:
  "gm_list (ObjectsByGVK (Some ex_set)) ex_gvk =
     [(\<lparr>ok_name = ''a'', ok_namespace = []\<rparr>, ex_obj [] ''a''),
      (\<lparr>ok_name = ''b'', ok_namespace = ''other''\<rparr>, ex_obj ''other'' ''b'')]"
  by (simp add: ex_set_def NewObjectSet_def os_add_def empty_objectset_def ex_defs Let_def
      ObjectByGVK_Add_def object_key_def gm_bool_def ObjectsByGVK_def gm_list_def)

lemma ex_IsNamespaced [simp]: "IsNamespaced ex_env g = Inr (gvk_kind g \<noteq> ''Node'')"
  by (simp add: IsNamespaced_def ex_env_def ex_scheme_def)

definition ex_objs :: ObjectByKey where
  "ex_objs = [(\<lparr>ok_name = ''b'', ok_namespace = ''other''\<rparr>, ex_obj ''other'' ''b''),
     (\<lparr>ok_name = ''a'', ok_namespace = ''ns''\<rparr>,
       (ex_obj ''ns'' ''a'')\<lparr>k_ownerReferences := [owner_reference ex_env ex_gvk ex_owner]\<rparr>)]"

lemma ex_env_simps [simp]:
  "ae_scheme ex_env = ex_scheme" "ae_codec ex_env = ex_codec"
  "gvk_for ex_scheme ob = Inr (k_gvk ob)" "gvk_String ex_scheme = ex_gvk_String"
  by (simp_all add: ex_env_def ex_scheme_def)

lemma ex_desired: "desired_objects ex_env ex_cfg ex_gvk ex_set = Inr ex_objs"
proof -
  have o: "a_owner ex_cfg = Some ex_owner" "a_defaultNamespace ex_cfg = ''default''"
    by (simp_all add: ex_cfg_def NewApply_def)
  have g: "k_gvk ex_owner = ex_gvk" "gvk_kind ex_gvk \<noteq> ''Node''" "k_namespace ex_owner = ''ns''"
    "k_uid ex_owner = ''u1''"
    by (simp_all add: ex_owner_def ex_obj_def zero_object_def ex_gvk_def)
  have "assignOwnerReference ex_env ex_cfg ex_gvk
      [(\<lparr>ok_name = ''a'', ok_namespace = []\<rparr>, ex_obj [] ''a''),
       (\<lparr>ok_name = ''b'', ok_namespace = ''other''\<rparr>, ex_obj ''other'' ''b'')] = Inr ex_objs"
    unfolding assignOwnerReference_def o
    by (simp add: g assign_owner_one_def with_owner_def should_def gm_str_def Let_def ex_objs_def
        ex_obj_def zero_object_def)
  moreover have "adjustNamespace ex_cfg ex_objs = Inr ex_objs"
    unfolding adjustNamespace_def o by (simp add: ex_objs_def adjust_one_def)
  ultimately show ?thesis
    unfolding desired_objects_def ex_set_objects Let_def by (simp add: g o)
qed

end
