(* ===== verification/ApplyProperties.thy ===== *)
theory ApplyProperties
  imports ApplyExample
begin

text \<open>
  What the apply engine guarantees. First the rules for its loops, then the facts of each
  stage in the order \<open>process\<close> runs them: the desired objects after owners and namespaces are
  settled, the plan of \<open>compareSets\<close>, taking over an object that exists, and what the loops
  that carry the plan out may do to the world.
\<close>

section \<open>Rules for the loops\<close>

lemma range_map_rule:
  assumes "range_map f ks m = Inr m'" and "I ks m"
    and "\<And>k ks m v m'. I (k # ks) m \<Longrightarrow> map_of m k = Some v \<Longrightarrow> f k v m = Inr m' \<Longrightarrow> I ks m'"
    and "\<And>k ks m. I (k # ks) m \<Longrightarrow> map_of m k = None \<Longrightarrow> I ks m"
  shows "I [] m'"
  using assms(1,2)
proof (induction ks arbitrary: m)
  case (Cons k ks)
  show ?case
  proof (cases "map_of m k")
    case None
    with Cons assms(4) show ?thesis by simp
  next
    case (Some v)
    with Cons.prems(1) obtain m1 where "f k v m = Inr m1" "range_map f ks m1 = Inr m'"
      by (auto split: sum.splits)
    with Some Cons assms(3) show ?thesis by blast
  qed
qed simp

lemma run_all_rule:
  assumes "I s"
    and "\<And>k s. k \<in> set ks \<Longrightarrow> I s \<Longrightarrow> I (snd (f k s))"
  shows "I (snd (run_all f ks s))"
  using assms
proof (induction ks arbitrary: s)
  case (Cons k ks)
  have "I (snd (f k s))" using Cons.prems by simp
  then have "I (snd (run_all f ks (snd (f k s))))"
    using Cons by (meson list.set_intros(2))
  then show ?case by (auto split: prod.split)
qed simp

section \<open>The plan\<close>

lemma set_sortObjectKeys [simp]: "set (sortObjectKeys ks) = set ks"
  by (simp add: sortObjectKeys_def)

lemma distinct_sortObjectKeys [simp]: "distinct (sortObjectKeys ks) = distinct ks"
  by (simp add: sortObjectKeys_def)

lemma keys_where: "set [k. (k, v) \<leftarrow> m, P k, Q v] = {k. \<exists>v. (k, v) \<in> set m \<and> P k \<and> Q v}"
  by (auto split: if_splits)

lemma distinct_keys_where: "gm_ok m \<Longrightarrow> distinct [k. (k, v) \<leftarrow> m, P k, Q v]"
proof (induction m)
  case (Cons p m)
  obtain k v where p: "p = (k, v)" by (cases p)
  have "set [k. (k, v) \<leftarrow> m, P k, Q v] \<subseteq> set (gm_keys m)"
    unfolding keys_where by force
  with Cons p show ?case by (auto simp: gm_ok_Cons)
qed simp

lemma plan_keys:
  "gm_ok m \<Longrightarrow> set [k. (k, v) \<leftarrow> m, P k, Q v] = {k. \<exists>v. map_of m k = Some v \<and> P k \<and> Q v}"
  unfolding keys_where by (simp add: gm_mem_iff)

text \<open>The three parts of the plan before they are sorted.\<close>

lemma compareSets_parts:
  assumes "gm_ok existingSet" and "gm_ok newSet"
    and "compareSets c existingSet newSet = (toCreate, toDelete, toUpdate)"
  shows "set toCreate = {k. \<exists>obj. map_of newSet k = Some obj \<and> map_of existingSet k = None \<and> should obj AnnotationCreate}"
    and "set toUpdate = {k. \<exists>obj. map_of newSet k = Some obj \<and> map_of existingSet k \<noteq> None \<and> should obj AnnotationUpdate}"
    and "set toDelete = {k. \<exists>obj. map_of existingSet k = Some obj \<and> map_of newSet k = None \<and> prunable c obj}"
    and "distinct toCreate" "distinct toDelete" "distinct toUpdate"
    and "sorted (map ObjectKey_String toCreate)" "sorted (map ObjectKey_String toDelete)"
        "sorted (map ObjectKey_String toUpdate)"
proof -
  note eqs = assms(3) [unfolded compareSets_def Let_def prod.inject, THEN conjunct1, symmetric]
    assms(3) [unfolded compareSets_def Let_def prod.inject, THEN conjunct2, THEN conjunct1, symmetric]
    assms(3) [unfolded compareSets_def Let_def prod.inject, THEN conjunct2, THEN conjunct2, symmetric]
  show "set toCreate = {k. \<exists>obj. map_of newSet k = Some obj \<and> map_of existingSet k = None \<and> should obj AnnotationCreate}"
    unfolding eqs set_sortObjectKeys plan_keys [OF assms(2)] by blast
  show "set toUpdate = {k. \<exists>obj. map_of newSet k = Some obj \<and> map_of existingSet k \<noteq> None \<and> should obj AnnotationUpdate}"
    unfolding eqs set_sortObjectKeys plan_keys [OF assms(2)] by blast
  show "set toDelete = {k. \<exists>obj. map_of existingSet k = Some obj \<and> map_of newSet k = None \<and> prunable c obj}"
    unfolding eqs set_sortObjectKeys plan_keys [OF assms(1)] by blast
  show "distinct toCreate" "distinct toDelete" "distinct toUpdate"
    unfolding eqs distinct_sortObjectKeys
    by (rule distinct_keys_where [OF assms(2)] distinct_keys_where [OF assms(1)])+
  show "sorted (map ObjectKey_String toCreate)" "sorted (map ObjectKey_String toDelete)"
        "sorted (map ObjectKey_String toUpdate)"
    unfolding eqs sortObjectKeys_def by simp_all
qed

text \<open>C9: The plan splits the keys exactly: an object that is wanted and missing is created
  unless it opts out, one that is wanted and there is updated unless it opts out, and one that
  is there and not wanted is deleted only if it does not opt out, is not already being deleted
  and carries no hash or the hash of its own annotations. Each part is sorted by key text and
  has no repetition, and no key is in two parts.\<close>

theorem compareSets_plan:
  assumes "gm_ok existingSet" and "gm_ok newSet"
    and "compareSets c existingSet newSet = (toCreate, toDelete, toUpdate)"
  shows "set toCreate = {k. \<exists>obj. map_of newSet k = Some obj \<and> map_of existingSet k = None \<and>
           gm_str (k_annotations obj) AnnotationCreate \<noteq> ''false''} \<and>
         set toUpdate = {k. \<exists>obj. map_of newSet k = Some obj \<and> map_of existingSet k \<noteq> None \<and>
           gm_str (k_annotations obj) AnnotationUpdate \<noteq> ''false''} \<and>
         set toDelete = {k. \<exists>obj. map_of existingSet k = Some obj \<and> map_of newSet k = None \<and>
           gm_str (k_annotations obj) AnnotationPrune \<noteq> ''false'' \<and> k_deletionTimestamp obj = None \<and>
           (map_of (k_labels obj) LabelHash = None \<or>
            map_of (k_labels obj) LabelHash = Some (objectSetHash c (k_annotations obj)))} \<and>
         distinct (toCreate @ toDelete @ toUpdate) \<and>
         sorted (map ObjectKey_String toCreate) \<and> sorted (map ObjectKey_String toDelete) \<and>
         sorted (map ObjectKey_String toUpdate)"
proof -
  note parts = compareSets_parts [OF assms]
  have pr: "prunable c obj \<longleftrightarrow> gm_str (k_annotations obj) AnnotationPrune \<noteq> ''false'' \<and>
           k_deletionTimestamp obj = None \<and>
           (map_of (k_labels obj) LabelHash = None \<or>
            map_of (k_labels obj) LabelHash = Some (objectSetHash c (k_annotations obj)))" for obj
    by (auto simp: prunable_def should_def split: option.split)
  have "distinct (toCreate @ toDelete @ toUpdate)" using parts(1-6) by auto
  with parts show ?thesis unfolding should_def pr by blast
qed

lemma compareSets_plan_witness:
  "\<exists>c d u. compareSets ex_codec [(object_key ex_owner, ex_owner)] [(object_key (ex_obj [] ''a''), ex_obj [] ''a'')] = (c, d, u) \<and>
     set d = {object_key ex_owner} \<and> distinct (c @ d @ u)"
proof -
  let ?e = "[(object_key ex_owner, ex_owner)]" and ?n = "[(object_key (ex_obj [] ''a''), ex_obj [] ''a'')]"
  obtain c d u where r: "compareSets ex_codec ?e ?n = (c, d, u)" by (metis prod_cases3)
  have ok: "gm_ok ?e" "gm_ok ?n" by (simp_all add: gm_ok_def)
  show ?thesis
    using compareSets_plan [OF ok r] r by (auto simp: ex_defs object_key_def gm_str_def)
qed

section \<open>Owners and namespaces\<close>

text \<open>
  \<open>adopted\<close>: how a processed object relates to the desired object it comes from. Its name and
  annotations are the same; its owner references are the same, or the owner was added at the
  end, which needs an owner with a uid that is not an owner yet, an object that does not opt out
  of pruning, and no crossing of a namespace boundary.
\<close>

definition adopted ::
  "apply_env \<Rightarrow> kobject option \<Rightarrow> bool \<Rightarrow> kobject \<Rightarrow> kobject \<Rightarrow> bool" where
  "adopted env owner nsed v0 v \<longleftrightarrow>
     k_name v = k_name v0 \<and> k_annotations v = k_annotations v0 \<and>
     (k_ownerReferences v = k_ownerReferences v0 \<or>
      (\<exists>ob ownerGVK ownerNSed. owner = Some ob \<and> gvk_for (ae_scheme env) ob = Inr ownerGVK \<and>
         IsNamespaced env ownerGVK = Inr ownerNSed \<and>
         k_ownerReferences v = k_ownerReferences v0 @ [owner_reference env ownerGVK ob] \<and>
         k_uid ob \<noteq> [] \<and> k_uid ob \<notin> or_uid ` set (k_ownerReferences v0) \<and>
         should v0 AnnotationPrune \<and>
         (ownerNSed \<longrightarrow> nsed \<and> (k_namespace v = k_namespace ob \<or> k_namespace ob = []))))"

definition from_desired ::
  "apply_env \<Rightarrow> kobject option \<Rightarrow> bool \<Rightarrow> ObjectByKey \<Rightarrow> ObjectByKey \<Rightarrow> bool" where
  "from_desired env owner nsed objs0 objs \<longleftrightarrow>
     gm_ok objs \<and> ok_name ` dom (map_of objs) = ok_name ` dom (map_of objs0) \<and>
     (\<forall>k v. map_of objs k = Some v \<longrightarrow> object_key v = k \<and>
        (\<exists>k0 v0. map_of objs0 k0 = Some v0 \<and> adopted env owner nsed v0 v))"

lemma adopted_refl: "adopted env owner nsed v v"
  by (simp add: adopted_def)

lemma from_desired_refl:
  "gm_ok objs \<Longrightarrow> (\<And>k v. map_of objs k = Some v \<Longrightarrow> object_key v = k) \<Longrightarrow>
     from_desired env owner nsed objs objs"
  using adopted_refl by (fastforce simp: from_desired_def)

lemma from_desiredD:
  "from_desired env owner nsed objs0 objs \<Longrightarrow> map_of objs k = Some v \<Longrightarrow>
     object_key v = k \<and> (\<exists>k0 v0. map_of objs0 k0 = Some v0 \<and> adopted env owner nsed v0 v)"
  by (simp add: from_desired_def)

lemma object_key_simps [simp]:
  "ok_name (object_key v) = k_name v" "ok_namespace (object_key v) = k_namespace v"
  by (simp_all add: object_key_def)

lemma names_move:
  assumes "m k = Some v" and "ok_name k' = ok_name k"
  shows "ok_name ` dom ((m(k := None))(k' \<mapsto> v')) = ok_name ` dom m"
proof -
  have "dom m = insert k (dom m - {k})" using assms(1) by auto
  then have "ok_name ` dom m = insert (ok_name k) (ok_name ` (dom m - {k}))" by (metis image_insert)
  moreover have "dom ((m(k := None))(k' \<mapsto> v')) = insert k' (dom m - {k})" by simp
  ultimately show ?thesis using assms(2) by simp
qed

lemma from_desired_move:
  assumes fd: "from_desired env owner nsed objs0 objs" and v: "map_of objs k = Some v"
    and ad: "\<And>v0. adopted env owner nsed v0 v \<Longrightarrow> adopted env owner nsed v0 v'"
    and k': "k' = object_key v'" and nm: "k_name v' = k_name v"
  shows "from_desired env owner nsed objs0 (AList.update k' v' (AList.delete k objs))"
proof -
  from fd v have key: "object_key v = k" by (simp add: from_desired_def)
  then have same: "ok_name k' = ok_name k" using k' nm by (auto simp: object_key_def)
  from from_desiredD [OF fd v] obtain k0 v0 where "map_of objs0 k0 = Some v0" "adopted env owner nsed v0 v"
    by blast
  then have new: "\<exists>k0 v0. map_of objs0 k0 = Some v0 \<and> adopted env owner nsed v0 v'"
    using ad by blast
  have old: "object_key w = j \<and> (\<exists>k0 v0. map_of objs0 k0 = Some v0 \<and> adopted env owner nsed v0 w)"
    if "map_of objs j = Some w" for j w
    using fd that by (simp add: from_desired_def)
  show ?thesis
    unfolding from_desired_def map_of_update map_of_delete
    using names_move [where m = "map_of objs", OF v same, of v'] fd new old k'
    by (simp add: from_desired_def)
qed

lemma from_desired_update:
  assumes fd: "from_desired env owner nsed objs0 objs" and v: "map_of objs k = Some v"
    and ad: "\<And>v0. adopted env owner nsed v0 v \<Longrightarrow> adopted env owner nsed v0 v'"
    and k': "k = object_key v'"
  shows "from_desired env owner nsed objs0 (AList.update k v' objs)"
proof -
  from from_desiredD [OF fd v] obtain k0 v0 where "map_of objs0 k0 = Some v0" "adopted env owner nsed v0 v"
    by blast
  then have new: "\<exists>k0 v0. map_of objs0 k0 = Some v0 \<and> adopted env owner nsed v0 v'"
    using ad by blast
  have "dom ((map_of objs)(k \<mapsto> v')) = dom (map_of objs)" using v by auto
  with fd new k' show ?thesis
    unfolding from_desired_def map_of_update by simp
qed

lemma with_owner_other [simp]:
  "k_name (with_owner env G ob v) = k_name v" "k_namespace (with_owner env G ob v) = k_namespace v"
  "k_annotations (with_owner env G ob v) = k_annotations v"
  "object_key (with_owner env G ob v) = object_key v"
  by (simp_all add: with_owner_def Let_def object_key_def)

lemma with_owner_again: "with_owner env G ob (with_owner env G ob v) = with_owner env G ob v"
  by (auto simp: with_owner_def owner_reference_def Let_def)

lemma should_cong: "k_annotations v = k_annotations v' \<Longrightarrow> should v l = should v' l"
  by (simp add: should_def)

lemma with_owner_adopted:
  assumes ad: "adopted env (Some ob) nsed v0 v"
    and G: "gvk_for (ae_scheme env) ob = Inr G" "IsNamespaced env G = Inr ownerNSed"
    and v1: "v1 = v \<or> v1 = v\<lparr>k_namespace := k_namespace ob\<rparr>"
    and ns: "ownerNSed \<Longrightarrow> nsed \<and> (k_namespace v1 = k_namespace ob \<or> k_namespace ob = [])"
  shows "adopted env (Some ob) nsed v0 (with_owner env G ob v1)"
proof -
  have same: "k_name v1 = k_name v" "k_annotations v1 = k_annotations v"
    "k_ownerReferences v1 = k_ownerReferences v"
    using v1 by auto
  have sh: "should v1 AnnotationPrune = should v0 AnnotationPrune"
    using ad same by (intro should_cong) (simp add: adopted_def)
  show ?thesis
  proof (cases "k_ownerReferences v = k_ownerReferences v0")
    case True
    then show ?thesis
      using ad G ns same sh by (auto simp: adopted_def with_owner_def Let_def)
  next
    case False
    with ad G have "k_ownerReferences v = k_ownerReferences v0 @ [owner_reference env G ob]"
      by (auto simp: adopted_def)
    moreover from this have "with_owner env G ob v1 = v1"
      using same by (auto simp: with_owner_def owner_reference_def Let_def)
    ultimately show ?thesis
      using ad G ns same False by (auto simp: adopted_def)
  qed
qed

lemma assign_owner_one_step:
  assumes fd: "from_desired env (Some ob) nsed objs0 objs" and v: "map_of objs k = Some v"
    and G: "gvk_for (ae_scheme env) ob = Inr G" "IsNamespaced env G = Inr ownerNSed"
    and g: "IsNamespaced env g = Inr nsed"
    and run: "assign_owner_one env g ob G ownerNSed k v objs = Inr objs'"
  shows "from_desired env (Some ob) nsed objs0 objs'"
proof -
  from from_desiredD [OF fd v] have key: "object_key v = k" by blast
  then have kns: "ok_namespace k = k_namespace v" by auto
  let ?assign = "nsed \<and> ok_namespace k = []"
  define v1 where "v1 = (if ?assign then v\<lparr>k_namespace := k_namespace ob\<rparr> else v)"
  define v2 where "v2 = with_owner env G ob v1"
  show ?thesis
  proof (cases "ownerNSed \<and> (\<not> nsed \<or> ok_namespace k \<noteq> [] \<and> ok_namespace k \<noteq> k_namespace ob)")
    case True
    with run g fd show ?thesis by (cases nsed) (auto simp: assign_owner_one_def Let_def)
  next
    case False
    have ns: "ownerNSed \<Longrightarrow> nsed \<and> (k_namespace v1 = k_namespace ob \<or> k_namespace ob = [])"
      using False kns by (auto simp: v1_def)
    have ad: "adopted env (Some ob) nsed v0 v \<Longrightarrow> adopted env (Some ob) nsed v0 v2" for v0
      unfolding v2_def by (rule with_owner_adopted [OF _ G _ ns]) (auto simp: v1_def)
    have nm: "k_name v2 = k_name v" by (simp add: v2_def v1_def)
    from False run g have objs': "objs' =
        (if ?assign then AList.update (k\<lparr>ok_namespace := k_namespace ob\<rparr>) v2 (AList.delete k objs)
         else AList.update k v2 objs)"
      by (auto simp: assign_owner_one_def Let_def v1_def v2_def delete_update_same split: if_splits)
    show ?thesis
    proof (cases ?assign)
      case True
      then have "k\<lparr>ok_namespace := k_namespace ob\<rparr> = object_key v2"
        using key by (auto simp: v2_def v1_def object_key_def)
      with True objs' from_desired_move [OF fd v ad _ nm] show ?thesis by simp
    next
      case False
      then have "k = object_key v2" using key by (auto simp: v2_def v1_def)
      with objs' from_desired_update [OF fd v ad] show ?thesis unfolding if_not_P [OF False] by simp
    qed
  qed
qed

lemma assignOwnerReference_sound:
  assumes "from_desired env (a_owner a) nsed objs0 objs" and "IsNamespaced env g = Inr nsed"
    and "assignOwnerReference env a g objs = Inr objs'"
  shows "from_desired env (a_owner a) nsed objs0 objs'"
proof -
  from assms(3) obtain ob G ownerNSed where o: "a_owner a = Some ob"
    "gvk_for (ae_scheme env) ob = Inr G" "IsNamespaced env G = Inr ownerNSed"
    "range_map (assign_owner_one env g ob G ownerNSed) (gm_keys objs) objs = Inr objs'"
    by (auto simp: assignOwnerReference_def split: option.splits sum.splits)
  show ?thesis
    using o(4) assms(1) unfolding o(1)
    by (rule range_map_rule [where I = "\<lambda>_. from_desired env (Some ob) nsed objs0"])
      (auto intro: assign_owner_one_step [OF _ _ o(2,3) assms(2)])
qed

text \<open>A visit of the key the loop has just written changes nothing.\<close>

lemma assign_owner_again:
  assumes run: "assign_owner_one env g ob G ownerNSed k v objs = Inr objs'"
    and nsed: "IsNamespaced env g = Inr True" and k: "ok_namespace k = []"
    and k': "k' = k\<lparr>ok_namespace := k_namespace ob\<rparr>" and ob: "k_namespace ob \<noteq> []"
  shows "\<exists>v' objs''. map_of objs' k' = Some v' \<and>
           assign_owner_one env g ob G ownerNSed k' v' objs' = Inr objs'' \<and>
           map_of objs'' = map_of objs'"
proof -
  let ?v = "with_owner env G ob (v\<lparr>k_namespace := k_namespace ob\<rparr>)"
  from run nsed k k' have objs': "objs' = AList.update k' ?v (AList.delete k (AList.update k ?v objs))"
    by (auto simp: assign_owner_one_def Let_def)
  with k' ob nsed show ?thesis
    by (auto simp: assign_owner_one_def Let_def with_owner_again)
qed

lemma adopted_adjust:
  "adopted env owner True v0 v \<Longrightarrow> k_namespace v = [] \<Longrightarrow>
     adopted env owner True v0 (v\<lparr>k_namespace := ns\<rparr>)"
  by (fastforce simp: adopted_def)

lemma adopted_clear:
  "adopted env owner False v0 v \<Longrightarrow> adopted env owner False v0 (v\<lparr>k_namespace := ns\<rparr>)"
  by (fastforce simp: adopted_def)

definition pending :: "(objkey \<Rightarrow> bool) \<Rightarrow> objkey list \<Rightarrow> ObjectByKey \<Rightarrow> bool" where
  "pending P ks m \<longleftrightarrow> (\<forall>k. map_of m k \<noteq> None \<longrightarrow> P k \<or> k \<in> set ks)"

lemma pending_move:
  "pending P (k # ks) m \<Longrightarrow> P k' \<Longrightarrow> pending P ks (AList.update k' v (AList.delete k m))"
  by (auto simp: pending_def)

lemma pending_skip: "pending P (k # ks) m \<Longrightarrow> P k \<or> map_of m k = None \<Longrightarrow> pending P ks m"
  by (auto simp: pending_def)

lemma adjustNamespace_sound:
  assumes "from_desired env owner True objs0 objs" and "adjustNamespace a objs = Inr objs'"
  shows "from_desired env owner True objs0 objs' \<and>
     (a_defaultNamespace a \<noteq> [] \<longrightarrow> (\<forall>k. map_of objs' k \<noteq> None \<longrightarrow> ok_namespace k \<noteq> []))"
proof -
  let ?P = "\<lambda>k. a_defaultNamespace a \<noteq> [] \<longrightarrow> ok_namespace k \<noteq> []"
  let ?I = "\<lambda>ks m. from_desired env owner True objs0 m \<and> pending ?P ks m"
  have "?I [] objs'"
  proof (rule range_map_rule [where I = ?I, OF assms(2) [unfolded adjustNamespace_def]])
    show "?I (gm_keys objs) objs"
      using assms(1) by (simp add: pending_def fst_image_iff)
  next
    fix k ks m v m'
    assume I: "?I (k # ks) m" and v: "map_of m k = Some v"
      and run: "adjust_one (a_defaultNamespace a) k v m = Inr m'"
    let ?v = "v\<lparr>k_namespace := a_defaultNamespace a\<rparr>"
    from I v have key: "object_key v = k" using from_desiredD by blast
    show "?I ks m'"
    proof (cases "ok_namespace k = []")
      case True
      from True run have m': "m' = AList.update (k\<lparr>ok_namespace := a_defaultNamespace a\<rparr>) ?v (AList.delete k m)"
        by (simp add: adjust_one_def)
      have "k_namespace v = []" using True key by auto
      then have ad: "adopted env owner True v0 v \<Longrightarrow> adopted env owner True v0 ?v" for v0
        by (rule adopted_adjust [rotated])
      have k': "k\<lparr>ok_namespace := a_defaultNamespace a\<rparr> = object_key ?v"
        using key by (auto simp: object_key_def)
      from from_desired_move [OF _ v ad k'] pending_move [of ?P k ks m] I m' show ?thesis by simp
    next
      case False
      with I run show ?thesis
        using pending_skip [of ?P k ks m] by (simp add: adjust_one_def)
    qed
  next
    fix k ks m
    assume "?I (k # ks) m" and "map_of m k = None"
    then show "?I ks m" using pending_skip [of ?P k ks m] by blast
  qed
  then show ?thesis by (simp add: pending_def)
qed

lemma clearNamespace_sound:
  assumes "from_desired env owner False objs0 objs" and "clearNamespace objs = Inr objs'"
  shows "from_desired env owner False objs0 objs' \<and>
     (\<forall>k. map_of objs' k \<noteq> None \<longrightarrow> ok_namespace k = [])"
proof -
  let ?P = "\<lambda>k. ok_namespace k = []"
  let ?I = "\<lambda>ks m. from_desired env owner False objs0 m \<and> pending ?P ks m"
  have "?I [] objs'"
  proof (rule range_map_rule [where I = ?I, OF assms(2) [unfolded clearNamespace_def]])
    show "?I (gm_keys objs) objs"
      using assms(1) by (simp add: pending_def fst_image_iff)
  next
    fix k ks m v m'
    assume I: "?I (k # ks) m" and v: "map_of m k = Some v" and run: "clear_one k v m = Inr m'"
    let ?v = "v\<lparr>k_namespace := []\<rparr>"
    from I v have key: "object_key v = k" using from_desiredD by blast
    show "?I ks m'"
    proof (cases "ok_namespace k = []")
      case True
      with I run show ?thesis
        using pending_skip [of ?P k ks m] by (simp add: clear_one_def)
    next
      case False
      with run have m': "m' = AList.update (k\<lparr>ok_namespace := []\<rparr>) ?v (AList.delete k m)"
        by (simp add: clear_one_def)
      have k': "k\<lparr>ok_namespace := []\<rparr> = object_key ?v"
        using key by (auto simp: object_key_def)
      from from_desired_move [OF _ v adopted_clear k'] pending_move [of ?P k ks m] I m'
      show ?thesis by simp
    qed
  next
    fix k ks m
    assume "?I (k # ks) m" and "map_of m k = None"
    then show "?I ks m" using pending_skip [of ?P k ks m] by blast
  qed
  then show ?thesis by (simp add: pending_def)
qed

text \<open>Visits of keys the two loops have just written change nothing.\<close>

lemma adjust_again:
  "ns \<noteq> [] \<Longrightarrow> adjust_one ns (k\<lparr>ok_namespace := ns\<rparr>) v objs = Inr objs"
  by (simp add: adjust_one_def)

lemma clear_again: "clear_one (k\<lparr>ok_namespace := []\<rparr>) v objs = Inr objs"
  by (simp add: clear_one_def)

lemma os_ok_objects:
  assumes "os_ok allObjs"
  shows "gm_ok (gm_list (ObjectsByGVK (Some allObjs)) g)"
    and "map_of (gm_list (ObjectsByGVK (Some allObjs)) g) k = os_view allObjs (g, k)"
proof -
  have n: "nm_ok (os_objects allObjs)" using assms by (simp add: os_ok_def)
  show "gm_ok (gm_list (ObjectsByGVK (Some allObjs)) g)"
    by (simp add: ObjectsByGVK_def gm_ok_gm_list [OF n])
  show "map_of (gm_list (ObjectsByGVK (Some allObjs)) g) k = os_view allObjs (g, k)"
    by (simp add: ObjectsByGVK_def os_view_def nm_get_gm_list)
qed

lemma desired_objects_from:
  assumes ok: "os_ok allObjs" and run: "desired_objects env a g allObjs = Inr objs"
  obtains nsed where "IsNamespaced env g = Inr nsed"
    and "from_desired env (a_owner a) nsed (gm_list (ObjectsByGVK (Some allObjs)) g) objs"
    and "\<forall>k. map_of objs k \<noteq> None \<longrightarrow>
           (if nsed then a_defaultNamespace a \<noteq> [] \<longrightarrow> ok_namespace k \<noteq> [] else ok_namespace k = [])"
proof -
  let ?objs0 = "gm_list (ObjectsByGVK (Some allObjs)) g"
  from run obtain nsed objs1 where nsed: "IsNamespaced env g = Inr nsed"
    and as: "(if a_owner a \<noteq> None then assignOwnerReference env a g ?objs0 else Inr ?objs0) = Inr objs1"
    and ns: "(if nsed then adjustNamespace a objs1 else clearNamespace objs1) = Inr objs"
    by (auto simp: desired_objects_def Let_def split: sum.splits)
  have start: "from_desired env (a_owner a) nsed ?objs0 ?objs0"
    by (rule from_desired_refl) (use ok os_ok_objects [OF ok] in \<open>auto simp: os_ok_def\<close>)
  have "from_desired env (a_owner a) nsed ?objs0 objs1"
  proof (cases "a_owner a = None")
    case False
    with as show ?thesis using assignOwnerReference_sound [OF start nsed] by simp
  qed (use start as in simp)
  with ns adjustNamespace_sound [of env "a_owner a" ?objs0 objs1 a objs]
    clearNamespace_sound [of env "a_owner a" ?objs0 objs1 objs]
  have "from_desired env (a_owner a) nsed ?objs0 objs \<and>
     (\<forall>k. map_of objs k \<noteq> None \<longrightarrow>
        (if nsed then a_defaultNamespace a \<noteq> [] \<longrightarrow> ok_namespace k \<noteq> [] else ok_namespace k = []))"
    by (cases nsed) auto
  with that [OF nsed] show ?thesis by blast
qed

text \<open>C12: Settling owners and namespaces only ever does what it may. For a set of desired
  objects of one kind, the result has an object for exactly the names of the input; every object
  is filed under its own key; a namespaced kind has no object without a namespace (when there
  is a default namespace) and a cluster-wide kind none with one; and each object is an input
  object with the same name and annotations whose owner references are unchanged or extended by
  the owner, the latter only when the owner has a uid that was not referenced before, the object
  does not opt out of pruning, and no namespace boundary is crossed.\<close>

theorem desired_objects_sound:
  assumes "os_ok allObjs" and "desired_objects env a g allObjs = Inr objs"
  shows "gm_ok objs \<and>
    ok_name ` {k. map_of objs k \<noteq> None} = ok_name ` {k. os_view allObjs (g, k) \<noteq> None} \<and>
    (\<exists>nsed. IsNamespaced env g = Inr nsed \<and>
      (\<forall>k v. map_of objs k = Some v \<longrightarrow> object_key v = k \<and>
         (if nsed then a_defaultNamespace a \<noteq> [] \<longrightarrow> ok_namespace k \<noteq> [] else ok_namespace k = []) \<and>
         (\<exists>k0 v0. os_view allObjs (g, k0) = Some v0 \<and> adopted env (a_owner a) nsed v0 v)))"
proof -
  from desired_objects_from [OF assms] obtain nsed where n: "IsNamespaced env g = Inr nsed"
    "from_desired env (a_owner a) nsed (gm_list (ObjectsByGVK (Some allObjs)) g) objs"
    "\<forall>k. map_of objs k \<noteq> None \<longrightarrow>
       (if nsed then a_defaultNamespace a \<noteq> [] \<longrightarrow> ok_namespace k \<noteq> [] else ok_namespace k = [])" .
  have dm: "dom (map_of (gm_list (ObjectsByGVK (Some allObjs)) g)) = {k. os_view allObjs (g, k) \<noteq> None}"
    by (auto simp: os_ok_objects(2) [OF assms(1)])
  have "{k. map_of objs k \<noteq> None} = dom (map_of objs)" by (simp add: dom_def)
  with n(2) dm have "ok_name ` {k. map_of objs k \<noteq> None} = ok_name ` {k. os_view allObjs (g, k) \<noteq> None}"
    by (simp add: from_desired_def)
  with n show ?thesis
    by (auto simp: from_desired_def os_ok_objects(2) [OF assms(1)])
qed

lemma desired_objects_sound_witness:
  "gm_ok ex_objs \<and> ok_name ` {k. map_of ex_objs k \<noteq> None} = ok_name ` {k. os_view ex_set (ex_gvk, k) \<noteq> None}"
  using desired_objects_sound [OF ex_set_ok ex_desired] by blast

section \<open>What an apply may do to the world\<close>

text \<open>
  \<open>keeps cl I\<close>: reading, listing, creating and patching through the client keep \<open>I\<close>. Deletion
  is left out; the theorem below says which deletions there are.
\<close>

definition keeps :: "'w kclient \<Rightarrow> ('w \<Rightarrow> bool) \<Rightarrow> bool" where
  "keeps cl I \<longleftrightarrow>
     (\<forall>ob ns nm w. I w \<longrightarrow> I (snd (cl_get cl ob ns nm w))) \<and>
     (\<forall>g ns sel w. I w \<longrightarrow> I (snd (cl_list cl g ns sel w))) \<and>
     (\<forall>ob w. I w \<longrightarrow> I (snd (cl_create cl ob w))) \<and>
     (\<forall>ob ty p w. I w \<longrightarrow> I (snd (cl_patch cl ob ty p w)))"

lemma keeps_get: "keeps cl I \<Longrightarrow> I w \<Longrightarrow> apply_get env cl g ob ns nm w = (r, w') \<Longrightarrow> I w'"
  by (auto simp: keeps_def apply_get_def split: option.splits sum.splits) (metis snd_conv)+

lemma keeps_list: "keeps cl I \<Longrightarrow> I w \<Longrightarrow> cl_list cl g ns sel w = (r, w') \<Longrightarrow> I w'"
  unfolding keeps_def by (metis snd_conv)

lemma keeps_create: "keeps cl I \<Longrightarrow> I w \<Longrightarrow> apply_create cl ob w = (r, w') \<Longrightarrow> I w'"
  unfolding keeps_def apply_create_def by (metis snd_conv)

lemma keeps_patch: "keeps cl I \<Longrightarrow> I w \<Longrightarrow> cl_patch cl ob ty p w = (r, w') \<Longrightarrow> I w'"
  unfolding keeps_def by (metis snd_conv)

lemma send_patch_keeps:
  "keeps cl I \<Longrightarrow> I (as_world st) \<Longrightarrow> send_patch a cl g old new ty p st = (r, ob, st') \<Longrightarrow> I (as_world st')"
  by (auto simp: send_patch_def Let_def split: if_splits prod.splits dest: keeps_patch)

lemma applyPatch_keeps:
  assumes "keeps cl I" and "I (as_world st)" and "applyPatch env a cl g old new st = (r, ob, st')"
  shows "I (as_world st')"
  using assms(2,3)
  by (auto simp: applyPatch_def Let_def split: sum.splits prod.splits option.splits if_splits
      dest!: send_patch_keeps [OF assms(1), rotated])

lemma compareObjects_keeps:
  assumes "keeps cl I" and "I (as_world st)" and "compareObjects env a cl g old new st = (r, ob, st')"
  shows "I (as_world st')"
  using assms applyPatch_keeps [OF assms(1,2), of env a g old new]
  by (auto simp: compareObjects_def split: prod.splits option.splits if_splits)

lemma list_by_get_keeps:
  "keeps cl I \<Longrightarrow> I w \<Longrightarrow> list_by_get env cl g objs result w = (r, w') \<Longrightarrow> I w'"
proof (induction objs arbitrary: w result)
  case (Cons p objs)
  obtain k v where p: "p = (k, v)" by (cases p)
  obtain x w1 where g: "apply_get env cl g (Some v) (ok_namespace k) (ok_name k) w = (x, w1)" by fastforce
  have "I w1" by (rule keeps_get [OF Cons.prems(1,2) g])
  with Cons g p show ?case by (auto split: sum.splits if_splits)
qed simp

lemma list_existing_keeps:
  "keeps cl I \<Longrightarrow> I w \<Longrightarrow> list_existing env a cl g sel objs w = (r, w') \<Longrightarrow> I w'"
  by (auto simp: list_existing_def listBySelector_def Let_def
      split: option.splits sum.splits prod.splits dest: keeps_list list_by_get_keeps)

lemma list_existing_ok:
  assumes "list_existing env a cl g sel objs w = (Inr existing, w')"
  shows "gm_ok existing"
proof -
  have add: "gm_ok m \<Longrightarrow> gm_ok (fold addObjectToMap items m)" for items m
    by (induction items arbitrary: m) (simp_all add: addObjectToMap_def)
  have get: "list_by_get env cl g objs result w = (Inr existing, w') \<Longrightarrow> gm_ok result \<Longrightarrow> gm_ok existing"
    for result w
    by (induction env cl g objs result w rule: list_by_get.induct)
      (auto split: sum.splits prod.splits if_splits)
  show ?thesis
    using assms add [of "[]"] get
    by (auto simp: list_existing_def listBySelector_def Let_def
        split: option.splits sum.splits prod.splits)
qed

text \<open>The state of the loops: every key they still have to visit has its objects.\<close>

definition ps_ready :: "('w \<Rightarrow> bool) \<Rightarrow> objkey set \<Rightarrow> 'w process_state \<Rightarrow> bool" where
  "ps_ready I wanted ps \<longleftrightarrow>
     I (ps_world ps) \<and> dom (map_of (ps_objs ps)) = wanted \<and>
     set (ps_toUpdate ps) \<subseteq> wanted \<inter> dom (map_of (ps_existing ps)) \<and>
     set (ps_toReplace ps) \<subseteq> wanted"

lemma set_world_simps [simp]:
  "ps_world (set_world w ps) = w" "ps_objs (set_world w ps) = ps_objs ps"
  "ps_existing (set_world w ps) = ps_existing ps" "ps_toUpdate (set_world w ps) = ps_toUpdate ps"
  "ps_toReplace (set_world w ps) = ps_toReplace ps"
  by (simp_all add: set_world_def)

lemma ps_ready_world: "ps_ready I wanted ps \<Longrightarrow> I w \<Longrightarrow> ps_ready I wanted (set_world w ps)"
  by (simp add: ps_ready_def)

lemma createF_ready:
  assumes k: "keeps cl I" and r: "ps_ready I wanted ps"
  shows "ps_ready I wanted (snd (createF env a cl valid debug g key ps))"
proof (cases "map_of (ps_objs ps) key")
  case None
  with r show ?thesis by (simp add: createF_def)
next
  case (Some desired)
  show ?thesis
  proof (cases "prepareObjectForCreate env g desired (\<not> a_ensure a)")
    case (Inl e)
    with Some r show ?thesis by (simp add: createF_def)
  next
    case (Inr obj)
    obtain err obj' w1 where c: "apply_create cl obj (ps_world ps) = ((err, obj'), w1)"
      by (metis surj_pair)
    define ps1 where "ps1 = set_world w1 (if a_ensure a then ps\<lparr>ps_objs := AList.update key obj' (ps_objs ps)\<rparr> else ps)"
    have "I w1" using keeps_create [OF k _ c] r by (simp add: ps_ready_def)
    then have r1: "ps_ready I wanted ps1"
      using r Some by (auto simp: ps_ready_def ps1_def)
    obtain x w2 where gt: "apply_get env cl g (map_of (ps_objs ps1) key) (ok_namespace key) (ok_name key) w1 = (x, w2)"
      by fastforce
    have "I w2" by (rule keeps_get [OF k \<open>I w1\<close> gt])
    with r1 have r2: "ps_ready I wanted (set_world w2 ps1)" by (rule ps_ready_world)
    have "key \<in> wanted" using r Some by (auto simp: ps_ready_def)
    with r2 have r3: "ps_ready I wanted ((set_world w2 ps1)
        \<lparr>ps_toUpdate := (if up then ps_toUpdate (set_world w2 ps1) @ [key] else ps_toUpdate (set_world w2 ps1)),
         ps_existing := AList.update key e (ps_existing (set_world w2 ps1))\<rparr>)" for up e
      by (auto simp: ps_ready_def)
    show ?thesis
      unfolding createF_def Some Inr option.case sum.case c prod.case Let_def ps1_def [symmetric] gt
      using r1 r2 r3 [where up = True] r3 [where up = False] by (simp split: option.split sum.split)
  qed
qed

lemma deleteF_ready:
  assumes r: "ps_ready I wanted ps"
    and d: "\<And>w. I w \<Longrightarrow> I (snd (apply_delete cl g (ok_namespace k) (ok_name k) w))"
  shows "ps_ready I wanted (snd (deleteF env cl debug g k ps))"
proof -
  obtain e w where a: "apply_delete cl g (ok_namespace k) (ok_name k) (ps_world ps) = (e, w)" by fastforce
  have "I (ps_world ps)" using r by (simp add: ps_ready_def)
  from d [OF this] have "I w" by (simp add: a)
  with r have "ps_ready I wanted (set_world w ps)" by (rule ps_ready_world)
  with a show ?thesis by (simp add: deleteF_def split: option.split)
qed

lemma updateF_ready:
  assumes k: "keeps cl I" and r: "ps_ready I wanted ps"
  shows "ps_ready I wanted (snd (updateF env a cl debug g key ps))"
proof (cases "map_of (ps_existing ps) key = None \<or> map_of (ps_objs ps) key = None")
  case True
  with r show ?thesis by (auto simp: updateF_def split: option.split)
next
  case False
  then obtain existing desired where e: "map_of (ps_existing ps) key = Some existing"
    "map_of (ps_objs ps) key = Some desired" by auto
  obtain err obj st where c: "compareObjects env a cl g existing desired (ps_st ps) = (err, obj, st)"
    by (metis surj_pair)
  have "I (as_world st)" using compareObjects_keeps [OF k _ c] r by (simp add: ps_ready_def)
  with r e have r1: "ps_ready I wanted (ps\<lparr>ps_st := st, ps_objs := AList.update key obj (ps_objs ps)\<rparr>)"
    by (auto simp: ps_ready_def)
  have "key \<in> wanted" using r e by (auto simp: ps_ready_def)
  with r1 show ?thesis
    unfolding updateF_def e c prod.case option.case Let_def
    by (auto simp: ps_ready_def split: option.split)
qed

lemma carry_out_ready:
  assumes k: "keeps cl I" and r: "ps_ready I wanted ps"
    and d: "\<And>key w. key \<in> wanted \<or> \<not> a_noPrune a \<and> key \<in> set toDelete \<Longrightarrow> I w \<Longrightarrow>
              I (snd (apply_delete cl g (ok_namespace key) (ok_name key) w))"
    and run: "carry_out env a cl valid debug g toCreate toDelete ps = (err, ps')"
  shows "ps_ready I wanted ps'"
proof -
  let ?R = "ps_ready I wanted"
  define ps1 where "ps1 = snd (run_all (createF env a cl valid debug g) toCreate ps)"
  define ps2 where "ps2 = snd (run_all (updateF env a cl debug g) (ps_toUpdate ps1) ps1)"
  define ps3 where "ps3 = (if a_noPrune a then ps2 else snd (run_all (deleteF env cl debug g) toDelete ps2))"
  define ps4 where "ps4 = snd (run_all (deleteF env cl debug g) (ps_toReplace ps3) ps3)"
  have "?R ps1" unfolding ps1_def by (rule run_all_rule [where I = ?R]) (rule r, rule createF_ready [OF k])
  then have "?R ps2" unfolding ps2_def by (rule run_all_rule [where I = ?R]) (rule updateF_ready [OF k])
  then have r3: "?R ps3"
    unfolding ps3_def by (auto intro!: run_all_rule [where I = ?R] deleteF_ready d)
  then have "set (ps_toReplace ps3) \<subseteq> wanted" by (simp add: ps_ready_def)
  with r3 have r4: "?R ps4"
    unfolding ps4_def by (auto intro!: run_all_rule [where I = ?R] deleteF_ready d)
  have "?R (snd (run_all (createF env a cl valid debug g) (ps_toReplace ps4) ps4))"
    by (rule run_all_rule [where I = ?R]) (rule r4, rule createF_ready [OF k])
  moreover have "ps' = snd (run_all (createF env a cl valid debug g) (ps_toReplace ps4) ps4)"
    using run unfolding carry_out_def Let_def ps4_def ps3_def ps2_def ps1_def
    by (auto split: prod.splits if_splits)
  ultimately show ?thesis by simp
qed

lemma mem_filterCrossVersion:
  "k \<in> set (filterCrossVersion a objs g keys) \<Longrightarrow> k \<in> set keys \<and> \<not> os_Contains objs (GroupKind g) k"
  by (auto simp: filterCrossVersion_def)

lemma process_ready:
  assumes ok: "os_ok allObjs" and k: "keeps cl I" and I: "I (as_world st)"
    and d: "\<And>objs existing w0 key w. desired_objects env a g allObjs = Inr objs \<Longrightarrow>
       list_existing env a cl g sel objs (as_world st) = (Inr existing, w0) \<Longrightarrow>
       map_of objs key \<noteq> None \<or>
         \<not> a_noPrune a \<and> \<not> os_Contains allObjs (GroupKind g) key \<and>
         (\<exists>obj. map_of existing key = Some obj \<and> map_of objs key = None \<and> prunable (ae_codec env) obj) \<Longrightarrow>
       I w \<Longrightarrow> I (snd (apply_delete cl g (ok_namespace key) (ok_name key) w))"
    and run: "process env a cl valid debug sel g allObjs st = (err, out, st')"
  shows "I (as_world st')"
proof (cases "desired_objects env a g allObjs")
  case (Inl e)
  with run I show ?thesis by (simp add: process_def)
next
  case (Inr objs)
  obtain x w where l: "list_existing env a cl g sel objs (as_world st) = (x, w)" by fastforce
  have Iw: "I w" by (rule list_existing_keeps [OF k I l])
  show ?thesis
  proof (cases x)
    case Inl
    with run Inr l Iw show ?thesis by (auto simp: process_def)
  next
    case (Inr existing)
    note D = \<open>desired_objects env a g allObjs = Inr objs\<close>
    note L = l [unfolded Inr]
    obtain c dl u where cs: "compareSets (ae_codec env) existing objs = (c, dl, u)" by (metis prod_cases3)
    have gok: "gm_ok objs"
      by (rule desired_objects_from [OF ok D]) (simp add: from_desired_def)
    note parts = compareSets_parts [OF list_existing_ok [OF L] gok cs]
    define ps where "ps = \<lparr>ps_st = st\<lparr>as_world := w\<rparr>, ps_objs = objs, ps_existing = existing,
        ps_toUpdate = u, ps_toReplace = []\<rparr>"
    obtain ps' where co: "carry_out env a cl valid debug g c (filterCrossVersion a allObjs g dl) ps = (err, ps')"
      "st' = ps_st ps'"
      using run unfolding process_def D sum.case L prod.case Let_def cs ps_def
      by (auto split: prod.splits)
    have "ps_ready I (dom (map_of objs)) ps"
      using Iw parts(2) by (auto simp: ps_ready_def ps_def)
    then have "ps_ready I (dom (map_of objs)) ps'"
    proof (rule carry_out_ready [OF k _ _ co(1)])
      fix key v
      assume "key \<in> dom (map_of objs) \<or>
          \<not> a_noPrune a \<and> key \<in> set (filterCrossVersion a allObjs g dl)" and v: "I v"
      then have "map_of objs key \<noteq> None \<or>
         \<not> a_noPrune a \<and> \<not> os_Contains allObjs (GroupKind g) key \<and>
         (\<exists>obj. map_of existing key = Some obj \<and> map_of objs key = None \<and> prunable (ae_codec env) obj)"
        using parts(3) by (auto dest!: mem_filterCrossVersion)
      from d [OF D L this v]
      show "I (snd (apply_delete cl g (ok_namespace key) (ok_name key) v))" .
    qed
    with co(2) show ?thesis by (simp add: ps_ready_def)
  qed
qed


lemma ex_keeps_deleted:
  assumes "\<And>w w'. ew_deleted w = ew_deleted w' \<Longrightarrow> I w = I w'"
  shows "keeps ex_client I"
proof -
  have "I (w\<lparr>ew_store := x\<rparr>) = I w" for w x by (rule assms) simp
  then show ?thesis by (auto simp: keeps_def ex_client_def)
qed

text \<open>With pruning off, an object that is not wanted is not deleted.\<close>

definition ex_apply_state :: "ex_world apply_state" where
  "ex_apply_state = \<lparr>as_world = \<lparr>ew_store = [(object_key ex_owner, ex_owner)], ew_deleted = []\<rparr>, as_patchCache = []\<rparr>"


section \<open>Taking over what exists\<close>

lemma owner_label_not_applied [simp]:
  "LabelApplied \<noteq> LabelSubContext" "LabelApplied \<noteq> LabelGVK" "LabelApplied \<noteq> LabelName"
  "LabelApplied \<noteq> LabelNamespace" "LabelApplied \<noteq> AnnotationUpdate" "LabelApplied \<noteq> AnnotationPrune"
  "LabelApplied \<noteq> AnnotationCreate"
  "AnnotationUpdate \<noteq> LabelApplied" "AnnotationPrune \<noteq> LabelApplied" "AnnotationCreate \<noteq> LabelApplied"
  by (simp_all add: label_names)

text \<open>Preparing an object only adds the applied annotation and sets the kind.\<close>

lemma prepareObjectForCreate_eq:
  assumes "prepareObjectForCreate env g obj True = Inr obj'"
  obtains s where "serializeApplied env obj = Inr s"
    "obj' = obj\<lparr>k_uid := [], k_creationTimestamp := None,
       k_annotations := AList.update LabelApplied (appliedToAnnotation (ae_codec env) s) (k_annotations obj),
       k_gvk := g\<rparr>"
  using assms by (auto simp: prepareObjectForCreate_def Let_def split: sum.splits)

lemma prepared_same:
  assumes "prepareObjectForCreate env g obj True = Inr obj'"
  shows "isAssigningSubContext e obj' = isAssigningSubContext e obj"
    and "isAllowOwnerTransition valid e obj' = isAllowOwnerTransition valid e obj"
    and "should obj' AnnotationUpdate = should obj AnnotationUpdate"
    and "k_labels obj' = k_labels obj"
    and "object_key obj' = object_key obj"
  by (rule prepareObjectForCreate_eq [OF assms];
      simp add: isAssigningSubContext_def isAllowOwnerTransition_def should_def Let_def object_key_def)+

text \<open>
  \<open>failed_create_keeps\<close>: a failing create leaves the object it was given as it was. The client
  decodes an answer into the object only when the request succeeds.
\<close>

definition failed_create_keeps :: "'w kclient \<Rightarrow> bool" where
  "failed_create_keeps cl \<longleftrightarrow>
     (\<forall>ob w e ob' w'. cl_create cl ob w = ((Some e, ob'), w') \<longrightarrow> ob' = ob)"

text \<open>\<open>foreign\<close>: marked as the object of an owner that differs in kind, namespace or name.\<close>

definition foreign :: "kobject \<Rightarrow> kobject \<Rightarrow> bool" where
  "foreign existing desired \<longleftrightarrow>
     gm_str (k_labels existing) LabelHash \<noteq> [] \<and>
     (\<exists>l \<in> {LabelGVK, LabelNamespace, LabelName}. gm_str (k_annotations existing) l \<noteq> [] \<and>
        gm_str (k_annotations existing) l \<noteq> gm_str (k_annotations desired) l)"

lemma foreign_refused:
  "foreign existing desired \<Longrightarrow>
     \<not> isAssigningSubContext existing desired \<and> \<not> isAllowOwnerTransition valid existing desired"
  by (auto simp: foreign_def isAssigningSubContext_def isAllowOwnerTransition_def Let_def)

lemma createF_step:
  assumes ens: "\<not> a_ensure a" and d: "map_of (ps_objs ps) k = Some desired"
    and p: "prepareObjectForCreate env g desired True = Inr obj"
    and c: "cl_create cl obj (ps_world ps) = ((Some e, obj), w1)" and ae: "IsAlreadyExists (Some e)"
    and gt: "apply_get env cl g (Some desired) (ok_namespace k) (ok_name k) w1 = (Inr existing, w2)"
  shows "snd (createF env a cl valid debug g k ps) =
     (if gm_str (k_labels existing) LabelHash \<noteq> [] \<and> \<not> isAssigningSubContext existing desired \<and>
         \<not> isAllowOwnerTransition valid existing desired
      then set_world w2 ps
      else (set_world w2 ps)
        \<lparr>ps_toUpdate := ps_toUpdate ps @ (if should desired AnnotationUpdate then [k] else []),
         ps_existing := AList.update k existing (ps_existing ps)\<rparr>)"
    and "fst (createF env a cl valid debug g k ps) = None \<longleftrightarrow>
      \<not> (gm_str (k_labels existing) LabelHash \<noteq> [] \<and> \<not> isAssigningSubContext existing desired \<and>
         \<not> isAllowOwnerTransition valid existing desired)"
  using ens d p c ae gt prepared_same [OF p]
  by (auto simp: createF_def apply_create_def set_world_def Let_def)

text \<open>An object of another owner is never taken over. When creating a wanted object fails
  because it exists, and the existing object is marked as owned by an owner of a different kind,
  namespace or name, then the create step ends in an error and changes nothing: the object is
  neither recorded as existing nor scheduled for an update.\<close>

theorem createF_foreign:
  assumes "\<not> a_ensure a" and "map_of (ps_objs ps) k = Some desired"
    and "prepareObjectForCreate env g desired True = Inr obj"
    and "cl_create cl obj (ps_world ps) = ((Some e, obj), w1)" and "IsAlreadyExists (Some e)"
    and "apply_get env cl g (Some desired) (ok_namespace k) (ok_name k) w1 = (Inr existing, w2)"
    and "foreign existing desired"
  shows "\<exists>e'. createF env a cl valid debug g k ps = (Some e', set_world w2 ps)"
proof -
  have f: "gm_str (k_labels existing) LabelHash \<noteq> [] \<and> \<not> isAssigningSubContext existing desired \<and>
      \<not> isAllowOwnerTransition valid existing desired"
    using assms(7) foreign_refused [OF assms(7), of valid] by (simp add: foreign_def)
  note s = createF_step [OF assms(1-6), of valid debug]
  from s(2) f obtain e' where "fst (createF env a cl valid debug g k ps) = Some e'" by auto
  with s(1) f have "createF env a cl valid debug g k ps = (Some e', set_world w2 ps)"
    by (intro prod_eqI) simp_all
  then show ?thesis ..
qed

definition ex_foreign :: kobject where
  "ex_foreign = (ex_obj ''ns'' ''a'')\<lparr>k_labels := [(LabelHash, ''h'')], k_annotations := [(LabelName, ''other'')]\<rparr>"

definition ex_wanted :: kobject where
  "ex_wanted = (ex_obj ''ns'' ''a'')\<lparr>k_annotations := [(LabelName, ''app'')]\<rparr>"

definition ex_ps :: "ex_world process_state" where
  "ex_ps = \<lparr>ps_st = \<lparr>as_world = \<lparr>ew_store = [(object_key ex_foreign, ex_foreign)], ew_deleted = []\<rparr>,
       as_patchCache = []\<rparr>, ps_objs = [(object_key ex_wanted, ex_wanted)], ps_existing = [],
     ps_toUpdate = [], ps_toReplace = []\<rparr>"

lemma ex_failed_create_keeps: "failed_create_keeps ex_client"
  by (auto simp: failed_create_keeps_def ex_client_def split: if_splits)

lemma createF_foreign_witness:
  "\<exists>e'. createF ex_env ex_cfg ex_client [] ''d'' ex_gvk (object_key ex_wanted) ex_ps = (Some e', ex_ps)"
proof -
  obtain obj where p: "prepareObjectForCreate ex_env ex_gvk ex_wanted True = Inr obj"
    by (simp add: prepareObjectForCreate_def serializeApplied_def ToMapInterface_def ex_env_def Let_def)
  have key: "object_key ex_wanted = object_key ex_foreign" "object_key ex_foreign = \<lparr>ok_name = ''a'', ok_namespace = ''ns''\<rparr>"
    by (simp_all add: ex_wanted_def ex_foreign_def ex_obj_def object_key_def)
  have w: "ps_world ex_ps = \<lparr>ew_store = [(object_key ex_foreign, ex_foreign)], ew_deleted = []\<rparr>"
    by (simp add: ex_ps_def)
  have c: "cl_create ex_client obj (ps_world ex_ps) = ((Some (Api AlreadyExists (k_name obj)), obj), ps_world ex_ps)"
    using prepared_same(5) [OF p] key by (simp add: ex_client_def w)
  have gt: "apply_get ex_env ex_client ex_gvk (Some ex_wanted) (ok_namespace (object_key ex_wanted))
      (ok_name (object_key ex_wanted)) (ps_world ex_ps) = (Inr ex_foreign, ps_world ex_ps)"
    using key by (simp add: apply_get_def ex_client_def w)
  have f: "foreign ex_foreign ex_wanted"
    by (simp add: foreign_def ex_foreign_def ex_wanted_def gm_str_def)
  have m: "map_of (ps_objs ex_ps) (object_key ex_wanted) = Some ex_wanted" by (simp add: ex_ps_def)
  have ens: "\<not> a_ensure ex_cfg" by (simp add: ex_cfg_def NewApply_def)
  have "set_world (ps_world ex_ps) ex_ps = ex_ps" by (simp add: set_world_def)
  with createF_foreign [OF ens m p c _ gt f] show ?thesis by simp
qed



section \<open>An apply that must not prune\<close>

lemma process_all_rule:
  assumes "I s" and "\<And>g s. g \<in> set gs \<Longrightarrow> I s \<Longrightarrow> I (snd (f g s))"
  shows "I (snd (process_all f gs s))"
  using assms
proof (induction gs arbitrary: s)
  case (Cons g gs)
  have "I (snd (f g s))" using Cons.prems by simp
  then have "I (snd (process_all f gs (snd (f g s))))" using Cons by (meson list.set_intros(2))
  then show ?case by (auto split: prod.split option.split)
qed simp

text \<open>\<open>marks_ignored\<close>: labels and annotations do not decide the kind of an object.\<close>

definition marks_ignored :: "apply_env \<Rightarrow> bool" where
  "marks_ignored env \<longleftrightarrow> (\<forall>ls as obj. gvk_for (ae_scheme env) (mark ls as obj) = gvk_for (ae_scheme env) obj)"

text \<open>The names an apply was given for a kind.\<close>

definition given :: "kscheme \<Rightarrow> kobject option list \<Rightarrow> gvk \<Rightarrow> gostring \<Rightarrow> bool" where
  "given sch objs g name \<longleftrightarrow> (\<exists>ob. Some ob \<in> set objs \<and> gvk_for sch ob = Inr g \<and> k_name ob = name)"

lemma inject_given:
  assumes new: "NewObjectSet (ae_scheme env) objs = (os, None)" and mi: "marks_ignored env"
    and inj: "injectLabelsAndAnnotations env os ls as = Inr out"
  shows "os_ok out" and "os_view out (g, k) \<noteq> None \<Longrightarrow> given (ae_scheme env) objs g (ok_name k)"
proof -
  show "os_ok out"
    using inj NewObjectSet_ok
    by (auto simp: injectLabelsAndAnnotations_new split: prod.splits option.splits)
  have same: "gvk_for (ae_scheme env) (mark ls as obj) = gvk_for (ae_scheme env) obj" for obj
    using mi by (simp add: marks_ignored_def)
  assume "os_view out (g, k) \<noteq> None"
  with inject_view [OF NewObjectSet_ok [OF new] NewObjectSet_typed [OF new] same inj, of "(g, k)"]
  obtain ob where v: "os_view os (g, k) = Some ob" by auto
  then have "((g, k), ob) \<in> set (added_pairs (ae_scheme env) objs)"
    by (auto simp: NewObjectSet_view [OF new] dest!: map_of_SomeD)
  then have "Some ob \<in> set objs" "gvk_for (ae_scheme env) ob = Inr g" "object_key ob = k"
    by (auto simp: added_pairs_def split: option.splits sum.splits)
  then show "given (ae_scheme env) objs g (ok_name k)" by (auto simp: given_def)
qed

lemma apply_set_no_prune:
  assumes k: "keeps cl I" and np: "a_noPrune a" and mi: "marks_ignored env"
    and new: "NewObjectSet (ae_scheme env) objs = (os, None)" and I: "I (as_world st)"
    and d: "\<And>g (key :: objkey) w. given (ae_scheme env) objs g (ok_name key) \<Longrightarrow> I w \<Longrightarrow>
              I (snd (apply_delete cl g (ok_namespace key) (ok_name key) w))"
    and run: "apply_set env a cl valid os st = (e, st')"
  shows "I (as_world st')"
proof (cases "\<exists>ls as out sel. GetLabelsAndAnnotations env (a_ownerSubContext a) (a_owner a) = Inr (ls, as) \<and>
    injectLabelsAndAnnotations env os ls as = Inr out \<and> GetSelector env ls = Inr sel")
  case False
  with run I show ?thesis
    by (auto simp: apply_set_def Let_def split: sum.splits prod.splits)
next
  case True
  then obtain ls as out sel where m: "GetLabelsAndAnnotations env (a_ownerSubContext a) (a_owner a) = Inr (ls, as)"
    and inj: "injectLabelsAndAnnotations env os ls as = Inr out" and sel: "GetSelector env ls = Inr sel" by auto
  let ?f = "\<lambda>g st. case process env a cl valid (debugID a) sel g out st of (e, _, st') \<Rightarrow> (e, st')"
  note out = inject_given [OF new mi inj]
  have each: "I (as_world (snd (?f g s)))" if "I (as_world s)" for g s
  proof -
    obtain e1 o1 s1 where p: "process env a cl valid (debugID a) sel g out s = (e1, o1, s1)" by (metis prod_cases3)
    have "I (as_world s1)"
    proof (rule process_ready [OF out(1) k that _ p])
      fix dobjs existing w0 key w
      assume D: "desired_objects env a g out = Inr dobjs"
        and c: "map_of dobjs key \<noteq> None \<or> \<not> a_noPrune a \<and> \<not> os_Contains out (GroupKind g) key \<and>
          (\<exists>obj. map_of existing key = Some obj \<and> map_of dobjs key = None \<and> prunable (ae_codec env) obj)"
        and Iw: "I w"
      from c np have "key \<in> dom (map_of dobjs)" by auto
      obtain nsed where "from_desired env (a_owner a) nsed (gm_list (ObjectsByGVK (Some out)) g) dobjs"
        by (rule desired_objects_from [OF out(1) D])
      then have names: "ok_name ` dom (map_of dobjs) = ok_name ` dom (map_of (gm_list (ObjectsByGVK (Some out)) g))"
        by (simp add: from_desired_def)
      have "ok_name key \<in> ok_name ` dom (map_of dobjs)" using \<open>key \<in> dom (map_of dobjs)\<close> by (rule imageI)
      then obtain k0 where k0: "k0 \<in> dom (map_of (gm_list (ObjectsByGVK (Some out)) g))" "ok_name key = ok_name k0"
        unfolding names by (rule imageE)
      have "os_view out (g, k0) \<noteq> None" using k0(1) by (auto simp: os_ok_objects(2) [OF out(1)])
      with k0(2) obtain k0 where "os_view out (g, k0) \<noteq> None" "ok_name k0 = ok_name key" by metis
      with out(2) have "given (ae_scheme env) objs g (ok_name key)" by metis
      from d [OF this Iw] show "I (snd (apply_delete cl g (ok_namespace key) (ok_name key) w))" .
    qed
    with p show ?thesis by simp
  qed
  obtain errs s1 where pa: "process_all ?f (GVKOrder (ae_scheme env) os (knownGVK a)) st = (errs, s1)" by fastforce
  have "I (as_world (snd (process_all ?f (GVKOrder (ae_scheme env) os (knownGVK a)) st)))"
    by (rule process_all_rule [where I = "\<lambda>s. I (as_world s)"]) (rule I, rule each)
  with pa have "I (as_world s1)" by simp
  moreover have "st' = s1"
    using run pa unfolding apply_set_def Let_def m inj sel sum.case prod.case by simp
  ultimately show ?thesis by simp
qed

lemma Apply_no_prune:
  assumes k: "keeps cl I" and np: "a_noPrune a" and mi: "marks_ignored env" and I: "I (as_world st)"
    and d: "\<And>g (key :: objkey) w. given (ae_scheme env) objs g (ok_name key) \<Longrightarrow> I w \<Longrightarrow>
              I (snd (apply_delete cl g (ok_namespace key) (ok_name key) w))"
    and run: "Apply env a cl valid owner objs st = (e, st')"
  shows "I (as_world st')"
proof -
  have keep: "a_noPrune ((withPruneGVKs gs a)\<lparr>a_owner := owner\<rparr>)"
    "a_noPrune ((withPruneGVKs gs a)\<lparr>a_owner := owner, a_ownerGVK := g\<rparr>)" for gs g
    using np by (simp_all add: withPruneGVKs_def Let_def)
  show ?thesis
  proof (cases "\<exists>gs a' os. gvks_for (ae_scheme env) (a_pruneObjects a) = Inr gs \<and> a_noPrune a' \<and>
      NewObjectSet (ae_scheme env) objs = (os, None) \<and> apply_set env a' cl valid os st = (e, st')")
    case True
    then show ?thesis using apply_set_no_prune [OF k _ mi _ I d] by blast
  next
    case False
    have "st' = st"
    proof (cases "gvks_for (ae_scheme env) (a_pruneObjects a)")
      case (Inr gs)
      with False run keep show ?thesis
        by (cases "NewObjectSet (ae_scheme env) objs"; cases "snd (NewObjectSet (ae_scheme env) objs)"; cases owner)
          (fastforce simp: Apply_def Let_def split: sum.splits)+
    qed (use run in \<open>simp add: Apply_def\<close>)
    with I show ?thesis by simp
  qed
qed

end
