(* ===== verification/HandlerSetProperties.thy ===== *)
theory HandlerSetProperties
  imports HandlerSet RouteProperties ApplyProperties
begin

text \<open>
  What processing a key guarantees: the rate limiter never loses a change, the prefixes of a key are
  read as they were written, a failing handler stops everything after it, and an apply that must not
  prune deletes nothing.
\<close>

section \<open>The limiter loses nothing\<close>

text \<open>
  The steps of the limiter: a change of a key at some time, a sleeper whose delay has passed, and
  forgetting the limiter of a deleted key. The state is the limiter with the list of keys that
  were triggered as replays.
\<close>

definition log_trig :: "(gvk \<times> gostring) list trigger_fn" where
  "log_trig = (\<lambda>g k d w. (None, w @ [(g, k)]))"

inductive bo_step ::
  "'l \<Rightarrow> (int \<Rightarrow> 'l \<Rightarrow> int \<times> 'l) \<Rightarrow> 'l backoff \<times> (gvk \<times> gostring) list \<Rightarrow>
     'l backoff \<times> (gvk \<times> gostring) list \<Rightarrow> bool"
  for new_limiter reserve where
  change: "bo_step new_limiter reserve (bo, w) (snd (checkDelay new_limiter reserve now g key bo), w)"
| awake: "k \<in> set (bo_sleepers bo) \<Longrightarrow> bo_step new_limiter reserve (bo, w) (wake log_trig k bo w)"
| forget: "bo_step new_limiter reserve (bo, w) (forgetBackoff g key bo, w)"

inductive bo_reach ::
  "'l \<Rightarrow> (int \<Rightarrow> 'l \<Rightarrow> int \<times> 'l) \<Rightarrow> 'l backoff \<times> (gvk \<times> gostring) list \<Rightarrow> bool"
  for new_limiter reserve where
  start: "bo_reach new_limiter reserve (\<lparr>bo_limiters = [], bo_waiting = [], bo_sleepers = []\<rparr>, [])"
| step: "bo_reach new_limiter reserve s \<Longrightarrow> bo_step new_limiter reserve s s' \<Longrightarrow> bo_reach new_limiter reserve s'"

inductive_cases bo_stepE: "bo_step new_limiter reserve s s'"

text \<open>The invariant: exactly one sleeper for each waiting key.\<close>

definition bo_inv :: "'l backoff \<Rightarrow> bool" where
  "bo_inv bo \<longleftrightarrow> gm_ok (bo_waiting bo) \<and> distinct (bo_sleepers bo) \<and>
     set (bo_sleepers bo) = dom (map_of (bo_waiting bo))"

lemma checkDelay_inv: "bo_inv bo \<Longrightarrow> bo_inv (snd (checkDelay new_limiter reserve now g key bo))"
  by (auto simp: checkDelay_def bo_inv_def Let_def split: prod.splits)

lemma wake_inv: "bo_inv bo \<Longrightarrow> bo_inv (fst (wake trig k bo w))"
  by (auto simp: wake_def bo_inv_def)

lemma forgetBackoff_inv: "bo_inv bo \<Longrightarrow> bo_inv (forgetBackoff g key bo)"
  by (simp add: forgetBackoff_def bo_inv_def)

lemma bo_reach_inv: "bo_reach new_limiter reserve s \<Longrightarrow> bo_inv (fst s)"
proof (induction rule: bo_reach.induct)
  case start
  show ?case by (simp add: bo_inv_def)
next
  case (step s s')
  from step(2) show ?case
  proof cases
    case (change bo w now g key)
    with step.IH show ?thesis by (simp add: checkDelay_inv)
  next
    case (awake k bo w)
    with step.IH show ?thesis by (simp add: wake_inv)
  next
    case (forget bo w g key)
    with step.IH show ?thesis by (simp add: forgetBackoff_inv)
  qed
qed

text \<open>C8: The rate limiter delays changes but never drops one, and never floods. In every reachable
  state there is exactly one sleeper for each key that waits; a change that is put off leaves its key
  waiting with a sleeper; and when that sleeper wakes, the key is triggered as a replay and stops
  waiting. While a key waits, further changes of it change nothing.\<close>

theorem backoff_never_drops:
  assumes "bo_reach new_limiter reserve (bo, w)"
    and "checkDelay new_limiter reserve now g key bo = (False, bo')"
    and "k = \<lparr>lk_key = key, lk_gvk = g\<rparr>"
  shows "distinct (bo_sleepers bo') \<and> set (bo_sleepers bo') = {x. map_of (bo_waiting bo') x \<noteq> None} \<and>
    k \<in> set (bo_sleepers bo') \<and>
    snd (wake log_trig k bo' w) = w @ [(g, ReplayPrefix @ key)] \<and>
    map_of (bo_waiting (fst (wake log_trig k bo' w))) k = None \<and>
    (\<forall>now'. checkDelay new_limiter reserve now' g key bo' = (False, bo'))"
proof -
  have "bo_inv bo" using bo_reach_inv [OF assms(1)] by simp
  then have inv: "bo_inv bo'"
    using checkDelay_inv [of bo new_limiter reserve now g key] assms(2) by simp
  have wait: "map_of (bo_waiting bo') k \<noteq> None"
    using assms(2,3) by (auto simp: checkDelay_def Let_def split: if_splits prod.splits option.splits)
  with inv have "k \<in> set (bo_sleepers bo')" by (auto simp: bo_inv_def)
  moreover have "\<forall>now'. checkDelay new_limiter reserve now' g key bo' = (False, bo')"
    using wait assms(3) by (auto simp: checkDelay_def Let_def)
  ultimately show ?thesis
    using inv assms(3) by (auto simp: bo_inv_def wake_def log_trig_def dom_def)
qed

definition ex_limiter :: "int \<Rightarrow> nat \<Rightarrow> int \<times> nat" where
  "ex_limiter now l = (if l = 0 then 5 else 0, l - 1)"

lemma backoff_never_drops_witness:
  "snd (wake log_trig \<lparr>lk_key = ''a'', lk_gvk = ex_cm\<rparr>
     (snd (checkDelay (0::nat) ex_limiter 0 ex_cm ''a'' \<lparr>bo_limiters = [], bo_waiting = [], bo_sleepers = []\<rparr>)) []) =
   [(ex_cm, ReplayPrefix @ ''a'')]"
proof -
  let ?bo = "\<lparr>bo_limiters = [], bo_waiting = [], bo_sleepers = []\<rparr> :: nat backoff"
  have r: "bo_reach 0 ex_limiter (?bo, [])" by (rule bo_reach.start)
  obtain bo' where c: "checkDelay 0 ex_limiter 0 ex_cm ''a'' ?bo = (False, bo')"
    by (simp add: checkDelay_def ex_limiter_def Let_def)
  from backoff_never_drops [OF r c refl] c show ?thesis by simp
qed

section \<open>Keys\<close>

lemma prefixes_differ: "\<not> has_prefix (TriggerPrefix @ k) ReplayPrefix" "\<not> has_prefix (ReplayPrefix @ k) TriggerPrefix"
  by (simp_all add: TriggerPrefix_def ReplayPrefix_def)

text \<open>The prefixes of a key are read as they are written. A plain key, a trigger, a replay and
  a replay that was itself triggered (which is how the backend enqueues a sleeper's key) are told
  apart and give back the key, for every key that does not itself start with a prefix; only a plain
  key is subject to the rate limiter.\<close>

theorem parse_key_roundtrip:
  assumes "\<not> has_prefix key TriggerPrefix" and "\<not> has_prefix key ReplayPrefix"
  shows "parse_key key = (False, False, key) \<and>
    parse_key (TriggerPrefix @ key) = (True, False, key) \<and>
    parse_key (ReplayPrefix @ key) = (False, True, key) \<and>
    parse_key (TriggerPrefix @ ReplayPrefix @ key) = (False, True, key)"
  using assms prefixes_differ by (simp add: parse_key_def Let_def)

lemma parse_key_roundtrip_witness: "parse_key (TriggerPrefix @ ReplayPrefix @ ''ns/app'') = (False, True, ''ns/app'')"
  using parse_key_roundtrip [of "''ns/app''"] by (simp add: TriggerPrefix_def ReplayPrefix_def)

section \<open>Errors stop the work\<close>

lemma newRequestResponse_world:
  "newRequestResponse g key obj trigger s = (req, r, s1) \<Longrightarrow>
     rs_world s1 = rs_world s \<and> rs_matchers s1 = rs_matchers s \<and> rs_watching s1 = rs_watching s \<and>
     rq_gvk req = g \<and> rq_key req = key \<and> rq_fromTrigger req = trigger \<and> r = new_response \<and>
     (rq_object req = None \<longleftrightarrow> obj = None)"
  by (auto simp: newRequestResponse_def alloc_def split: option.splits prod.splits)

text \<open>An object is only marked as processed when it was. When the handlers fail and the error
  handler (if there is one) keeps the error, \<open>handle\<close> answers with it and stops: no trigger is fired,
  no watch of a deleted object is removed, nothing is applied and no status is stored; the world, the
  trigger table and the cache are as the handlers left them.\<close>

theorem handle_error_stops:
  assumes "newRequestResponse g key unmodified trigger (hs_r s) = (req, r, s1)"
    and "handlers_Handle (h_handlers h) req r s1 = (Some e, r2, s2)"
    and "handlers_Handles (h_handlers h) req"
    and "handleError h req r2 (Some e) s2 = (Some e', r3, s3)"
  shows "handle h g key unmodified trigger s = ((None, Some e'), s\<lparr>hs_r := s3\<rparr>) \<and>
    (h_onError h = None \<longrightarrow> e' = e \<and> s3 = s2)"
  using assms by (auto simp: handle_def run_handlers_def handleError_def)

definition ex_handler_set :: "(gvk \<times> gostring) list handler_set" where
  "ex_handler_set = \<lparr>h_name = ''ctl'', h_backend = ex_backend, h_handlers = AddHandler ex_cm (ex_fail ''busy'') [],
     h_onError = None, h_sem_eq = (=), h_apply_env = ex_env, h_reconcilers = [], h_validOwnerChange = []\<rparr>"

lemma handle_error_stops_witness:
  "fst (handle ex_handler_set ex_cm ''ns/app'' None False \<lparr>hs_r = ex_rstate, hs_patchCache = []\<rparr>) =
     (None, Some (Plain ''busy''))"
proof -
  let ?s = "\<lparr>hs_r = ex_rstate, hs_patchCache = []\<rparr>"
  obtain req r s1 where n: "newRequestResponse ex_cm ''ns/app'' None False (hs_r ?s) = (req, r, s1)"
    by (metis prod_cases3)
  have g: "rq_gvk req = ex_cm" "r = new_response" using newRequestResponse_world [OF n] by auto
  have hs: "gm_list (h_handlers ex_handler_set) (rq_gvk req) = [ex_fail ''busy'']"
    by (simp add: ex_handler_set_def AddHandler_def gm_list_def g)
  have hd: "handlers_Handle (h_handlers ex_handler_set) req r s1 = (Some (Plain ''busy''), r, s1)"
    by (simp add: handlers_Handle_def hs [unfolded g(1)] ex_fail_def g new_response_def take_request_object_def NewErrors_def)
  have hh: "handlers_Handles (h_handlers ex_handler_set) req"
    by (simp add: handlers_Handles_def hs [unfolded g(1)] g)
  have he: "handleError ex_handler_set req r (Some (Plain ''busy'')) s1 = (Some (Plain ''busy''), r, s1)"
    by (simp add: handleError_def ex_handler_set_def)
  from handle_error_stops [OF n hd hh he] show ?thesis by simp
qed

section \<open>Saving without pruning\<close>

lemma save_config_no_prune:
  "r_noPrune r \<or> r_objects r = [] \<and> r_delay r > 0 \<Longrightarrow> a_noPrune (save_config h r gs)"
  by (auto simp: save_config_def WithNoPrune_def)

text \<open>C5: Waiting does not destroy. When a handler disabled pruning, or produced no objects and asked
  to be retried, the apply that follows deletes no object but (to replace it) one of the objects the
  handler produced: any statement about the cluster that reading, listing, creating and patching keep, and
  that deleting those objects keeps, holds afterwards, whatever was applied for the owner before.\<close>

theorem save_without_pruning:
  assumes "r_noPrune r \<or> r_objects r = [] \<and> r_delay r > 0"
    and "keeps (b_client (h_backend h)) I" and "marks_ignored (h_apply_env h)" and "I (rs_world (hs_r s))"
    and "\<And>g (key :: objkey) w.
      given (ae_scheme (h_apply_env h)) (map (\<lambda>x. Some (deref (hs_r s) x)) (r_objects r)) g (ok_name key) \<Longrightarrow>
      I w \<Longrightarrow> I (snd (apply_delete (b_client (h_backend h)) g (ok_namespace key) (ok_name key) w))"
    and "run_apply h (save_config h r gs) owner (r_objects r) s = (e, s')"
  shows "I (rs_world (hs_r s'))"
proof -
  let ?st = "\<lparr>as_world = rs_world (hs_r s), as_patchCache = hs_patchCache s\<rparr>"
  obtain st where a: "Apply (h_apply_env h) (save_config h r gs) (b_client (h_backend h)) (h_validOwnerChange h) owner
      (map (\<lambda>x. Some (deref (hs_r s) x)) (r_objects r)) ?st = (e, st)" "rs_world (hs_r s') = as_world st"
    using assms(6) by (auto simp: run_apply_def split: prod.splits)
  have "I (as_world ?st)" using assms(4) by simp
  from Apply_no_prune [OF assms(2) save_config_no_prune [OF assms(1)] assms(3) this assms(5) a(1)] a(2)
  show ?thesis by simp
qed

definition ex_save_set :: "ex_world handler_set" where
  "ex_save_set = \<lparr>h_name = ''ctl'',
     h_backend = \<lparr>b_scheme = ex_scheme, b_watch = (\<lambda>g w. (None, w)), b_trigger = (\<lambda>g k d w. (None, w)), b_client = ex_client\<rparr>,
     h_handlers = [], h_onError = None, h_sem_eq = (=), h_apply_env = ex_env, h_reconcilers = [], h_validOwnerChange = []\<rparr>"

definition ex_save_state :: "ex_world hs_state" where
  "ex_save_state = \<lparr>hs_r = \<lparr>rs_heap = (\<lambda>x. ex_owner), rs_next = 0, rs_matchers = [], rs_gvks = [], rs_watching = [],
     rs_world = \<lparr>ew_store = [(object_key ex_owner, ex_owner)], ew_deleted = []\<rparr>\<rparr>, hs_patchCache = []\<rparr>"

lemma ex_marks_ignored: "marks_ignored ex_env"
  by (simp add: marks_ignored_def mark_def setAnnotations_def setLabels_def Let_def)

lemma save_without_pruning_witness:
  "ew_deleted (rs_world (hs_r (snd (run_apply ex_save_set
     (save_config ex_save_set (response_RetryAfter 5 new_response) [ex_gvk]) (Some ex_owner) [] ex_save_state)))) = []"
proof -
  let ?r = "response_RetryAfter 5 new_response"
  have r: "r_objects ?r = []" "r_delay ?r = 5" by (simp_all add: response_RetryAfter_def new_response_def)
  obtain e s' where run: "run_apply ex_save_set (save_config ex_save_set ?r [ex_gvk]) (Some ex_owner) (r_objects ?r) ex_save_state = (e, s')"
    by fastforce
  have "ew_deleted (rs_world (hs_r s')) = []"
  proof (rule save_without_pruning [OF _ _ _ _ _ run, where I = "\<lambda>w :: ex_world. ew_deleted w = []"])
    show "keeps (b_client (h_backend ex_save_set)) (\<lambda>w :: ex_world. ew_deleted w = [])"
      using ex_keeps_deleted [of "\<lambda>w. ew_deleted w = []"] by (simp add: ex_save_set_def)
  qed (simp_all add: r ex_save_set_def ex_marks_ignored ex_save_state_def given_def)
  with run r show ?thesis by simp
qed

section \<open>Saving a deleted object\<close>

text \<open>For a deleted object the owner is lost. The branch of \<open>save\<close> that makes an owner from the
  kind, namespace and name of the request assigns a variable of its own, so the owner that is applied
  with is nil: \<open>save\<close> does exactly the same for every deleted object, whichever its kind and key are.\<close>

theorem save_deleted_loses_owner:
  assumes "rq_object req = None" and "rq_object req' = None"
  shows "save h unmodified req r gs s = save h unmodified req' r gs s"
proof -
  have "save_status h unmodified req = save_status h unmodified req'"
    using assms by (simp add: fun_eq_iff save_status_def)
  moreover have "save_owner req (hs_r s) = save_owner req' (hs_r s)"
    using assms by (simp add: save_owner_def)
  ultimately show ?thesis by (simp only: save_def)
qed

lemma save_deleted_loses_owner_witness:
  "save ex_save_set None (ex_request\<lparr>rq_object := None\<rparr>) new_response [] ex_save_state =
   save ex_save_set None (ex_request\<lparr>rq_object := None, rq_gvk := ex_gvk, rq_name := ''other''\<rparr>) new_response [] ex_save_state"
  by (rule save_deleted_loses_owner) simp_all

end
