(* ===== verification/SharedHandlers.thy ===== *)
theory SharedHandlers
  imports GoErrors "HOL-Library.Word"
begin

text \<open>
  The handlers that share one controller, pkg/runtime/sharedhandler.go, and the transaction that
  defers their registration, pkg/runtime/transaction.go.

  \<open>OnChange\<close> copies the slice of handlers under the lock and ranges over the copy without it. The
  copy is a header only: the elements are in the array the removal of a handler shifts in place.
  So the slice is its array and its length, and the loop reads the array at each turn. \<open>removed i\<close>
  are the handlers that other goroutines remove right before turn \<open>i\<close>; with none of them
  the loop is the call on its own.
\<close>

section \<open>Entries\<close>

text \<open>
  A handler is given the key and the object (\<^const>\<open>None\<close> for nil) and answers an object and an
  error. \<open>'o\<close> is \<open>runtime.Object\<close>, \<open>'w\<close> the world.
\<close>

type_synonym ('o, 'w) shared_fn = "gostring \<Rightarrow> 'o option \<Rightarrow> 'w \<Rightarrow> ('o option \<times> err option) \<times> 'w"

record ('o, 'w) handlerEntry =
  he_id :: "64 word"
  he_name :: gostring
  he_handler :: "('o, 'w) shared_fn"

text \<open>\<open>sh_array\<close> is the backing array and \<open>sh_len\<close> the length of the slice \<open>handlers\<close>.\<close>

record ('o, 'w) SharedHandler =
  sh_idCounter :: "64 word"
  sh_array :: "('o, 'w) handlerEntry list"
  sh_len :: nat

definition sh_handlers :: "('o, 'w) SharedHandler \<Rightarrow> ('o, 'w) handlerEntry list" where
  "sh_handlers h = take (sh_len h) (sh_array h)"

definition new_SharedHandler :: "('o, 'w) SharedHandler" where
  "new_SharedHandler = \<lparr>sh_idCounter = 0, sh_array = [], sh_len = 0\<rparr>"

text \<open>
  \<open>Register\<close>; it returns the identifier that the end of the context removes. The new entry goes to
  the element after the slice, which \<open>append\<close> makes when the array has none.
\<close>

definition Register ::
  "gostring \<Rightarrow> ('o, 'w) shared_fn \<Rightarrow> ('o, 'w) SharedHandler \<Rightarrow> 64 word \<times> ('o, 'w) SharedHandler" where
  "Register name f h =
     (let i = sh_idCounter h + 1; e = \<lparr>he_id = i, he_name = name, he_handler = f\<rparr>
      in (i, h\<lparr>sh_idCounter := i,
               sh_array := sh_handlers h @ e # drop (Suc (sh_len h)) (sh_array h),
               sh_len := Suc (sh_len h)\<rparr>))"

text \<open>
  The removal: \<open>append(h[:i], h[i+1:]...)\<close> moves the later elements down by one place and leaves
  the last element of the array as it is.
\<close>

fun index_of :: "64 word \<Rightarrow> ('o, 'w) handlerEntry list \<Rightarrow> nat option" where
  "index_of i [] = None"
| "index_of i (e # es) = (if he_id e = i then Some 0 else map_option Suc (index_of i es))"

definition shift_out :: "nat \<Rightarrow> nat \<Rightarrow> 'a list \<Rightarrow> 'a list" where
  "shift_out i len arr = take i arr @ drop (Suc i) (take len arr) @ drop (len - 1) arr"

definition unregister :: "64 word \<Rightarrow> ('o, 'w) SharedHandler \<Rightarrow> ('o, 'w) SharedHandler" where
  "unregister hid h =
     (case index_of hid (sh_handlers h) of
        None \<Rightarrow> h
      | Some i \<Rightarrow> h\<lparr>sh_array := shift_out i (sh_len h) (sh_array h), sh_len := sh_len h - 1\<rparr>)"

section \<open>Calling the handlers\<close>

text \<open>
  The object for the next handler. \<open>uid\<close> is \<open>meta.Accessor\<close> and the UID it reads.
\<close>

definition next_obj :: "('o \<Rightarrow> err + gostring) \<Rightarrow> 'o option \<Rightarrow> 'o option \<Rightarrow> 'o option" where
  "next_obj uid obj newObj =
     (case newObj of
        None \<Rightarrow> obj
      | Some x \<Rightarrow> (case uid x of Inr u \<Rightarrow> if u \<noteq> [] then Some x else obj | Inl _ \<Rightarrow> Some x))"

definition handler_errs :: "('o, 'w) handlerEntry \<Rightarrow> err option \<Rightarrow> err list" where
  "handler_errs e err =
     (case err of None \<Rightarrow> [] | Some x \<Rightarrow> if errors_is x ErrIgnore then [] else [HandlerError (he_name e) x])"

fun OnChange_range ::
  "(nat \<Rightarrow> 64 word list) \<Rightarrow> ('o \<Rightarrow> err + gostring) \<Rightarrow> gostring \<Rightarrow> nat \<Rightarrow> nat \<Rightarrow> 'o option \<Rightarrow> err list \<Rightarrow>
     ('o, 'w) SharedHandler \<Rightarrow> 'w \<Rightarrow> err list \<times> ('o, 'w) SharedHandler \<times> 'w" where
  "OnChange_range removed uid key 0 i obj errs h w = (errs, h, w)"
| "OnChange_range removed uid key (Suc left) i obj errs h w =
     (let h = fold unregister (removed i) h; e = sh_array h ! i
      in case he_handler e key obj w of
           ((newObj, err), w1) \<Rightarrow>
             OnChange_range removed uid key left (Suc i) (next_obj uid obj newObj) (errs @ handler_errs e err) h w1)"

definition SharedHandler_OnChange ::
  "(nat \<Rightarrow> 64 word list) \<Rightarrow> ('o \<Rightarrow> err + gostring) \<Rightarrow> gostring \<Rightarrow> 'o option \<Rightarrow> ('o, 'w) SharedHandler \<Rightarrow> 'w \<Rightarrow>
     err option \<times> ('o, 'w) SharedHandler \<times> 'w" where
  "SharedHandler_OnChange removed uid key obj h w =
     (case OnChange_range removed uid key (sh_len h) 0 obj [] h w of
        (errs, h1, w1) \<Rightarrow> (errorList_ToErr errs, h1, w1))"

section \<open>Transactions\<close>

text \<open>A transaction is its list of functions to do; \<open>'s\<close> is the state they act on.\<close>

definition txn_do :: "('s \<Rightarrow> 's) \<Rightarrow> ('s \<Rightarrow> 's) list option \<Rightarrow> 's \<Rightarrow> ('s \<Rightarrow> 's) list option \<times> 's" where
  "txn_do f t s = (case t of None \<Rightarrow> (None, f s) | Some todo \<Rightarrow> (Some (todo @ [f]), s))"

definition Commit :: "('s \<Rightarrow> 's) list \<Rightarrow> 's \<Rightarrow> ('s \<Rightarrow> 's) list \<times> 's" where
  "Commit todo s = ([], fold (\<lambda>f s. f s) todo s)"

definition Rollback :: "('s \<Rightarrow> 's) list \<Rightarrow> 's \<Rightarrow> ('s \<Rightarrow> 's) list \<times> 's" where
  "Rollback todo s = ([], s)"

end
