(* ===== verification/SharedControllers.thy ===== *)
theory SharedControllers
  imports Controller SharedHandlers
begin

text \<open>
  Shared controllers, their factory and the backend: pkg/runtime/sharedcontroller.go,
  errorcontroller.go, sharedcontrollerfactory.go and backend.go.

  The factory keeps one shared controller per kind; a pointer to it is its kind, which is how the
  operations here name it. The inner controller is made on first use; when that fails an
  \<open>errorController\<close> takes its place, whose requests do nothing.
\<close>

datatype any_controller = RealController controller | ErrController err

fun any_Cache :: "any_controller \<Rightarrow> err option" where
  "any_Cache (RealController c) = None"
| "any_Cache (ErrController e) = Some e"

fun any_Enqueue :: "gostring \<Rightarrow> gostring \<Rightarrow> any_controller \<Rightarrow> any_controller" where
  "any_Enqueue ns n (RealController c) = RealController (Enqueue ns n c)"
| "any_Enqueue ns n (ErrController e) = ErrController e"

fun any_EnqueueAfter :: "gostring \<Rightarrow> gostring \<Rightarrow> int \<Rightarrow> any_controller \<Rightarrow> any_controller" where
  "any_EnqueueAfter ns n d (RealController c) = RealController (EnqueueAfter ns n d c)"
| "any_EnqueueAfter ns n d (ErrController e) = ErrController e"

fun any_EnqueueKey :: "gostring \<Rightarrow> any_controller \<Rightarrow> any_controller" where
  "any_EnqueueKey k (RealController c) = RealController (EnqueueKey k c)"
| "any_EnqueueKey k (ErrController e) = ErrController e"

fun any_Start :: "start_env \<Rightarrow> any_controller \<Rightarrow> (err option \<times> go_stmt list) \<times> any_controller" where
  "any_Start env (RealController c) = (case controller_Start env c of (r, c1) \<Rightarrow> (r, RealController c1))"
| "any_Start env (ErrController e) = ((None, []), ErrController e)"

section \<open>The shared controller\<close>

record ('o, 'w) sharedController =
  sc_controller :: "any_controller option"
  sc_handler :: "('o, 'w) SharedHandler"
  sc_started :: bool
  sc_startError :: "err option"
  sc_gvk :: gvk

definition new_sharedController :: "gvk \<Rightarrow> ('o, 'w) sharedController" where
  "new_sharedController g = \<lparr>sc_controller = None, sc_handler = new_SharedHandler, sc_started = False,
     sc_startError = None, sc_gvk = g\<rparr>"

text \<open>\<open>initController\<close>; \<open>deferred\<close> is what \<open>deferredController\<close> answers, used on the first call only.\<close>

definition initController ::
  "err + controller \<Rightarrow> ('o, 'w) sharedController \<Rightarrow> any_controller \<times> ('o, 'w) sharedController" where
  "initController deferred s =
     (case sc_controller s of
        Some c \<Rightarrow> (c, s)
      | None \<Rightarrow>
        (case deferred of
           Inl e \<Rightarrow> (ErrController e, s\<lparr>sc_startError := Some e, sc_controller := Some (ErrController e)\<rparr>)
         | Inr c \<Rightarrow> (RealController c, s\<lparr>sc_startError := None, sc_controller := Some (RealController c)\<rparr>)))"

text \<open>The requests, each on the controller that \<open>initController\<close> answers.\<close>

definition on_controller ::
  "(any_controller \<Rightarrow> any_controller) \<Rightarrow> err + controller \<Rightarrow> ('o, 'w) sharedController \<Rightarrow> ('o, 'w) sharedController" where
  "on_controller f deferred s = (case initController deferred s of (c, s1) \<Rightarrow> s1\<lparr>sc_controller := Some (f c)\<rparr>)"

definition sc_Enqueue :: "gostring \<Rightarrow> gostring \<Rightarrow> err + controller \<Rightarrow> ('o, 'w) sharedController \<Rightarrow> ('o, 'w) sharedController" where
  "sc_Enqueue ns n = on_controller (any_Enqueue ns n)"

definition sc_EnqueueAfter :: "gostring \<Rightarrow> gostring \<Rightarrow> int \<Rightarrow> err + controller \<Rightarrow> ('o, 'w) sharedController \<Rightarrow> ('o, 'w) sharedController" where
  "sc_EnqueueAfter ns n d = on_controller (any_EnqueueAfter ns n d)"

definition sc_EnqueueKey :: "gostring \<Rightarrow> err + controller \<Rightarrow> ('o, 'w) sharedController \<Rightarrow> ('o, 'w) sharedController" where
  "sc_EnqueueKey k = on_controller (any_EnqueueKey k)"

definition sc_Cache :: "err + controller \<Rightarrow> ('o, 'w) sharedController \<Rightarrow> err option \<times> ('o, 'w) sharedController" where
  "sc_Cache deferred s = (case initController deferred s of (c, s1) \<Rightarrow> (any_Cache c, s1))"

definition sc_Start ::
  "start_env \<Rightarrow> ('o, 'w) sharedController \<Rightarrow> (err option \<times> go_stmt list) \<times> ('o, 'w) sharedController" where
  "sc_Start env s =
     (case sc_controller s of
        None \<Rightarrow> ((sc_startError s, []), s)
      | Some c \<Rightarrow>
        if sc_startError s \<noteq> None then ((sc_startError s, []), s)
        else if sc_started s then ((None, []), s)
        else (case any_Start env c of
                ((Some e, gos), c1) \<Rightarrow> ((Some e, gos), s\<lparr>sc_controller := Some c1\<rparr>)
              | ((None, gos), c1) \<Rightarrow> ((None, gos), s\<lparr>sc_controller := Some c1, sc_started := True\<rparr>)))"

text \<open>The end of the context of \<open>Start\<close>.\<close>

definition sc_Stop :: "('o, 'w) sharedController \<Rightarrow> ('o, 'w) sharedController" where
  "sc_Stop s = s\<lparr>sc_started := False\<rparr>"

text \<open>
  The registration of a handler, the function that \<open>RegisterHandler\<close> hands to the transaction.
  On a controller that has started every object in the cache is enqueued for the new handler. The
  outside is whether the scheme makes the list (\<^const>\<open>None\<close> is a failure, whose error is overwritten
  before it is read) and the objects of the cache. The first component is the value of
  \<open>returnErr\<close>; an error cancels the context, which removes the handler again; the panic
  on a list that was not made leaves it.
\<close>

record register_env =
  re_NewList :: "err option"
  re_List :: "err + (gostring \<times> gostring) list"

definition enqueue_all :: "(gostring \<times> gostring) list \<Rightarrow> any_controller \<Rightarrow> any_controller" where
  "enqueue_all objs c = fold (\<lambda>(ns, n). any_EnqueueKey (keyFunc ns n)) objs c"

definition register_body ::
  "register_env \<Rightarrow> gostring \<Rightarrow> ('o, 'w) shared_fn \<Rightarrow> ('o, 'w) sharedController \<Rightarrow>
     err option \<times> ('o, 'w) sharedController" where
  "register_body env name f s =
     (case Register name f (sc_handler s) of (hid, h) \<Rightarrow>
       (let s1 = s\<lparr>sc_handler := h\<rparr>; cancel = s\<lparr>sc_handler := unregister hid h\<rparr>
        in if \<not> sc_started s1 then (None, s1)
           else (case sc_controller s1 of
                   None \<Rightarrow> (Some NilDereference, s1)
                 | Some c \<Rightarrow>
                   (case any_Cache c of
                      Some e \<Rightarrow> (Some e, cancel)
                    | None \<Rightarrow>
                      if re_NewList env \<noteq> None then (Some NilDereference, s1)
                      else (case re_List env of
                              Inl e \<Rightarrow> (Some e, cancel)
                            | Inr objs \<Rightarrow> (None, s1\<lparr>sc_controller := Some (enqueue_all objs c)\<rparr>))))))"

text \<open>
  \<open>RegisterHandler\<close> ends with \<open>return nil\<close>, which overwrites \<open>returnErr\<close>: its answer is no error.
\<close>

definition RegisterHandler ::
  "err + controller \<Rightarrow> register_env \<Rightarrow> gostring \<Rightarrow> ('o, 'w) shared_fn \<Rightarrow>
     (('o, 'w) sharedController \<Rightarrow> ('o, 'w) sharedController) list option \<Rightarrow> ('o, 'w) sharedController \<Rightarrow>
     err option \<times> (('o, 'w) sharedController \<Rightarrow> ('o, 'w) sharedController) list option \<times> ('o, 'w) sharedController" where
  "RegisterHandler deferred env name f txn s =
     (case initController deferred s of (c, s1) \<Rightarrow>
       (case txn_do (\<lambda>s. snd (register_body env name f s)) txn s1 of (txn', s2) \<Rightarrow> (None, txn', s2)))"

section \<open>The factory\<close>

text \<open>
  \<open>fa_deferred\<close> is the constructor of a controller, \<^const>\<open>New\<close> on the scheme, the cache and the rate
  limiter of the factory.
\<close>

record ('o, 'w) factory =
  fa_controllers :: "(gvk, ('o, 'w) sharedController) gomap"
  fa_deferred :: "gvk \<Rightarrow> err + controller"
  fa_workers :: int
  fa_kindWorkers :: "(gvk, int) gomap"

definition ForKind :: "gvk \<Rightarrow> ('o, 'w) factory \<Rightarrow> ('o, 'w) factory" where
  "ForKind g fa =
     (case map_of (fa_controllers fa) g of
        Some s \<Rightarrow> fa
      | None \<Rightarrow> fa\<lparr>fa_controllers := AList.update g (new_sharedController g) (fa_controllers fa)\<rparr>)"

definition NewSharedControllerFactory ::
  "(gvk \<Rightarrow> err + controller) \<Rightarrow> (int \<times> (gvk, int) gomap) option \<Rightarrow> ('o, 'w) factory" where
  "NewSharedControllerFactory deferred opts =
     (let (workers, kinds) = (case opts of None \<Rightarrow> (0, []) | Some p \<Rightarrow> p)
      in \<lparr>fa_controllers = [], fa_deferred = deferred,
          fa_workers = (if workers = 0 then 5 else workers), fa_kindWorkers = kinds\<rparr>)"

definition getWorkers :: "('o, 'w) factory \<Rightarrow> gvk \<Rightarrow> int \<Rightarrow> int" where
  "getWorkers fa g workers =
     (case map_of (fa_kindWorkers fa) g of
        Some w \<Rightarrow> w
      | None \<Rightarrow> if workers > 0 then workers else fa_workers fa)"

text \<open>An operation on the shared controller of a kind, after \<open>ForKind\<close>.\<close>

definition at_kind ::
  "gvk \<Rightarrow> (('o, 'w) sharedController \<Rightarrow> 'r \<times> ('o, 'w) sharedController) \<Rightarrow> ('o, 'w) factory \<Rightarrow> 'r option \<times> ('o, 'w) factory" where
  "at_kind g f fa =
     (case map_of (fa_controllers fa) g of
        None \<Rightarrow> (None, fa)
      | Some s \<Rightarrow> (case f s of (r, s1) \<Rightarrow>
                    (Some r, fa\<lparr>fa_controllers := AList.update g s1 (fa_controllers fa)\<rparr>)))"

text \<open>
  \<open>Start\<close> of the factory: the controllers that exist when it is called, in any order, up to the
  first error. The answer has the kinds that started running, each with its workers.
\<close>

fun start_each ::
  "(gvk \<Rightarrow> start_env) \<Rightarrow> int \<Rightarrow> gvk list \<Rightarrow> ('o, 'w) factory \<Rightarrow> (err option \<times> (gvk \<times> int) list) \<times> ('o, 'w) factory" where
  "start_each env dw [] fa = ((None, []), fa)"
| "start_each env dw (g # gs) fa =
     (let w = getWorkers fa g dw
      in case at_kind g (sc_Start (env g)) fa of
           (None, fa1) \<Rightarrow> start_each env dw gs fa1
         | (Some (Some e, gos), fa1) \<Rightarrow> ((Some e, []), fa1)
         | (Some (None, gos), fa1) \<Rightarrow>
             (case start_each env dw gs fa1 of
                ((e, runs), fa2) \<Rightarrow> ((e, (if GoRun \<in> set gos then [(g, w)] else []) @ runs), fa2)))"

definition factory_Start ::
  "(gvk \<Rightarrow> start_env) \<Rightarrow> int \<Rightarrow> ('o, 'w) factory \<Rightarrow> (err option \<times> (gvk \<times> int) list) \<times> ('o, 'w) factory" where
  "factory_Start env dw fa = start_each env dw (gm_keys (fa_controllers fa)) fa"

section \<open>The backend\<close>

record ('o, 'w) Backend =
  be_factory :: "('o, 'w) factory"
  be_started :: bool
  be_purging :: bool

definition Backend_Start ::
  "(gvk \<Rightarrow> start_env) \<Rightarrow> bool \<Rightarrow> ('o, 'w) Backend \<Rightarrow> (err option \<times> (gvk \<times> int) list) \<times> ('o, 'w) Backend" where
  "Backend_Start env synced b =
     (case factory_Start env 5 (be_factory b) of
        ((Some e, runs), fa) \<Rightarrow> ((Some e, runs), b\<lparr>be_factory := fa\<rparr>)
      | ((None, runs), fa) \<Rightarrow>
        if \<not> synced then ((Some (Plain ''failed to wait for caches to sync''), runs), b\<lparr>be_factory := fa\<rparr>)
        else ((None, runs), b\<lparr>be_factory := fa, be_purging := True, be_started := True\<rparr>))"

text \<open>\<open>Trigger\<close>: a delayed key is the key itself; a key without delay is marked as a trigger.\<close>

definition Backend_Trigger :: "gostring \<Rightarrow> gvk \<Rightarrow> gostring \<Rightarrow> int \<Rightarrow> ('o, 'w) Backend \<Rightarrow> err option \<times> ('o, 'w) Backend" where
  "Backend_Trigger trigger_prefix g key delay b =
     (let fa = ForKind g (be_factory b); d = fa_deferred fa g;
          act = (if delay > 0
                 then (case str_cut key ''/'' of (ns, name, okay) \<Rightarrow>
                         if okay then sc_EnqueueAfter ns name delay d else sc_EnqueueAfter [] key delay d)
                 else sc_EnqueueKey (trigger_prefix @ key) d)
      in (None, b\<lparr>be_factory := snd (at_kind g (\<lambda>s. ((), act s)) fa)\<rparr>))"

text \<open>
  The indexes of the cache: one for each field name of the kind, by which an object is found under
  the value of its field and, when it has a namespace, under the value in its namespace.
\<close>

definition index_values :: "gostring \<Rightarrow> kobject \<Rightarrow> gostring list" where
  "index_values field ob =
     (case k_fields ob of
        None \<Rightarrow> []
      | Some f \<Rightarrow>
        (let v = gm_str f field
         in if v = [] then []
            else [keyFunc [] v] @ (if k_namespace ob \<noteq> [] then [keyFunc (k_namespace ob) v] else [])))"

type_synonym indexers = "(gostring, kobject \<Rightarrow> gostring list) gomap"

definition field_indexers :: "gostring list \<Rightarrow> indexers" where
  "field_indexers names = fold (\<lambda>f. AList.update (''field:'' @ f) (index_values f)) names []"

text \<open>\<open>add_indexers\<close> is \<open>AddIndexers\<close> of the informer of the kind; the field names of a kind are
  those of the object the scheme makes.\<close>

definition addIndexer ::
  "kscheme \<Rightarrow> (gvk \<Rightarrow> err option) \<Rightarrow> (gvk \<Rightarrow> indexers \<Rightarrow> err option) \<Rightarrow> gvk \<Rightarrow> err option" where
  "addIndexer sch get_informer add_indexers g =
     (case scheme_new sch g of
        NotRegistered \<Rightarrow> Some (Plain ''no kind is registered'')
      | NewFailed e \<Rightarrow> Some e
      | NewObject ob \<Rightarrow>
        (case k_fields ob of
           None \<Rightarrow> None
         | Some f \<Rightarrow>
           (case get_informer g of
              Some e \<Rightarrow> Some e
            | None \<Rightarrow> add_indexers g (field_indexers (gm_keys f)))))"

text \<open>
  \<open>Watch\<close>: \<open>indexer\<close> is \<^const>\<open>addIndexer\<close> on the scheme and the cache; the handler is the callback
  on the kind.
\<close>

definition watch_name :: "kscheme \<Rightarrow> gostring \<Rightarrow> gvk \<Rightarrow> gostring" where
  "watch_name sch name g = name @ '' '' @ gvk_String sch g"

definition Backend_Watch ::
  "kscheme \<Rightarrow> (gvk \<Rightarrow> err option) \<Rightarrow> (gvk \<Rightarrow> register_env) \<Rightarrow> (gvk \<Rightarrow> start_env) \<Rightarrow> gvk \<Rightarrow> gostring \<Rightarrow>
     (gvk \<Rightarrow> ('o, 'w) shared_fn) \<Rightarrow> ('o, 'w) Backend \<Rightarrow> err option \<times> ('o, 'w) Backend" where
  "Backend_Watch sch indexer renv senv g name cb b =
     (let fa = ForKind g (be_factory b); b1 = b\<lparr>be_factory := fa\<rparr>
      in case indexer g of
           Some e \<Rightarrow> (Some e, b1)
         | None \<Rightarrow>
           (case at_kind g (\<lambda>s. case RegisterHandler (fa_deferred fa g) (renv g) (watch_name sch name g) (cb g) None s of
                                 (e, _, s1) \<Rightarrow> (e, s1)) fa of
              (None, fa1) \<Rightarrow> (None, b\<lparr>be_factory := fa1\<rparr>)
            | (Some (Some e), fa1) \<Rightarrow> (Some e, b\<lparr>be_factory := fa1\<rparr>)
            | (Some None, fa1) \<Rightarrow>
                if be_started b
                then (case at_kind g (sc_Start (senv g)) fa1 of
                        (Some (e, gos), fa2) \<Rightarrow> (e, b\<lparr>be_factory := fa2\<rparr>)
                      | (None, fa2) \<Rightarrow> (None, b\<lparr>be_factory := fa2\<rparr>))
                else (None, b\<lparr>be_factory := fa1\<rparr>)))"

end
