(* ===== verification/RuntimeProperties.thy ===== *)
theory RuntimeProperties
  imports SharedControllers ControllerProperties
begin

text \<open>
  What the shared handlers, controllers and the backend promise: handlers are called in order,
  the end of a context removes its handler only, a transaction registers what registering
  directly does, and a trigger reaches the queue of its kind and no other.
\<close>

section \<open>The slice of handlers\<close>

definition sh_ok :: "('o, 'w) SharedHandler \<Rightarrow> bool" where
  "sh_ok h \<longleftrightarrow> sh_len h \<le> length (sh_array h) \<and> distinct (map he_id (sh_handlers h)) \<and>
     (\<forall>e \<in> set (sh_handlers h). he_id e \<le> sh_idCounter h)"

lemma sh_ok_new [simp]: "sh_ok new_SharedHandler"
  by (simp add: sh_ok_def new_SharedHandler_def sh_handlers_def)

lemma word_below_Suc:
  fixes a c :: "64 word"
  assumes "a \<le> c" and "unat c + 1 < 2 ^ 64"
  shows "a \<le> c + 1" and "a \<noteq> c + 1"
proof -
  have u: "unat (c + 1) = unat c + 1"
    using assms(2) by (subst unat_add_lem [THEN iffD1]) simp_all
  with assms(1) show "a \<le> c + 1" and "a \<noteq> c + 1"
    by (auto simp: word_le_nat_alt)
qed

lemma Register_handlers:
  assumes "Register name f h = (i, h')" and "sh_len h \<le> length (sh_array h)"
  shows "sh_handlers h' = sh_handlers h @ [\<lparr>he_id = i, he_name = name, he_handler = f\<rparr>] \<and>
    sh_len h' \<le> length (sh_array h') \<and> i = sh_idCounter h + 1 \<and> sh_idCounter h' = i"
  using assms by (auto simp: Register_def Let_def sh_handlers_def)

lemma index_of_None: "index_of i es = None \<longleftrightarrow> i \<notin> set (map he_id es)"
  by (induction es) auto

lemma index_of_Some:
  "index_of i es = Some n \<Longrightarrow> distinct (map he_id es) \<Longrightarrow>
     n < length es \<and> take n es @ drop (Suc n) es = filter (\<lambda>e. he_id e \<noteq> i) es"
proof (induction es arbitrary: n)
  case (Cons e es)
  show ?case
  proof (cases "he_id e = i")
    case True
    with Cons.prems have "n = 0" and "i \<notin> he_id ` set es" by auto
    then have "filter (\<lambda>e. he_id e \<noteq> i) es = es" by (intro filter_True) force
    note \<open>n = 0\<close> this
    with True show ?thesis by simp
  next
    case False
    with Cons.prems obtain m where "index_of i es = Some m" and n: "n = Suc m" by auto
    with Cons.IH [of m] Cons.prems False show ?thesis by simp
  qed
qed simp

lemma length_shift_out: "i < len \<Longrightarrow> len \<le> length arr \<Longrightarrow> length (shift_out i len arr) = length arr"
  by (simp add: shift_out_def)

lemma take_shift_out:
  "i < len \<Longrightarrow> len \<le> length arr \<Longrightarrow>
     take (len - 1) (shift_out i len arr) = take i (take len arr) @ drop (Suc i) (take len arr)"
  by (cases "i = len - 1") (auto simp: shift_out_def min_def)

lemma unregister_handlers:
  assumes "sh_ok h"
  shows "sh_handlers (unregister i h) = filter (\<lambda>e. he_id e \<noteq> i) (sh_handlers h) \<and> sh_ok (unregister i h)"
proof (cases "index_of i (sh_handlers h)")
  case None
  then have "filter (\<lambda>e. he_id e \<noteq> i) (sh_handlers h) = sh_handlers h"
    by (auto simp: index_of_None intro!: filter_True)
  with None assms show ?thesis by (simp add: unregister_def)
next
  case (Some n)
  let ?h = "h\<lparr>sh_array := shift_out n (sh_len h) (sh_array h), sh_len := sh_len h - 1\<rparr>"
  from assms have len: "sh_len h \<le> length (sh_array h)" and d: "distinct (map he_id (sh_handlers h))"
    by (simp_all add: sh_ok_def)
  from index_of_Some [OF Some d] len have n: "n < sh_len h"
    and f: "take n (sh_handlers h) @ drop (Suc n) (sh_handlers h) = filter (\<lambda>e. he_id e \<noteq> i) (sh_handlers h)"
    by (auto simp: sh_handlers_def)
  have hs: "sh_handlers ?h = filter (\<lambda>e. he_id e \<noteq> i) (sh_handlers h)"
    using take_shift_out [OF n len] f n by (simp add: sh_handlers_def min_def)
  moreover have "sh_ok ?h"
    unfolding sh_ok_def hs using assms len n
    by (auto simp: sh_ok_def length_shift_out distinct_map_filter)
  ultimately show ?thesis using Some by (simp add: unregister_def)
qed

text \<open>Registration and removal. As long as the counter has not run out of its 64 bits, a new
  handler gets an identifier that no registered one has and is called last; the end of its
  context removes it and no other handler, and neither changes the order of the rest.\<close>

theorem Register_unregister:
  assumes "sh_ok h" and "unat (sh_idCounter h) + 1 < 2 ^ 64" and "Register name f h = (i, h')"
  shows "sh_ok h' \<and> sh_handlers h' = sh_handlers h @ [\<lparr>he_id = i, he_name = name, he_handler = f\<rparr>] \<and>
    i \<notin> he_id ` set (sh_handlers h) \<and> sh_handlers (unregister i h') = sh_handlers h \<and>
    sh_handlers (unregister j h') = filter (\<lambda>e. he_id e \<noteq> j) (sh_handlers h) @
       (if i = j then [] else [\<lparr>he_id = i, he_name = name, he_handler = f\<rparr>])"
proof -
  from assms(1) have len: "sh_len h \<le> length (sh_array h)" by (simp add: sh_ok_def)
  note r = Register_handlers [OF assms(3) len]
  have fresh: "i \<notin> he_id ` set (sh_handlers h)"
    using assms(1) word_below_Suc(2) [OF _ assms(2)] r unfolding sh_ok_def by force
  have up: "\<forall>e \<in> set (sh_handlers h). he_id e \<le> i"
    using assms(1) word_below_Suc(1) [OF _ assms(2)] r by (simp add: sh_ok_def)
  have okay: "sh_ok h'"
    unfolding sh_ok_def using r fresh up assms(1) by (auto simp: sh_ok_def)
  have "filter (\<lambda>e. he_id e \<noteq> i) (sh_handlers h) = sh_handlers h"
    using fresh by (auto intro!: filter_True)
  with okay r fresh unregister_handlers [OF okay] show ?thesis by simp
qed

definition nop :: "(gostring, nat) shared_fn" where
  "nop key ob w = ((ob, None), w + 1)"

lemma Register_unregister_witness:
  "sh_handlers (unregister 1 (snd (Register ''b'' nop (snd (Register ''a'' nop new_SharedHandler))))) =
     [\<lparr>he_id = 2, he_name = ''b'', he_handler = nop\<rparr>]"
proof -
  let ?h = "snd (Register ''a'' nop new_SharedHandler)"
  have 1: "?h = \<lparr>sh_idCounter = 1, sh_array = [\<lparr>he_id = 1, he_name = ''a'', he_handler = nop\<rparr>], sh_len = 1\<rparr>"
    by (simp add: Register_def new_SharedHandler_def sh_handlers_def Let_def)
  have okay: "sh_ok ?h" unfolding 1 by (simp add: sh_ok_def sh_handlers_def)
  have "Register ''b'' nop ?h = (2, snd (Register ''b'' nop ?h))"
    unfolding 1 by (simp add: Register_def Let_def)
  from Register_unregister [OF okay _ this, where j = 1] show ?thesis
    unfolding 1 by (simp add: sh_handlers_def)
qed

section \<open>Calling the handlers\<close>

text \<open>The handlers of a list, each with the object it is given and the error it answers.\<close>

fun handler_calls ::
  "('o \<Rightarrow> err + gostring) \<Rightarrow> gostring \<Rightarrow> ('o, 'w) handlerEntry list \<Rightarrow> 'o option \<Rightarrow> 'w \<Rightarrow>
     (('o, 'w) handlerEntry \<times> 'o option \<times> err option) list \<times> 'w" where
  "handler_calls uid key [] ob w = ([], w)"
| "handler_calls uid key (e # es) ob w =
     (case he_handler e key ob w of ((newObj, err), w1) \<Rightarrow>
       (case handler_calls uid key es (next_obj uid ob newObj) w1 of (cs, w2) \<Rightarrow> ((e, ob, err) # cs, w2)))"

definition call_errs :: "(('o, 'w) handlerEntry \<times> 'o option \<times> err option) list \<Rightarrow> err list" where
  "call_errs cs = concat (map (\<lambda>(e, ob, err). handler_errs e err) cs)"

lemma handler_calls_entries: "map fst (fst (handler_calls uid key es ob w)) = es"
  by (induction uid key es ob w rule: handler_calls.induct) (auto split: prod.splits)

lemma OnChange_range_calls:
  assumes "\<forall>j \<ge> i. removed j = []" and "i + n \<le> length (sh_array h)"
  shows "OnChange_range removed uid key n i ob errs h w =
    (case handler_calls uid key (take n (drop i (sh_array h))) ob w of (cs, w1) \<Rightarrow> (errs @ call_errs cs, h, w1))"
  using assms
proof (induction n arbitrary: i ob errs w)
  case 0
  then show ?case by (simp add: call_errs_def)
next
  case (Suc n)
  have "take (Suc n) (drop i (sh_array h)) = sh_array h ! i # take n (drop (Suc i) (sh_array h))"
    using Suc.prems(2) by (simp add: Cons_nth_drop_Suc [symmetric])
  with Suc show ?case
    by (simp add: call_errs_def split: prod.splits)
qed

text \<open>C15: a change reaches every shared handler. Without a concurrent removal \<open>OnChange\<close> calls
  the registered handlers in the order of their registration, each exactly once and whatever the
  ones before it answered; the error it returns collects, each with the name of its handler, the
  errors that do not wrap \<open>ErrIgnore\<close>, and is nil exactly when there is none of them.\<close>

theorem OnChange_calls_all:
  assumes "sh_ok h"
  shows "case handler_calls uid key (sh_handlers h) ob w of
     (cs, w1) \<Rightarrow> map fst cs = sh_handlers h \<and>
       SharedHandler_OnChange (\<lambda>_. []) uid key ob h w = (errorList_ToErr (call_errs cs), h, w1) \<and>
       (errorList_ToErr (call_errs cs) = None \<longleftrightarrow>
          (\<forall>(e, o', err) \<in> set cs. case err of None \<Rightarrow> True | Some x \<Rightarrow> errors_is x ErrIgnore))"
proof -
  obtain cs w1 where c: "handler_calls uid key (sh_handlers h) ob w = (cs, w1)" by fastforce
  have m: "map fst cs = sh_handlers h"
    using handler_calls_entries [of uid key "sh_handlers h" ob w] by (simp add: c)
  have "OnChange_range (\<lambda>_. []) uid key (sh_len h) 0 ob [] h w = (call_errs cs, h, w1)"
    using assms c by (subst OnChange_range_calls) (simp_all add: sh_ok_def sh_handlers_def)
  then have o: "SharedHandler_OnChange (\<lambda>_. []) uid key ob h w = (errorList_ToErr (call_errs cs), h, w1)"
    by (simp add: SharedHandler_OnChange_def)
  have "errorList_ToErr (call_errs cs) = None \<longleftrightarrow> (\<forall>c \<in> set cs. handler_errs (fst c) (snd (snd c)) = [])"
    by (auto simp: rt_errors.collect_None_iff call_errs_def split_beta)
  also have "\<dots> \<longleftrightarrow> (\<forall>(e, o', err) \<in> set cs. case err of None \<Rightarrow> True | Some x \<Rightarrow> errors_is x ErrIgnore)"
    by (rule ball_cong) (auto simp: handler_errs_def split: option.split)
  finally show ?thesis using c m o by simp
qed

lemma OnChange_calls_all_witness:
  "SharedHandler_OnChange (\<lambda>_. []) Inr ''k'' (Some ''x'') (snd (Register ''a'' nop new_SharedHandler)) 0 =
     (None, snd (Register ''a'' nop new_SharedHandler), 1)"
proof -
  let ?h = "snd (Register ''a'' nop new_SharedHandler)"
  have 1: "?h = \<lparr>sh_idCounter = 1, sh_array = [\<lparr>he_id = 1, he_name = ''a'', he_handler = nop\<rparr>], sh_len = 1\<rparr>"
    by (simp add: Register_def new_SharedHandler_def sh_handlers_def Let_def)
  have "sh_ok ?h" unfolding 1 by (simp add: sh_ok_def sh_handlers_def)
  from OnChange_calls_all [OF this, where uid = Inr and key = "''k''" and ob = "Some ''x''" and w = 0]
  show ?thesis
    unfolding 1 by (simp add: sh_handlers_def nop_def call_errs_def handler_errs_def)
qed

lemma OnChange_range_quiet:
  "\<forall>j \<ge> i. removed j = [] \<Longrightarrow>
     OnChange_range removed uid key n i ob errs h w = OnChange_range (\<lambda>_. []) uid key n i ob errs h w"
proof (induction n arbitrary: i ob errs w)
  case (Suc n)
  then show ?case by (simp split: prod.split)
qed simp

lemma shift_out_first: "shift_out 0 (length (x # es)) (x # es) = es @ [last (x # es)]" if "es \<noteq> []"
proof -
  from that obtain ys y where "es = ys @ [y]" by (metis rev_exhaust)
  then show ?thesis by (simp add: shift_out_def)
qed

text \<open>C31: a removal during a call shifts the handlers under it. When three or more handlers are
  registered and the context of the first ends while \<open>OnChange\<close> has called it and nobody else,
  the call goes on with the third: the second handler, which is still registered, does not see
  the change, and the last one is called twice.\<close>

theorem OnChange_removal_skips:
  assumes "sh_array h = x # y # zs" and "sh_len h = length (sh_array h)" and "sh_ok h" and "zs \<noteq> []"
  shows "y \<in> set (sh_handlers (unregister (he_id x) h)) \<and>
    (case handler_calls uid key (x # zs @ [last zs]) ob w of
       (cs, w1) \<Rightarrow> SharedHandler_OnChange (\<lambda>i. if i = 1 then [he_id x] else []) uid key ob h w =
         (errorList_ToErr (call_errs cs), unregister (he_id x) h, w1))"
proof -
  let ?r = "\<lambda>i. if i = (1::nat) then [he_id x] else []"
  let ?h = "unregister (he_id x) h"
  have hs: "sh_handlers h = x # y # zs" using assms(1,2) by (simp add: sh_handlers_def)
  with assms(3) have "he_id y \<noteq> he_id x" by (auto simp: sh_ok_def)
  with hs unregister_handlers [OF assms(3), of "he_id x"] have y: "y \<in> set (sh_handlers ?h)" by simp
  have arr: "sh_array ?h = y # zs @ [last zs]"
    using shift_out_first [of "y # zs" x] assms(1,2,4) hs by (simp add: unregister_def)
  obtain newObj err w0 where x: "he_handler x key ob w = ((newObj, err), w0)" by (metis prod.collapse)
  have skip: "OnChange_range ?r uid key (Suc n) 1 ob' errs h w0 =
      OnChange_range (\<lambda>_. []) uid key (Suc n) 1 ob' errs ?h w0" for n ob' errs
  proof -
    have q: "OnChange_range ?r uid key n 2 o' es' g w' = OnChange_range (\<lambda>_. []) uid key n 2 o' es' g w'" for o' es' g w'
      by (rule OnChange_range_quiet) simp
    have "OnChange_range ?r uid key (Suc n) 1 ob' errs h w0 =
        (case he_handler (sh_array ?h ! 1) key ob' w0 of ((newObj, err), w1) \<Rightarrow>
           OnChange_range ?r uid key n 2 (next_obj uid ob' newObj) (errs @ handler_errs (sh_array ?h ! 1) err) ?h w1)"
      by (simp add: Let_def numeral_2_eq_2)
    then show ?thesis
      by (simp only: q) (simp add: Let_def numeral_2_eq_2 split: prod.split)
  qed
  have "OnChange_range ?r uid key (sh_len h) 0 ob [] h w =
      OnChange_range (\<lambda>_. []) uid key (Suc (length zs)) 1 (next_obj uid ob newObj) (handler_errs x err) ?h w0"
    using assms(1,2) x skip [of "length zs"] by (simp add: Let_def)
  also have "\<dots> = (case handler_calls uid key (zs @ [last zs]) (next_obj uid ob newObj) w0 of
      (cs, w1) \<Rightarrow> (handler_errs x err @ call_errs cs, ?h, w1))"
    by (subst OnChange_range_calls) (simp_all add: arr)
  finally show ?thesis
    using y by (simp add: SharedHandler_OnChange_def x call_errs_def split: prod.split)
qed

definition log_handler :: "gostring \<Rightarrow> (gostring, gostring list) shared_fn" where
  "log_handler name key ob w = ((ob, None), w @ [name])"

definition three_handlers :: "(gostring, gostring list) SharedHandler" where
  "three_handlers = \<lparr>sh_idCounter = 3,
     sh_array = [\<lparr>he_id = 1, he_name = ''a'', he_handler = log_handler ''a''\<rparr>,
                 \<lparr>he_id = 2, he_name = ''b'', he_handler = log_handler ''b''\<rparr>,
                 \<lparr>he_id = 3, he_name = ''c'', he_handler = log_handler ''c''\<rparr>],
     sh_len = 3\<rparr>"

lemma OnChange_removal_skips_witness:
  "snd (snd (SharedHandler_OnChange (\<lambda>i. if i = 1 then [1] else []) Inr ''k'' (Some ''o'') three_handlers [])) =
     [''a'', ''c'', ''c'']"
proof -
  have "sh_ok three_handlers"
    by (simp add: sh_ok_def three_handlers_def sh_handlers_def word_le_nat_alt)
  moreover have "sh_array three_handlers = \<lparr>he_id = 1, he_name = ''a'', he_handler = log_handler ''a''\<rparr> #
      \<lparr>he_id = 2, he_name = ''b'', he_handler = log_handler ''b''\<rparr> #
      [\<lparr>he_id = 3, he_name = ''c'', he_handler = log_handler ''c''\<rparr>]"
    and "sh_len three_handlers = length (sh_array three_handlers)"
    by (simp_all add: three_handlers_def)
  ultimately show ?thesis
    using OnChange_removal_skips [where h = three_handlers and uid = Inr and key = "''k''" and
        ob = "Some ''o''" and w = "[]"]
    by (simp add: log_handler_def cong: if_cong)
qed

section \<open>Registering on a shared controller\<close>

lemma initController_again:
  "sc_controller s \<noteq> None \<Longrightarrow> snd (initController d s) = s"
  by (auto simp: initController_def)

lemma initController_init: "sc_controller (snd (initController d s)) \<noteq> None"
  by (auto simp: initController_def split: option.split sum.split)

lemma register_body_controller:
  "sc_controller s \<noteq> None \<Longrightarrow> sc_controller (snd (register_body env name f s)) \<noteq> None"
  by (auto simp: register_body_def Let_def split: prod.splits option.splits sum.splits)

type_synonym ('o, 'w) registration = "register_env \<times> gostring \<times> ('o, 'w) shared_fn"

definition do_register ::
  "err + controller \<Rightarrow> ('o, 'w) registration \<Rightarrow>
     (('o, 'w) sharedController \<Rightarrow> ('o, 'w) sharedController) list option \<times> ('o, 'w) sharedController \<Rightarrow>
     (('o, 'w) sharedController \<Rightarrow> ('o, 'w) sharedController) list option \<times> ('o, 'w) sharedController" where
  "do_register d r ts = (case r of (env, name, f) \<Rightarrow> snd (RegisterHandler d env name f (fst ts) (snd ts)))"

definition body_of :: "('o, 'w) registration \<Rightarrow> ('o, 'w) sharedController \<Rightarrow> ('o, 'w) sharedController" where
  "body_of r s = (case r of (env, name, f) \<Rightarrow> snd (register_body env name f s))"

lemma do_register_direct:
  "do_register d r (None, s) = (None, body_of r (snd (initController d s)))"
  by (simp add: do_register_def RegisterHandler_def txn_do_def body_of_def split: prod.split)

lemma do_register_txn:
  "do_register d r (Some t, s) = (Some (t @ [body_of r]), snd (initController d s))"
  by (auto simp: do_register_def RegisterHandler_def txn_do_def body_of_def split: prod.split)

lemma body_of_controller: "sc_controller s \<noteq> None \<Longrightarrow> sc_controller (body_of r s) \<noteq> None"
  by (cases r) (simp add: body_of_def register_body_controller)

lemma direct_fold:
  "sc_controller s \<noteq> None \<Longrightarrow> fold (do_register d) rs (None, s) = (None, fold body_of rs s)"
proof (induction rs arbitrary: s)
  case (Cons r rs)
  from Cons.IH [OF body_of_controller [OF Cons.prems]] show ?case
    by (simp add: do_register_direct initController_again [OF Cons.prems])
qed simp

lemma txn_fold:
  "sc_controller s \<noteq> None \<Longrightarrow> fold (do_register d) rs (Some t, s) = (Some (t @ map body_of rs), s)"
  by (induction rs arbitrary: t) (simp_all add: do_register_txn initController_again)

lemma fold_map_body: "fold (\<lambda>f s. f s) (map body_of rs) s = fold body_of rs s"
  by (induction rs arbitrary: s) simp_all

text \<open>C26: a transaction is all or nothing. Handlers that are registered in a transaction leave
  the shared controller as it is but for making its inner controller; \<open>Commit\<close> then gives the
  state that registering them directly gives, and \<open>Rollback\<close> leaves none of them registered.\<close>

theorem transaction_commit:
  assumes "rs \<noteq> []"
  shows "case fold (do_register d) rs (Some [], s) of
     (t, s1) \<Rightarrow> sc_handler s1 = sc_handler s \<and>
       Commit (the t) s1 = ([], snd (fold (do_register d) rs (None, s))) \<and>
       snd (Rollback (the t) s1) = snd (initController d s)"
proof -
  let ?s = "snd (initController d s)"
  from assms obtain r rest where rs: "rs = r # rest" by (cases rs) auto
  have h: "sc_handler ?s = sc_handler s"
    by (auto simp: initController_def split: option.split sum.split)
  have "fold (do_register d) rs (None, s) = (None, fold body_of rs ?s)"
    by (simp add: rs do_register_direct direct_fold body_of_controller initController_init)
  moreover have "fold (do_register d) rs (Some [], s) = (Some (map body_of rs), ?s)"
    by (simp add: rs do_register_txn txn_fold initController_init)
  ultimately show ?thesis
    by (simp add: Commit_def Rollback_def fold_map_body h)
qed

definition no_list :: register_env where
  "no_list = \<lparr>re_NewList = None, re_List = Inl (Plain ''cache is not started'')\<rparr>"

lemma transaction_commit_witness:
  "sh_handlers (sc_handler (snd (Commit (the (fst (fold (do_register (Inr pod_controller))
      [(no_list, ''a'', nop), (no_list, ''b'', nop)] (Some [], new_sharedController pods))))
     (snd (fold (do_register (Inr pod_controller)) [(no_list, ''a'', nop), (no_list, ''b'', nop)]
       (Some [], new_sharedController pods)))))) =
   [\<lparr>he_id = 1, he_name = ''a'', he_handler = nop\<rparr>, \<lparr>he_id = 2, he_name = ''b'', he_handler = nop\<rparr>]"
  using transaction_commit [where rs = "[(no_list, ''a'', nop), (no_list, ''b'', nop)]" and
      d = "Inr pod_controller" and s = "new_sharedController pods"]
  by (simp add: split_beta do_register_direct initController_def new_sharedController_def body_of_def
      register_body_def Register_def Let_def new_SharedHandler_def sh_handlers_def)

text \<open>A failed registration goes unnoticed. On a controller that has started, when listing
  the objects of its cache fails, \<open>RegisterHandler\<close> answers no error, although the handler it was
  asked to register is not registered: the handlers are those from before.\<close>

theorem RegisterHandler_hides_failure:
  assumes "sc_started s" and "sc_controller s = Some (RealController c)" and "sh_ok (sc_handler s)"
    and "unat (sh_idCounter (sc_handler s)) + 1 < 2 ^ 64" and "re_NewList env = None" and "re_List env = Inl e"
  shows "case RegisterHandler d env name f None s of
     (err, txn, s1) \<Rightarrow> err = None \<and> sh_handlers (sc_handler s1) = sh_handlers (sc_handler s) \<and>
       fst (register_body env name f s) = Some e"
proof -
  obtain hid h where r: "Register name f (sc_handler s) = (hid, h)" by fastforce
  from Register_unregister [OF assms(3,4) r, of hid]
  have "sh_handlers (unregister hid h) = sh_handlers (sc_handler s)" by simp
  with assms r show ?thesis
    by (simp add: RegisterHandler_def initController_def txn_do_def register_body_def Let_def)
qed

lemma RegisterHandler_hides_failure_witness:
  "(case RegisterHandler (Inr pod_controller) no_list ''b'' nop None
       (new_sharedController pods\<lparr>sc_controller := Some (RealController pod_running), sc_started := True\<rparr>) of
     (err, txn, s1) \<Rightarrow> err = None \<and> sh_handlers (sc_handler s1) = [])"
  using RegisterHandler_hides_failure [where s = "new_sharedController pods\<lparr>sc_controller :=
        Some (RealController pod_running), sc_started := True\<rparr>" and c = pod_running and env = no_list and
      e = "Plain ''cache is not started''" and d = "Inr pod_controller" and name = "''b''" and f = nop]
  by (auto simp: new_sharedController_def no_list_def sh_handlers_def new_SharedHandler_def sh_ok_def
      split: prod.splits)

section \<open>The backend\<close>

definition shared_at :: "('o, 'w) factory \<Rightarrow> gvk \<Rightarrow> ('o, 'w) sharedController" where
  "shared_at fa g = (case map_of (fa_controllers fa) g of None \<Rightarrow> new_sharedController g | Some s \<Rightarrow> s)"

definition controller_at :: "('o, 'w) Backend \<Rightarrow> gvk \<Rightarrow> any_controller" where
  "controller_at b g = fst (initController (fa_deferred (be_factory b) g) (shared_at (be_factory b) g))"

lemma ForKind_lookup:
  "map_of (fa_controllers (ForKind g fa)) j = (if j = g then Some (shared_at fa g) else map_of (fa_controllers fa) j)"
  "fa_deferred (ForKind g fa) = fa_deferred fa"
  by (auto simp: ForKind_def shared_at_def split: option.split)

lemma at_kind_ForKind:
  "snd (at_kind g (\<lambda>s. ((), act s)) (ForKind g fa)) =
     (ForKind g fa)\<lparr>fa_controllers := AList.update g (act (shared_at fa g)) (fa_controllers (ForKind g fa))\<rparr>"
  by (simp add: at_kind_def ForKind_lookup)

lemma on_controller_init: "fst (initController d (on_controller f d s)) = f (fst (initController d s))"
  by (simp add: on_controller_def initController_def split: prod.split)

lemma split_join:
  assumes "str_cut key ''/'' = (ns, name, True)" and "\<not> has_prefix key ''/''"
  shows "keyFunc ns name = key"
  using keyFunc_keyParse [OF assms(2)] assms(1) by (simp add: keyParse_def)

lemma controller_at_trigger:
  assumes "\<not> has_prefix key ''/''" and "controller_at b g = RealController c"
  shows "controller_at (snd (Backend_Trigger p g key d b)) g = RealController
     (if d > 0 then (if ct_workqueue c = None then add_start key d c else on_queue (AddAfter key d) c)
      else EnqueueKey (p @ key) c)"
proof -
  obtain ns name okay where cut: "str_cut key ''/'' = (ns, name, okay)" by (cases "str_cut key ''/''")
  with assms(1) split_join have k: "okay \<Longrightarrow> keyFunc ns name = key" by (cases okay) auto
  from assms(2) show ?thesis
    unfolding controller_at_def Backend_Trigger_def Let_def snd_conv
    by (simp add: at_kind_ForKind shared_at_def [of "fa\<lparr>fa_controllers := x\<rparr>" for fa x] ForKind_lookup cut
        sc_EnqueueAfter_def sc_EnqueueKey_def on_controller_init EnqueueAfter_def k)
qed

text \<open>C28: a trigger reaches its controller. Triggering a key makes exactly one request, of the
  controller of the kind: a delayed one for the key itself, an immediate one for the key marked
  as a trigger. It is on the queue when the controller runs and among the keys replayed by the
  start when it does not yet; the controllers of other kinds are as they were.\<close>

theorem Backend_Trigger_enqueues:
  assumes "controller_at b g = RealController c" and "\<not> has_prefix key ''/''"
  shows "case Backend_Trigger p g key d b of
     (e, b') \<Rightarrow> e = None \<and>
       (\<exists>c'. controller_at b' g = RealController c' \<and>
         (let call = (if d > 0 then AddAfter key d else Add (p @ key))
          in case ct_workqueue c of
               Some qs \<Rightarrow> ct_workqueue c' = Some (qs @ [call])
             | None \<Rightarrow> ct_workqueue (run_begin c') = Some (map replay (ct_startKeys c) @ [call]))) \<and>
       (\<forall>g'. g' \<noteq> g \<longrightarrow> map_of (fa_controllers (be_factory b')) g' = map_of (fa_controllers (be_factory b)) g')"
proof -
  let ?b = "snd (Backend_Trigger p g key d b)"
  have e: "fst (Backend_Trigger p g key d b) = None"
    by (simp add: Backend_Trigger_def Let_def)
  have other: "g' \<noteq> g \<Longrightarrow> map_of (fa_controllers (be_factory ?b)) g' = map_of (fa_controllers (be_factory b)) g'" for g'
    by (simp add: Backend_Trigger_def Let_def at_kind_ForKind ForKind_lookup)
  show ?thesis
    using e other controller_at_trigger [OF assms(2,1), of p d]
    by (auto simp: split_beta Let_def EnqueueKey_def on_queue_def add_start_def run_begin_def replay_def
        split: option.split)
qed

definition fresh_backend :: "(gostring, nat) Backend" where
  "fresh_backend = \<lparr>be_factory = NewSharedControllerFactory (\<lambda>_. Inr pod_controller) None,
     be_started = False, be_purging = False\<rparr>"

lemma Backend_Trigger_enqueues_witness:
  "\<exists>c. controller_at (snd (Backend_Trigger ''_t '' pods ''n/a'' 0 fresh_backend)) pods = RealController c \<and>
     ct_workqueue (run_begin c) = Some [Add ''_t n/a'']"
proof -
  have "controller_at fresh_backend pods = RealController pod_controller"
    by (simp add: controller_at_def fresh_backend_def NewSharedControllerFactory_def shared_at_def
        new_sharedController_def initController_def)
  from Backend_Trigger_enqueues [OF this, where key = "''n/a''" and p = "''_t ''" and d = 0]
  show ?thesis
    by (auto simp: split_beta Let_def pod_controller_def)
qed

end
