(* ===== verification/CachedClient.thy ===== *)
theory CachedClient
  imports Handlers
begin

text \<open>
  The client of the runtime, pkg/runtime/cached.go, with pkg/runtime/copy.go.

  Reads are served from the informer cache, which lags behind the writes of the same process. So
  the client remembers the objects it wrote for a while, and a read answers the remembered object
  when it is newer than the cached one. It remembers the pointer it was given: objects are
  references into the heap, and the table of recent objects has references.
\<close>

section \<open>Resource versions\<close>

text \<open>\<open>strconv.Atoi\<close>: an optional sign and decimal digits whose value fits 64 bits\<close>

definition is_digit :: "char \<Rightarrow> bool" where
  "is_digit c \<longleftrightarrow> 48 \<le> (of_char c :: nat) \<and> (of_char c :: nat) \<le> 57"

definition digits_val :: "gostring \<Rightarrow> nat" where
  "digits_val s = foldl (\<lambda>a c. a * 10 + (of_char c - 48)) 0 s"

definition atoi :: "gostring \<Rightarrow> int option" where
  "atoi s =
     (let neg = has_prefix s ''-'';
          ds = (if neg \<or> has_prefix s ''+'' then tl s else s);
          n = (if neg then - int (digits_val ds) else int (digits_val ds))
      in if ds = [] \<or> \<not> list_all is_digit ds \<or> n < - (2 ^ 63) \<or> n \<ge> 2 ^ 63 then None else Some n)"

definition newer :: "gostring \<Rightarrow> gostring \<Rightarrow> bool" where
  "newer oldRV newRV =
     (if length oldRV = length newRV then oldRV < newRV
      else (case atoi oldRV of
              None \<Rightarrow> True
            | Some oldI \<Rightarrow> (case atoi newRV of None \<Rightarrow> False | Some newI \<Rightarrow> oldI < newI)))"

section \<open>Copying\<close>

text \<open>
  \<open>CopyInto\<close>: an unstructured source goes through JSON, whose outcome \<open>json_copy\<close> is; any
  other must have the type of the destination. The answer is the destination.
\<close>

definition CopyInto :: "(kobject \<Rightarrow> kobject \<Rightarrow> err + kobject) \<Rightarrow> kobject \<Rightarrow> kobject \<Rightarrow> err + kobject" where
  "CopyInto json_copy dst src =
     (if k_type src = ''unstructured.Unstructured'' then json_copy dst src
      else if k_type src \<noteq> k_type dst
      then Inl (Plain (''type '' @ k_type src @ '' not assignable to '' @ k_type dst))
      else Inr src)"

section \<open>The client\<close>

record objectKey =
  ok_gvk :: gvk
  ok_namespace :: gostring
  ok_name :: gostring

record objectValue =
  ov_Object :: oref
  ov_Inserted :: int

text \<open>\<open>cc_uncached\<close> and \<open>cc_cached\<close> are the clients behind it; times are in seconds.\<close>

record 'w cacheClient =
  cc_uncached :: "'w kclient"
  cc_cached :: "'w kclient"
  cc_scheme :: kscheme
  cc_json_copy :: "kobject \<Rightarrow> kobject \<Rightarrow> err + kobject"

type_synonym recents = "(objectKey, objectValue) gomap"

datatype obj_arg = Bare oref | Held oref

definition cacheDuration :: int where "cacheDuration = 10"

definition key_of :: "gvk \<Rightarrow> kobject \<Rightarrow> objectKey" where
  "key_of g ob = \<lparr>ok_gvk = g, ok_namespace = k_namespace ob, ok_name = k_name ob\<rparr>"

text \<open>One round of \<open>startPurge\<close>\<close>

definition purge :: "int \<Rightarrow> recents \<Rightarrow> recents" where
  "purge now m = filter (\<lambda>(k, v). \<not> ov_Inserted v + cacheDuration < now) m"

definition deleteStore :: "'w cacheClient \<Rightarrow> kobject \<Rightarrow> recents \<Rightarrow> recents" where
  "deleteStore c ob m =
     (case gvk_for (cc_scheme c) ob of Inl e \<Rightarrow> m | Inr g \<Rightarrow> AList.delete (key_of g ob) m)"

definition store :: "'w cacheClient \<Rightarrow> int \<Rightarrow> oref \<Rightarrow> 'w rstate \<Rightarrow> recents \<Rightarrow> recents" where
  "store c now x s m =
     (case gvk_for (cc_scheme c) (deref s x) of
        Inl e \<Rightarrow> m
      | Inr g \<Rightarrow> AList.update (key_of g (deref s x)) \<lparr>ov_Object = x, ov_Inserted = now\<rparr> m)"

text \<open>A read of a client into an object.\<close>

definition read_into :: "'w kclient \<Rightarrow> gostring \<Rightarrow> gostring \<Rightarrow> oref \<Rightarrow> 'w rstate \<Rightarrow> err option \<times> 'w rstate" where
  "read_into cl ns name x s =
     (case cl_get cl (deref s x) ns name (rs_world s) of
        (Inl e, w) \<Rightarrow> (Some e, s\<lparr>rs_world := w\<rparr>)
      | (Inr ob, w) \<Rightarrow> (None, assign x ob (s\<lparr>rs_world := w\<rparr>)))"

definition cc_Get ::
  "'w cacheClient \<Rightarrow> gostring \<Rightarrow> gostring \<Rightarrow> obj_arg \<Rightarrow> 'w rstate \<times> recents \<Rightarrow> err option \<times> 'w rstate \<times> recents" where
  "cc_Get c ns name arg = (\<lambda>(s, m).
     case arg of
       Held x \<Rightarrow> (case read_into (cc_uncached c) ns name x s of (e, s1) \<Rightarrow> (e, s1, m))
     | Bare x \<Rightarrow>
       (case read_into (cc_cached c) ns name x s of
          (Some e, s1) \<Rightarrow> (Some e, s1, m)
        | (None, s1) \<Rightarrow>
          (case gvk_for (cc_scheme c) (deref s1 x) of
             Inl e \<Rightarrow> (Some e, s1, m)
           | Inr g \<Rightarrow>
             (case map_of m (key_of g (deref s1 x)) of
                None \<Rightarrow> (None, s1, m)
              | Some v \<Rightarrow>
                if newer (k_resourceVersion (deref s1 x)) (k_resourceVersion (deref s1 (ov_Object v)))
                then (case CopyInto (cc_json_copy c) (deref s1 x) (deref s1 (ov_Object v)) of
                        Inl e \<Rightarrow> (Some e, s1, m)
                      | Inr ob \<Rightarrow> (None, assign x ob s1, m))
                else (None, s1, m)))))"

definition cc_List ::
  "'w cacheClient \<Rightarrow> bool \<Rightarrow> gvk \<Rightarrow> gostring \<Rightarrow> label_selector option \<Rightarrow> 'w rstate \<Rightarrow> (err + kobject list) \<times> 'w rstate" where
  "cc_List c is_uncached g ns sel s =
     (case cl_list (if is_uncached then cc_uncached c else cc_cached c) g ns sel (rs_world s) of
        (r, w) \<Rightarrow> (r, s\<lparr>rs_world := w\<rparr>))"

text \<open>
  The writes. A bare object goes to the cached client, and what the server made of it is
  remembered; a held one goes to the uncached client and nothing is remembered.
\<close>

definition cc_write ::
  "('w kclient \<Rightarrow> kobject \<Rightarrow> 'w kwrite) \<Rightarrow> 'w cacheClient \<Rightarrow> int \<Rightarrow> obj_arg \<Rightarrow> 'w rstate \<times> recents \<Rightarrow>
     err option \<times> 'w rstate \<times> recents" where
  "cc_write op c now arg = (\<lambda>(s, m).
     case arg of
       Held x \<Rightarrow> (case run_write (op (cc_uncached c)) x s of (e, s1) \<Rightarrow> (e, s1, m))
     | Bare x \<Rightarrow>
       (case run_write (op (cc_cached c)) x s of
          (Some e, s1) \<Rightarrow> (Some e, s1, m)
        | (None, s1) \<Rightarrow> (None, s1, store c now x s1 m)))"

definition cc_Create ::
  "'w cacheClient \<Rightarrow> int \<Rightarrow> obj_arg \<Rightarrow> 'w rstate \<times> recents \<Rightarrow> err option \<times> 'w rstate \<times> recents" where
  "cc_Create = cc_write cl_create"

definition cc_Update ::
  "'w cacheClient \<Rightarrow> int \<Rightarrow> obj_arg \<Rightarrow> 'w rstate \<times> recents \<Rightarrow> err option \<times> 'w rstate \<times> recents" where
  "cc_Update = cc_write cl_update"

definition cc_Patch ::
  "patch_type \<Rightarrow> gostring \<Rightarrow> 'w cacheClient \<Rightarrow> int \<Rightarrow> obj_arg \<Rightarrow> 'w rstate \<times> recents \<Rightarrow>
     err option \<times> 'w rstate \<times> recents" where
  "cc_Patch ty patch = cc_write (\<lambda>cl ob. cl_patch cl ob ty patch)"

definition cc_Delete ::
  "'w cacheClient \<Rightarrow> obj_arg \<Rightarrow> 'w rstate \<times> recents \<Rightarrow> err option \<times> 'w rstate \<times> recents" where
  "cc_Delete c arg = (\<lambda>(s, m).
     case arg of
       Held x \<Rightarrow> (case cl_delete (cc_uncached c) (deref s x) (rs_world s) of (e, w) \<Rightarrow> (e, s\<lparr>rs_world := w\<rparr>, m))
     | Bare x \<Rightarrow>
       (case cl_delete (cc_cached c) (deref s x) (rs_world s) of
          (Some e, w) \<Rightarrow> (Some e, s\<lparr>rs_world := w\<rparr>, m)
        | (None, w) \<Rightarrow> (None, s\<lparr>rs_world := w\<rparr>, deleteStore c (deref s x) m)))"

text \<open>
  The status: always written through the cached client, also for a held object. What is stored is
  the argument as it was passed, and a holder has no kind in a scheme, so \<open>store\<close> gives up on it.
\<close>

definition sub_Update ::
  "'w cacheClient \<Rightarrow> int \<Rightarrow> obj_arg \<Rightarrow> 'w rstate \<times> recents \<Rightarrow> err option \<times> 'w rstate \<times> recents" where
  "sub_Update c now arg = (\<lambda>(s, m).
     let x = (case arg of Bare x \<Rightarrow> x | Held x \<Rightarrow> x)
     in case run_write (cl_status_update (cc_cached c)) x s of
          (Some e, s1) \<Rightarrow> (Some e, s1, m)
        | (None, s1) \<Rightarrow> (None, s1, (case arg of Bare _ \<Rightarrow> store c now x s1 m | Held _ \<Rightarrow> m)))"

text \<open>A patch of a subresource is stored like an update; the other operations only pass the call on.\<close>

definition sub_Patch ::
  "(kobject \<Rightarrow> 'w kwrite) \<Rightarrow> 'w cacheClient \<Rightarrow> int \<Rightarrow> obj_arg \<Rightarrow> 'w rstate \<times> recents \<Rightarrow> err option \<times> 'w rstate \<times> recents" where
  "sub_Patch sub_patch c now arg = (\<lambda>(s, m).
     let x = (case arg of Bare x \<Rightarrow> x | Held x \<Rightarrow> x)
     in case run_write sub_patch x s of
          (Some e, s1) \<Rightarrow> (Some e, s1, m)
        | (None, s1) \<Rightarrow> (None, s1, (case arg of Bare _ \<Rightarrow> store c now x s1 m | Held _ \<Rightarrow> m)))"

definition sub_pass ::
  "(oref \<Rightarrow> 'w rstate \<Rightarrow> err option \<times> 'w rstate) \<Rightarrow> obj_arg \<Rightarrow> 'w rstate \<times> recents \<Rightarrow> err option \<times> 'w rstate \<times> recents" where
  "sub_pass op arg = (\<lambda>(s, m).
     case op (case arg of Bare x \<Rightarrow> x | Held x \<Rightarrow> x) s of (e, s1) \<Rightarrow> (e, s1, m))"

definition cc_DeleteAllOf ::
  "('w rstate \<Rightarrow> err option \<times> 'w rstate) \<Rightarrow> 'w rstate \<times> recents \<Rightarrow> err option \<times> 'w rstate \<times> recents" where
  "cc_DeleteAllOf delete_all = (\<lambda>(s, m). case delete_all s of (e, s1) \<Rightarrow> (e, s1, m))"

end
