(* ===== verification/CachedClientProperties.thy ===== *)
theory CachedClientProperties
  imports CachedClient
begin

text \<open>
  What the caching client promises: resource versions compare as numbers, a process reads its own
  writes as long as they are remembered, and what is remembered is the caller's own object.
\<close>

section \<open>Decimal numbers\<close>

text \<open>The decimal text of a number, without leading zeros, as the API server writes versions.\<close>

fun decimal :: "nat \<Rightarrow> gostring" where
  "decimal n = (if n < 10 then [char_of (48 + n)] else decimal (n div 10) @ [char_of (48 + n mod 10)])"

declare decimal.simps [simp del]

lemma of_char_digit: "d < 10 \<Longrightarrow> of_char (char_of (48 + d) :: char) = (48 + d :: nat)"
  by simp

lemma is_digit_char: "(d :: nat) < 10 \<Longrightarrow> is_digit (char_of (48 + d))"
  by (simp add: is_digit_def)

lemma digits_val_append: "digits_val (xs @ [c]) = digits_val xs * 10 + (of_char c - 48)"
  by (simp add: digits_val_def)

lemma decimal_val: "digits_val (decimal n) = n \<and> list_all is_digit (decimal n) \<and> decimal n \<noteq> []"
proof (induction n rule: decimal.induct)
  case (1 n)
  show ?case
  proof (cases "n < 10")
    case True
    then show ?thesis
      by (subst (1 2 3) decimal.simps) (simp add: digits_val_def is_digit_char)
  next
    case False
    with 1 show ?thesis
      by (subst (1 2 3) decimal.simps) (simp add: digits_val_append is_digit_char of_char_digit)
  qed
qed

lemma foldl_digits:
  "foldl (\<lambda>a c. a * 10 + (of_char c - 48)) b xs = b * 10 ^ length xs + digits_val xs"
proof (induction xs arbitrary: b)
  case (Cons x xs)
  show ?case
    using Cons [of "b * 10 + (of_char x - 48)"] Cons [of "of_char x - 48"]
    by (simp add: digits_val_def algebra_simps)
qed (simp add: digits_val_def)

lemma digits_val_Cons: "digits_val (x # xs) = (of_char x - 48) * 10 ^ length xs + digits_val xs"
  using foldl_digits [of "of_char x - 48" xs] by (simp add: digits_val_def)

lemma digits_val_bound: "list_all is_digit xs \<Longrightarrow> digits_val xs < 10 ^ length xs"
proof (induction xs)
  case (Cons x xs)
  then have "of_char x - 48 \<le> (9 :: nat)" and "digits_val xs < 10 ^ length xs" by (auto simp: is_digit_def)
  then have "(of_char x - 48) * 10 ^ length xs + digits_val xs < 9 * 10 ^ length xs + 10 ^ length xs"
    by (intro add_le_less_mono mult_right_mono) auto
  then show ?case by (simp add: digits_val_Cons)
qed (simp add: digits_val_def)

lemma digits_less:
  "length xs = length ys \<Longrightarrow> list_all is_digit xs \<Longrightarrow> list_all is_digit ys \<Longrightarrow>
     xs < ys \<longleftrightarrow> digits_val xs < digits_val ys"
proof (induction xs ys rule: list_induct2)
  case (Cons x xs y ys)
  let ?a = "of_char x - 48 :: nat" and ?b = "of_char y - 48 :: nat"
  from Cons.prems have d: "is_digit x" "is_digit y" "list_all is_digit xs" "list_all is_digit ys" by auto
  have b: "digits_val xs < 10 ^ length ys" "digits_val ys < 10 ^ length ys"
    using digits_val_bound [OF d(3)] digits_val_bound [OF d(4)] Cons.hyps by auto
  have step: "u < v \<Longrightarrow> i < k \<Longrightarrow> u * k + i < v * k + (j :: nat)" for u v i j k
  proof -
    assume "u < v" and "i < k"
    then have "u * k + i < u * k + k" by simp
    also have "\<dots> = Suc u * k" by simp
    also have "\<dots> \<le> v * k" using \<open>u < v\<close> by (intro mult_right_mono) auto
    finally show ?thesis by simp
  qed
  consider "x < y" | "x = y" | "y < x" by fastforce
  then show ?case
  proof cases
    case 1
    then have "?a < ?b" using d by (simp add: less_char_def is_digit_def)
    with 1 step [OF _ b(1)] Cons.hyps show ?thesis by (simp add: digits_val_Cons)
  next
    case 2
    with Cons d show ?thesis by (simp add: digits_val_Cons)
  next
    case 3
    then have "?b < ?a" using d by (simp add: less_char_def is_digit_def)
    from step [OF this b(2)] 3 Cons.hyps show ?thesis
      by (auto simp: digits_val_Cons dest: less_trans)
  qed
qed (simp add: digits_val_def)

lemma digit_no_sign: "list_all is_digit s \<Longrightarrow> s \<noteq> [] \<Longrightarrow> \<not> has_prefix s ''-'' \<and> \<not> has_prefix s ''+''"
  by (cases s) (auto simp: is_digit_def)

lemma atoi_decimal: "n < 2 ^ 63 \<Longrightarrow> atoi (decimal n) = Some (int n)"
  using decimal_val [of n] digit_no_sign [of "decimal n"] by (simp add: atoi_def)

text \<open>Resource versions are ordered as numbers. On the decimal texts of 63-bit numbers, which
  is what the API server writes, \<open>newer\<close> is the order of the numbers, although it compares texts
  of the same length byte by byte.\<close>

theorem newer_is_less:
  assumes "m < 2 ^ 63" and "n < 2 ^ 63"
  shows "newer (decimal m) (decimal n) \<longleftrightarrow> m < n"
proof (cases "length (decimal m) = length (decimal n)")
  case True
  then show ?thesis
    using digits_less [OF True] decimal_val [of m] decimal_val [of n] by (simp add: newer_def)
next
  case False
  then show ?thesis
    by (simp add: newer_def atoi_decimal [OF assms(1)] atoi_decimal [OF assms(2)])
qed

lemma newer_is_less_witness: "newer ''99'' ''100'' \<and> \<not> newer ''100'' ''99'' \<and> newer ''98'' ''99''"
proof -
  have "decimal 99 = ''99''" "decimal 100 = ''100''" "decimal 98 = ''98''"
    by code_simp+
  then show ?thesis
    using newer_is_less [of 99 100] newer_is_less [of 100 99] newer_is_less [of 98 99] by simp
qed

section \<open>Reading what was written\<close>

lemma map_of_filter_keep: "map_of m k = Some v \<Longrightarrow> P (k, v) \<Longrightarrow> gm_ok m \<Longrightarrow> map_of (filter P m) k = Some v"
  using gm_mem_iff [of "filter P m" k v] gm_mem_iff [of m k v] by simp

lemma cc_write_Bare:
  assumes "cc_write op c now (Bare x) (s, m) = (None, s1, m1)" and "gvk_for (cc_scheme c) (deref s1 x) = Inr g"
  shows "m1 = AList.update (key_of g (deref s1 x)) \<lparr>ov_Object = x, ov_Inserted = now\<rparr> m"
  using assms by (auto simp: cc_write_def store_def split: prod.splits option.splits)

lemma recent_after_purge:
  assumes "gm_ok m" and "t \<le> now + cacheDuration"
  shows "map_of (purge t (AList.update k \<lparr>ov_Object = x, ov_Inserted = now\<rparr> m)) k =
    Some \<lparr>ov_Object = x, ov_Inserted = now\<rparr>"
  unfolding purge_def using assms by (intro map_of_filter_keep) auto

text \<open>
  A read through the cache that delivers a given object, against a remembered one of its kind.
\<close>

lemma cc_Get_recent:
  assumes "cl_get (cc_cached c) (deref s y) ns nm (rs_world s) = (Inr stale, w)"
    and "gvk_for (cc_scheme c) stale = Inr g" and "map_of m (key_of g stale) = Some v" and "ov_Object v \<noteq> y"
    and "k_type stale = k_type (deref s (ov_Object v))" and "k_type stale \<noteq> ''unstructured.Unstructured''"
  shows "\<exists>s'. cc_Get c ns nm (Bare y) (s, m) = (None, s', m) \<and>
    deref s' y = (if newer (k_resourceVersion stale) (k_resourceVersion (deref s (ov_Object v)))
                  then deref s (ov_Object v) else stale) \<and>
    (\<forall>z. z \<noteq> y \<longrightarrow> deref s' z = deref s z)"
proof -
  let ?s1 = "assign y stale (s\<lparr>rs_world := w\<rparr>)"
  have r: "read_into (cc_cached c) ns nm y s = (None, ?s1)"
    using assms(1) by (simp add: read_into_def)
  have d: "deref ?s1 y = stale" "deref ?s1 (ov_Object v) = deref s (ov_Object v)"
    using assms(4) by (simp_all add: deref_def assign_def)
  let ?n = "newer (k_resourceVersion stale) (k_resourceVersion (deref s (ov_Object v)))"
  have "cc_Get c ns nm (Bare y) (s, m) =
      (None, if ?n then assign y (deref s (ov_Object v)) ?s1 else ?s1, m)"
    using assms(2,3,5,6) by (simp add: cc_Get_def r d CopyInto_def)
  then show ?thesis
    by (intro exI [of _ "if ?n then assign y (deref s (ov_Object v)) ?s1 else ?s1"])
      (auto simp: deref_def assign_def)
qed

text \<open>A process reads its own writes. After a successful update, and for as long as ten
  seconds whatever purges happen, a read of the object through an informer cache that delivers
  some version of it gives the version the server answered to the update when the cache is
  behind, and the cache's otherwise: never one that is older than what was written. It holds
  in every later state in which the object that was passed to the update is unchanged.\<close>

theorem read_your_writes:
  assumes "cc_Update c now (Bare x) (s, m) = (None, s1, m1)" and "gm_ok m" and "t \<le> now + cacheDuration"
    and "gvk_for (cc_scheme c) (deref s1 x) = Inr g" and "deref s2 x = deref s1 x"
    and "cl_get (cc_cached c) (deref s2 y) ns nm (rs_world s2) = (Inr stale, w2)" and "y \<noteq> x"
    and "gvk_for (cc_scheme c) stale = Inr g" and "k_namespace stale = k_namespace (deref s1 x)"
    and "k_name stale = k_name (deref s1 x)" and "k_type stale = k_type (deref s1 x)"
    and "k_type stale \<noteq> ''unstructured.Unstructured''"
    and "k_resourceVersion (deref s1 x) = decimal written" and "written < 2 ^ 63"
    and "k_resourceVersion stale = decimal seen" and "seen < 2 ^ 63"
  shows "\<exists>s3. cc_Get c ns nm (Bare y) (s2, purge t m1) = (None, s3, purge t m1) \<and>
    deref s3 y = (if seen < written then deref s1 x else stale) \<and>
    k_resourceVersion (deref s3 y) = decimal (max seen written)"
proof -
  have m1: "m1 = AList.update (key_of g (deref s1 x)) \<lparr>ov_Object = x, ov_Inserted = now\<rparr> m"
    using assms(1,4) unfolding cc_Update_def by (rule cc_write_Bare)
  have k: "key_of g stale = key_of g (deref s1 x)" using assms(9,10) by (simp add: key_of_def)
  let ?v = "\<lparr>ov_Object = x, ov_Inserted = now\<rparr>"
  have "map_of (purge t m1) (key_of g stale) = Some ?v"
    unfolding m1 k by (rule recent_after_purge [OF assms(2,3)])
  from cc_Get_recent [OF assms(6,8) this] assms(5,7,11,12) obtain s3 where
    1: "cc_Get c ns nm (Bare y) (s2, purge t m1) = (None, s3, purge t m1)" and
    2: "deref s3 y = (if newer (decimal seen) (decimal written) then deref s1 x else stale)"
    by (auto simp: assms(13,15))
  have n: "newer (decimal seen) (decimal written) \<longleftrightarrow> seen < written"
    by (rule newer_is_less [OF assms(16,14)])
  show ?thesis
    using 1 2 n assms(13,15) by (intro exI [of _ s3]) (simp add: max_def)
qed

text \<open>A server that gives version 10 to what it is sent, and a cache that still has version 9.\<close>

definition cm :: gvk where "cm = GVK [] ''v1'' ''ConfigMap''"

definition cm_at :: "gostring \<Rightarrow> kobject" where
  "cm_at rv = (zero_object ''ConfigMap'' cm)\<lparr>k_namespace := ''n'', k_name := ''a'', k_resourceVersion := rv\<rparr>"

definition lagging :: "unit kclient" where
  "lagging = \<lparr>cl_get = (\<lambda>ob ns nm w. (Inr (cm_at ''9''), w)), cl_list = (\<lambda>g ns sel w. (Inr [], w)),
     cl_create = (\<lambda>ob w. ((None, ob), w)), cl_update = (\<lambda>ob w. ((None, cm_at ''10''), w)),
     cl_status_update = (\<lambda>ob w. ((None, ob), w)), cl_delete = (\<lambda>ob w. (None, w)),
     cl_patch = (\<lambda>ob ty p w. ((None, ob), w))\<rparr>"

definition lag_client :: "unit cacheClient" where
  "lag_client = \<lparr>cc_uncached = lagging, cc_cached = lagging,
     cc_scheme = \<lparr>gvk_for = (\<lambda>ob. Inr (k_gvk ob)), gvk_String = gvk_kind, gv_String = gvk_group,
       rest_scope = (\<lambda>_. Inr NamespaceScope), scheme_new = (\<lambda>_. NotRegistered)\<rparr>,
     cc_json_copy = (\<lambda>dst src. Inr src)\<rparr>"

definition lag_state :: "unit rstate" where
  "lag_state = \<lparr>rs_heap = (\<lambda>_. cm_at ''9''), rs_next = 2, rs_matchers = [], rs_gvks = [], rs_watching = [], rs_world = ()\<rparr>"

lemma digit_texts: "decimal 9 = ''9''" "decimal 10 = ''10''"
  by code_simp+

lemma lag_update:
  "cc_Update lag_client 0 (Bare 0) (lag_state, []) =
     (None, assign 0 (cm_at ''10'') lag_state, [(key_of cm (cm_at ''10''), \<lparr>ov_Object = 0, ov_Inserted = 0\<rparr>)])"
  by (simp add: cc_Update_def cc_write_def run_write_def store_def lag_client_def lagging_def lag_state_def
      deref_def assign_def cm_at_def zero_object_def)

lemma read_your_writes_witness:
  "\<exists>s. fst (snd (cc_Get lag_client ''n'' ''a'' (Bare 1)
        (snd (cc_Update lag_client 0 (Bare 0) (lag_state, []))))) = s \<and> k_resourceVersion (deref s 1) = ''10''"
proof -
  let ?s1 = "assign 0 (cm_at ''10'') lag_state"
  let ?m = "[(key_of cm (cm_at ''10''), \<lparr>ov_Object = 0, ov_Inserted = 0\<rparr>)]"
  have "\<exists>s3. cc_Get lag_client ''n'' ''a'' (Bare 1) (?s1, purge 5 ?m) = (None, s3, purge 5 ?m) \<and>
      deref s3 1 = (if 9 < (10::nat) then deref ?s1 0 else cm_at ''9'') \<and>
      k_resourceVersion (deref s3 1) = decimal (max 9 10)"
    by (rule read_your_writes [OF lag_update, where g = cm and stale = "cm_at ''9''" and ?w2.0 = "()"])
      (simp_all add: cacheDuration_def lag_client_def lagging_def deref_def assign_def cm_at_def
        zero_object_def digit_texts)
  moreover have "purge 5 ?m = ?m" by (simp add: purge_def cacheDuration_def)
  ultimately show ?thesis by (auto simp: lag_update digit_texts)
qed

text \<open>What is remembered is the caller's object, not a copy. When the caller of an update changes
  its object afterwards, without writing it, a read of the object through a cache that is
  behind gives every other reader the changed object, which the server never had.\<close>

theorem recent_is_shared:
  assumes "cc_Update c now (Bare x) (s, m) = (None, s1, m1)"
    and "gvk_for (cc_scheme c) (deref s1 x) = Inr g"
    and "cl_get (cc_cached c) (deref (assign x ob s1) y) ns nm (rs_world s1) = (Inr stale, w2)" and "y \<noteq> x"
    and "gvk_for (cc_scheme c) stale = Inr g" and "k_namespace stale = k_namespace (deref s1 x)"
    and "k_name stale = k_name (deref s1 x)" and "k_type stale = k_type ob"
    and "k_type stale \<noteq> ''unstructured.Unstructured''" and "newer (k_resourceVersion stale) (k_resourceVersion ob)"
  shows "\<exists>s3. cc_Get c ns nm (Bare y) (assign x ob s1, m1) = (None, s3, m1) \<and> deref s3 y = ob"
proof -
  let ?s2 = "assign x ob s1"
  have m1: "m1 = AList.update (key_of g (deref s1 x)) \<lparr>ov_Object = x, ov_Inserted = now\<rparr> m"
    using assms(1,2) unfolding cc_Update_def by (rule cc_write_Bare)
  have k: "key_of g stale = key_of g (deref s1 x)" using assms(6,7) by (simp add: key_of_def)
  have d: "deref ?s2 x = ob" by (simp add: deref_def assign_def)
  have w: "rs_world ?s2 = rs_world s1" by (simp add: assign_def)
  have "map_of m1 (key_of g stale) = Some \<lparr>ov_Object = x, ov_Inserted = now\<rparr>" by (simp add: m1 k)
  from cc_Get_recent [of c ?s2, OF assms(3) [folded w] assms(5) this] assms(4,8-10) show ?thesis
    by (fastforce simp: d)
qed

lemma recent_is_shared_witness:
  "\<exists>s. fst (snd (cc_Get lag_client ''n'' ''a'' (Bare 1)
       (assign 0 ((cm_at ''10'')\<lparr>k_body := JString ''scratch''\<rparr>) (assign 0 (cm_at ''10'') lag_state),
        [(key_of cm (cm_at ''10''), \<lparr>ov_Object = 0, ov_Inserted = 0\<rparr>)]))) = s \<and>
     k_body (deref s 1) = JString ''scratch''"
proof -
  let ?s1 = "assign 0 (cm_at ''10'') lag_state"
  let ?m = "[(key_of cm (cm_at ''10''), \<lparr>ov_Object = 0, ov_Inserted = 0\<rparr>)]"
  let ?ob = "(cm_at ''10'')\<lparr>k_body := JString ''scratch''\<rparr>"
  have n: "newer ''9'' ''10''" using newer_is_less [of 9 10] by (simp add: digit_texts)
  have "\<exists>s3. cc_Get lag_client ''n'' ''a'' (Bare 1) (assign 0 ?ob ?s1, ?m) = (None, s3, ?m) \<and> deref s3 1 = ?ob"
    by (rule recent_is_shared [OF lag_update, where g = cm and stale = "cm_at ''9''" and ?w2.0 = "()"])
      (simp_all add: n lag_client_def lagging_def deref_def assign_def cm_at_def zero_object_def)
  then show ?thesis by auto
qed

end
