(* ===== verification/Delivery.thy ===== *)
theory Delivery
  imports ControllerProperties HandlerSetProperties RuntimeProperties CachedClientProperties
begin

text \<open>
  From a change to the handlers of what read it. The worlds of the handler set are the backends of
  pkg/runtime here: a trigger that the handler set fires is a request to the shared controller of a kind,
  and a worker of that controller hands the key back to the handler set.
\<close>

section \<open>The handler set as the handler of a controller\<close>

text \<open>
  The handler set as the handler of a controller: \<open>Backend.Watch\<close> registers \<open>onChange\<close> with the kind,
  and an object of the cache is handed on by reference.
\<close>

definition watch_callback ::
  "'l \<Rightarrow> (int \<Rightarrow> 'l \<Rightarrow> int \<times> 'l) \<Rightarrow> int \<Rightarrow> 'w handler_set \<Rightarrow> gvk \<Rightarrow> ('l backoff \<times> 'w hs_state) on_change" where
  "watch_callback new_limiter reserve now h g key known st =
     (case known of
        None \<Rightarrow> (case onChange new_limiter reserve now h g key None st of ((_, e), st1) \<Rightarrow> (e, st1))
      | Some ob \<Rightarrow>
        (case st of (bo, s) \<Rightarrow>
          (case alloc ob (hs_r s) of (x, r) \<Rightarrow>
            (case onChange new_limiter reserve now h g key (Some x) (bo, s\<lparr>hs_r := r\<rparr>) of ((_, e), st1) \<Rightarrow> (e, st1)))))"

lemma trigger_key_special: "isSpecialKey (TriggerPrefix @ key)"
  by (simp add: isSpecialKey_def TriggerPrefix_def nth_Cons')

lemma parse_trigger_key: "\<not> has_prefix key ReplayPrefix \<Longrightarrow> parse_key (TriggerPrefix @ key) = (True, False, key)"
  by (simp add: parse_key_def)

lemma trigger_handled:
  assumes "\<not> has_prefix key ReplayPrefix" and "refresh h g key None (hs_r s) = (Inr obj, r1)"
  shows "syncHandler get (watch_callback new_limiter reserve now h g) obj0 (TriggerPrefix @ key) (bo, s) =
      (case handle h g key obj True (s\<lparr>hs_r := r1\<rparr>) of
         ((_, e), s2) \<Rightarrow> (e, if obj = None then forgetBackoff g key bo else bo, s2))"
  using assms(2)
  by (auto simp: syncHandler_def trigger_key_special watch_callback_def onChange_def
        parse_trigger_key [OF assms(1)] Let_def split: prod.splits)

section \<open>Requests to the controllers\<close>

text \<open>A key that a controller will process: it is on its queue, or is replayed when the queue is made.\<close>

definition requested :: "gostring \<Rightarrow> controller \<Rightarrow> bool" where
  "requested key c \<longleftrightarrow> (case ct_workqueue c of Some qs \<Rightarrow> Add key \<in> set qs | None \<Rightarrow> Add key \<in> set (map replay (ct_startKeys c)))"

lemma requested_EnqueueKey: "requested key (EnqueueKey key c)"
  by (cases "ct_workqueue c") (simp_all add: requested_def EnqueueKey_def add_start_def on_queue_def replay_def)

lemma requested_stays: "requested key c \<Longrightarrow> requested key (EnqueueKey key' c)"
  by (cases "ct_workqueue c") (auto simp: requested_def EnqueueKey_def add_start_def on_queue_def)

lemma requested_run_begin: "ct_workqueue c = None \<Longrightarrow> requested key c = requested key (run_begin c)"
  by (simp add: requested_def run_begin_def)

lemma trigger_now_same:
  assumes "controller_at b g = RealController c"
  shows "controller_at (snd (Backend_Trigger p g key 0 b)) g = RealController (EnqueueKey (p @ key) c)"
  using assms unfolding controller_at_def Backend_Trigger_def Let_def snd_conv
  by (simp add: at_kind_ForKind shared_at_def [of "fa\<lparr>fa_controllers := x\<rparr>" for fa x] ForKind_lookup
      sc_EnqueueKey_def on_controller_init)

lemma trigger_now_other:
  assumes "g' \<noteq> g"
  shows "controller_at (snd (Backend_Trigger p g' key 0 b)) g = controller_at b g"
  using assms unfolding controller_at_def Backend_Trigger_def Let_def snd_conv
  by (simp add: at_kind_ForKind shared_at_def ForKind_lookup)

lemma fire_requested:
  assumes "controller_at b g = RealController c"
  obtains c' where "controller_at (fire (Backend_Trigger p) target b) g = RealController c'"
    and "\<And>key. requested key c \<Longrightarrow> requested key c'" and "et_gvk target = g \<Longrightarrow> requested (p @ et_key target) c'"
proof (cases "et_gvk target = g")
  case True
  from trigger_now_same [OF assms, of p "et_key target"] True
  show ?thesis by (intro that [of "EnqueueKey (p @ et_key target) c"]) (simp_all add: fire_def requested_EnqueueKey requested_stays)
next
  case False
  from trigger_now_other [OF False, of p "et_key target" b] assms False
  show ?thesis by (intro that [of c]) (simp_all add: fire_def)
qed

lemma fires_requested:
  assumes "controller_at b g = RealController c"
  shows "\<exists>c'. controller_at (fold (fire (Backend_Trigger p)) targets b) g = RealController c' \<and>
    (\<forall>key. requested key c \<longrightarrow> requested key c') \<and>
    (\<forall>target \<in> set targets. et_gvk target = g \<longrightarrow> requested (p @ et_key target) c')"
  using assms
proof (induction targets arbitrary: b c)
  case (Cons target targets)
  obtain c1 where 1: "controller_at (fire (Backend_Trigger p) target b) g = RealController c1"
    "\<And>key. requested key c \<Longrightarrow> requested key c1" "et_gvk target = g \<Longrightarrow> requested (p @ et_key target) c1"
    using fire_requested [OF Cons.prems, of p target] by blast
  from Cons.IH [OF 1(1)] 1(2,3) show ?case by auto
qed simp

section \<open>What a handler read\<close>

text \<open>A read that was sent leaves a watch for exactly the object it named.\<close>

lemma read_watched:
  assumes "reader_Get b req ns name x s = (None, s')" and "gvk_for (b_scheme b) (deref s x) = Inr t"
  shows "\<exists>mt \<in> set (watchers (rs_matchers s') t \<lparr>et_key = rq_key req, et_gvk = rq_gvk req\<rparr>).
    om_namespace mt = ns \<and> om_name mt = name"
proof -
  from assms(1) obtain s1 where w: "registry_Watch b (rq_gvk req) (rq_key req) (Direct (deref s x)) ns name None None s = (None, s1)"
    and g: "run_get b ns name x s1 = (None, s')"
    by (auto simp: reader_Get_def tracked_def split: prod.splits option.splits)
  have "rs_matchers s' = rs_matchers s1" using run_get_matchers [of b ns name x s1] g by simp
  moreover from registry_Watch_direct [OF w] assms(2)
  have "rs_matchers s1 = triggers_register (rq_gvk req) (rq_key req) t
      \<lparr>om_namespace = ns, om_name = name, om_selector = None, om_fields = None\<rparr> (rs_matchers s)"
    by (metis sum.inject(2))
  ultimately show ?thesis
    using register_has [of "rq_gvk req" "rq_key req" t "\<lparr>om_namespace = ns, om_name = name, om_selector = None, om_fields = None\<rparr>"
      "rs_matchers s"] by (auto simp: matcher_Equals_iff)
qed

lemma fire_triggers_requested:
  assumes "b_trigger (h_backend h) = Backend_Trigger p" and "nm_ok (rs_matchers s)"
    and "mt \<in> set (watchers (rs_matchers s) (rq_gvk ev) \<lparr>et_key = key, et_gvk = g\<rparr>)"
    and "om_name mt \<noteq> []" and "om_name mt = rq_name ev" and "om_namespace mt = rq_namespace ev"
    and "(g, key) \<noteq> (rq_gvk ev, rq_key ev)" and "deleted \<or> \<not> rq_fromTrigger ev"
    and "controller_at (rs_world s) g = RealController c"
  shows "\<exists>c'. controller_at (rs_world (fire_triggers h deleted ev s)) g = RealController c' \<and> requested (p @ key) c'"
proof -
  let ?tr = "trigger_req_of ev s" and ?target = "\<lparr>et_key = key, et_gvk = g\<rparr>"
  have match: "matcher_Match mt (tr_namespace ?tr) (tr_name ?tr) (tr_object ?tr)"
    using assms(4-6) by (simp add: matcher_Match_iff trigger_req_of_def)
  have g: "tr_gvk ?tr = rq_gvk ev" by (simp add: trigger_req_of_def)
  obtain targets where t: "rs_world (fire_triggers h deleted ev s) = fold (fire (Backend_Trigger p)) targets (rs_world s)"
    "?target \<in> set targets"
  proof (cases deleted)
    case True
    obtain m w where u: "UnregisterAndTrigger (Backend_Trigger p) ?tr (rs_matchers s) (rs_world s) = (m, w)" by fastforce
    have not_self: "\<not> is_self ?tr ?target" using assms(7) by (auto simp: is_self_def trigger_req_of_def)
    show ?thesis
    proof (rule Unregister_fires [OF assms(2) u])
      fix ts
      assume ts: "w = fold (fire (Backend_Trigger p)) ts (rs_world s)"
        "set ts = {t. \<not> is_self ?tr t \<and> (\<exists>mt \<in> set (watchers (rs_matchers s) (tr_gvk ?tr) t).
           matcher_Match mt (tr_namespace ?tr) (tr_name ?tr) (tr_object ?tr))}"
      have "?target \<in> set ts" unfolding ts(2) using not_self match assms(3) g by auto
      with ts(1) u True assms(1) show ?thesis by (intro that [of ts]) (simp_all add: fire_triggers_def Let_def)
    qed
  next
    case False
    have "?target \<in> set (fired (rs_matchers s) ?tr)"
      unfolding fired_iff [OF assms(2)] using assms(3,7) match g by (auto simp: trigger_req_of_def)
    then show ?thesis
      using False assms(1,8)
      by (intro that [of "fired (rs_matchers s) ?tr"])
        (simp_all add: fire_triggers_def triggers_Trigger_def invokeTriggers_fired Let_def trigger_req_of_def)
  qed
  from fires_requested [OF assms(9), of p targets] t show ?thesis by fastforce
qed

text \<open>what a handler read is followed, from the change to the handler. When a handler's \<open>Get\<close> was sent, for
  an object named by kind, namespace and name, and later the object is handled, because it changed or
  because it is gone, while the watch is still in the table, then the controller of the handler's
  kind is asked to process the handler's key, marked as a trigger: the key is on its queue, or is
  replayed when the queue is made. And a worker that takes the marked key from the queue handles
  the handler's object as the server has it, whatever the rate limiter says about its key.\<close>

theorem read_is_followed:
  fixes h :: "('o, 'v) Backend handler_set"
  assumes "b_trigger (h_backend h) = Backend_Trigger TriggerPrefix"
    and "reader_Get (h_backend h) req ns name x s = (None, s1)" and "name \<noteq> []"
    and "gvk_for (b_scheme (h_backend h)) (deref s x) = Inr (rq_gvk ev)"
    and "nm_ok (rs_matchers s2)"
    and "set (watchers (rs_matchers s1) (rq_gvk ev) \<lparr>et_key = rq_key req, et_gvk = rq_gvk req\<rparr>) \<subseteq>
      set (watchers (rs_matchers s2) (rq_gvk ev) \<lparr>et_key = rq_key req, et_gvk = rq_gvk req\<rparr>)"
    and "rq_namespace ev = ns" and "rq_name ev = name" and "deleted \<or> \<not> rq_fromTrigger ev"
    and "(rq_gvk req, rq_key req) \<noteq> (rq_gvk ev, rq_key ev)"
    and "controller_at (rs_world s2) (rq_gvk req) = RealController c"
    and "\<not> has_prefix (rq_key req) ReplayPrefix"
    and "refresh h (rq_gvk req) (rq_key req) None (hs_r st) = (Inr obj, r1)"
    and "handle h (rq_gvk req) (rq_key req) obj True (st\<lparr>hs_r := r1\<rparr>) = ((res, e), st')"
  shows "(\<exists>c'. controller_at (rs_world (fire_triggers h deleted ev s2)) (rq_gvk req) = RealController c' \<and>
       requested (TriggerPrefix @ rq_key req) c') \<and>
    snd (processSingleItem get (watch_callback new_limiter reserve now h (rq_gvk req)) obj0
           (KeyItem (TriggerPrefix @ rq_key req)) (bo, st)) =
      (if obj = None then forgetBackoff (rq_gvk req) (rq_key req) bo else bo, st')"
proof -
  obtain mt where mt: "mt \<in> set (watchers (rs_matchers s2) (rq_gvk ev) \<lparr>et_key = rq_key req, et_gvk = rq_gvk req\<rparr>)"
    "om_namespace mt = ns" "om_name mt = name"
    using read_watched [OF assms(2,4)] assms(6) by blast
  have "\<exists>c'. controller_at (rs_world (fire_triggers h deleted ev s2)) (rq_gvk req) = RealController c' \<and>
       requested (TriggerPrefix @ rq_key req) c'"
    by (rule fire_triggers_requested [OF assms(1,5) mt(1) _ _ _ assms(10,9,11)]) (use mt assms(3,7,8) in simp_all)
  moreover note sync = trigger_handled [OF assms(12,13), of get new_limiter reserve now obj0 bo]
  ultimately show ?thesis
    using assms(14) by (simp add: processSingleItem_def split: option.split)
qed

text \<open>A cluster that has every object that is asked for, and a handler of pods that read a configuration.\<close>

definition giving_client :: "'w kclient" where
  "giving_client = \<lparr>cl_get = (\<lambda>ob ns nm w. (Inr (ob\<lparr>k_namespace := ns, k_name := nm\<rparr>), w)),
     cl_list = (\<lambda>g ns sel w. (Inr [], w)), cl_create = (\<lambda>ob w. ((None, ob), w)),
     cl_update = (\<lambda>ob w. ((None, ob), w)), cl_status_update = (\<lambda>ob w. ((None, ob), w)),
     cl_delete = (\<lambda>ob w. (None, w)), cl_patch = (\<lambda>ob ty p w. ((None, ob), w))\<rparr>"

definition pod_set :: "(gostring, nat) Backend handler_set" where
  "pod_set = \<lparr>h_name = ''ctl'', h_backend = \<lparr>b_scheme = plain_scheme, b_watch = (\<lambda>g w. (None, w)),
       b_trigger = Backend_Trigger TriggerPrefix, b_client = giving_client\<rparr>,
     h_handlers = [], h_onError = None, h_sem_eq = (=), h_apply_env = ex_env, h_reconcilers = [], h_validOwnerChange = []\<rparr>"

definition pod_state :: "(gostring, nat) Backend rstate" where
  "pod_state = \<lparr>rs_heap = (\<lambda>_. zero_object ''ConfigMap'' cm), rs_next = 1, rs_matchers = [], rs_gvks = [], rs_watching = [],
     rs_world = fresh_backend\<rparr>"

definition of_pod :: request where
  "of_pod = \<lparr>rq_object = None, rq_gvk = pods, rq_namespace = ''n'', rq_name = ''p'', rq_key = ''n/p'', rq_fromTrigger = False\<rparr>"

definition of_config :: request where
  "of_config = \<lparr>rq_object = None, rq_gvk = cm, rq_namespace = ''n'', rq_name = ''c'', rq_key = ''n/c'', rq_fromTrigger = False\<rparr>"

lemma read_is_followed_witness:
  "\<exists>s1 c'. reader_Get (h_backend pod_set) of_pod ''n'' ''c'' 0 pod_state = (None, s1) \<and>
     controller_at (rs_world (fire_triggers pod_set False of_config s1)) pods = RealController c' \<and> requested ''_t n/p'' c'"
proof -
  have pre: "\<not> has_prefix ''n/p'' ReplayPrefix" by (simp add: ReplayPrefix_def)
  have "fst (reader_Get (h_backend pod_set) of_pod ''n'' ''c'' 0 pod_state) = None"
    by (simp add: reader_Get_def tracked_def registry_Watch_def triggers_Register_def WatchGVK_def pod_set_def of_pod_def
        plain_scheme_def giving_client_def pod_state_def run_get_def Let_def gm_bool_def)
  then obtain s1 where g: "reader_Get (h_backend pod_set) of_pod ''n'' ''c'' 0 pod_state = (None, s1)"
    by (metis prod.collapse)
  then have m: "rs_matchers s1 = triggers_register pods ''n/p'' cm
      \<lparr>om_namespace = ''n'', om_name = ''c'', om_selector = None, om_fields = None\<rparr> []" "rs_world s1 = fresh_backend"
    by (auto simp: reader_Get_def tracked_def registry_Watch_def triggers_Register_def WatchGVK_def pod_set_def of_pod_def
        plain_scheme_def giving_client_def pod_state_def run_get_def Let_def gm_bool_def deref_def zero_object_def assign_def
        split: prod.splits)
  have ok: "nm_ok (rs_matchers s1)" unfolding m by (rule triggers_register_ok [OF nm_ok_Nil])
  have t: "gvk_for (b_scheme (h_backend pod_set)) (deref pod_state 0) = Inr (rq_gvk of_config)"
    by (simp add: pod_set_def plain_scheme_def pod_state_def deref_def zero_object_def of_config_def)
  have c: "controller_at (rs_world s1) (rq_gvk of_pod) = RealController pod_controller"
    by (simp add: m(2) controller_at_def fresh_backend_def NewSharedControllerFactory_def shared_at_def
        new_sharedController_def initController_def of_pod_def)
  let ?st = "\<lparr>hs_r = pod_state, hs_patchCache = []\<rparr>"
  have "\<exists>obj. fst (refresh pod_set (rq_gvk of_pod) (rq_key of_pod) None (hs_r ?st)) = Inr obj"
    by (simp add: refresh_def pod_set_def plain_scheme_def giving_client_def run_get_def alloc_def split: prod.split)
  then obtain obj r1 where r: "refresh pod_set (rq_gvk of_pod) (rq_key of_pod) None (hs_r ?st) = (Inr obj, r1)"
    by (metis prod.collapse)
  obtain res e st' where h: "handle pod_set (rq_gvk of_pod) (rq_key of_pod) obj True (?st\<lparr>hs_r := r1\<rparr>) = ((res, e), st')"
    by (metis surj_pair)
  have tr: "b_trigger (h_backend pod_set) = Backend_Trigger TriggerPrefix" by (simp add: pod_set_def)
  have "\<exists>c'. controller_at (rs_world (fire_triggers pod_set False of_config s1)) (rq_gvk of_pod) = RealController c' \<and>
      requested (TriggerPrefix @ rq_key of_pod) c'"
    by (rule read_is_followed [OF tr g _ t ok _ _ _ _ _ c _ r h, THEN conjunct1])
      (use pre in \<open>simp_all add: of_pod_def of_config_def cm_def pods_def\<close>)
  with g show ?thesis by (simp add: of_pod_def TriggerPrefix_def)
qed

end
