(* ===== verification/OwnerProperties.thy ===== *)
theory OwnerProperties
  imports ApplyExample
begin

text \<open>
  What the marks an apply leaves on objects are good for: the kind of the owner is read back
  from its annotation, \<open>FindOwner\<close> asks for the very owner that marked an object, \<open>PurgeOrphan\<close>
  (and the handler \<open>GCOrphans\<close>) deletes an object only when that owner is gone, and a marked
  object is recognised by the hash in its own label.
\<close>

section \<open>Reading the kind back\<close>

text \<open>
  How apimachinery prints a kind, and the parts for which the text can be read back: a group has
  no slash, and no part has a comma.
\<close>

definition prints_gvk :: "kscheme \<Rightarrow> bool" where
  "prints_gvk sch \<longleftrightarrow>
     (\<forall>g. gvk_String sch g = gvk_group g @ ''/'' @ gvk_version g @ '', Kind='' @ gvk_kind g)"

definition plain_gvk :: "gvk \<Rightarrow> bool" where
  "plain_gvk g \<longleftrightarrow> CHR ''/'' \<notin> set (gvk_group g) \<and> CHR '','' \<notin> set (gvk_group g) \<and>
     CHR '','' \<notin> set (gvk_version g) \<and> CHR '','' \<notin> set (gvk_kind g)"

lemma ex_prints_gvk: "prints_gvk ex_scheme"
  by (simp add: prints_gvk_def ex_scheme_def ex_gvk_String_def)

lemma split_kind:
  assumes "CHR '','' \<notin> set b" and "CHR '','' \<notin> set k"
  shows "str_split (b @ '', Kind='' @ k) '', Kind='' = [b, k]"
proof -
  have cut: "str_cut (b @ '', Kind='' @ k) '', Kind='' = (b, k, True)"
    by (rule str_cut_append_fresh [where c = "CHR '',''" and rest = "'' Kind=''"])
      (use assms in simp_all)
  have cut2: "str_cut k '', Kind='' = (k, [], False)"
    by (rule str_cut_fresh [where c = "CHR '',''" and rest = "'' Kind=''"]) (use assms in simp_all)
  have two: "str_split k '', Kind='' = [k]"
    by (subst str_split.simps) (simp only: cut2, simp)
  show ?thesis
    by (subst str_split.simps) (simp only: cut prod.case two, simp)
qed

lemma getGVK_print:
  assumes "prints_gvk sch" and "plain_gvk g"
  shows "getGVK (gvk_String sch g) = Inr g"
proof -
  have s: "gvk_String sch g = (gvk_group g @ CHR ''/'' # gvk_version g) @ '', Kind='' @ gvk_kind g"
    using assms(1) by (simp add: prints_gvk_def)
  have "str_split (gvk_String sch g) '', Kind='' = [gvk_group g @ CHR ''/'' # gvk_version g, gvk_kind g]"
    unfolding s by (rule split_kind) (use assms(2) in \<open>auto simp: plain_gvk_def\<close>)
  moreover have "str_cut (gvk_group g @ CHR ''/'' # gvk_version g) ''/'' = (gvk_group g, gvk_version g, True)"
    using assms(2) by (intro str_cut_single) (simp add: plain_gvk_def)
  ultimately show ?thesis by (simp add: getGVK_def Let_def)
qed

text \<open>The kind of an owner survives the annotation: \<open>getGVK\<close> reads back the kind that
  \<open>GroupVersionKind.String\<close> printed, for every kind whose group has no slash and whose parts have
  no comma; a text without exactly one separator is an error.\<close>

theorem getGVK_roundtrip:
  assumes "prints_gvk sch" and "plain_gvk g" and "CHR '','' \<notin> set other"
  shows "getGVK (gvk_String sch g) = Inr g \<and>
    getGVK other = Inl (Plain (''invalid GVK format: '' @ other))"
proof -
  have "str_cut other '', Kind='' = (other, [], False)"
    by (rule str_cut_fresh [where c = "CHR '',''" and rest = "'' Kind=''"]) (use assms(3) in simp_all)
  then have "str_split other '', Kind='' = [other]"
    by (subst str_split.simps) (simp only:, simp)
  then show ?thesis using getGVK_print [OF assms(1,2)] by (simp add: getGVK_def)
qed

lemma getGVK_roundtrip_witness:
  "getGVK ''apps/v1, Kind=Deployment'' = Inr ex_gvk"
  using getGVK_roundtrip [OF ex_prints_gvk, of ex_gvk "''x''"]
  by (simp add: ex_gvk_def plain_gvk_def ex_gvk_String_def)

section \<open>Finding the owner\<close>

lemma mark_lookup:
  assumes "gm_ok as" and "map_of as k = Some v"
  shows "map_of (k_annotations (mark ls as obj)) k = Some v"
  using assms by (simp add: mark_def setAnnotations_lookup)

lemma FindOwner_marked:
  assumes pr: "prints_gvk (ae_scheme env)" and g: "gvk_for (ae_scheme env) ob = Inr g" "plain_gvk g"
    and m: "GetLabelsAndAnnotations env ctx (Some ob) = Inr (ls, as)"
  shows "FindOwner env cl (Some (mark ls as obj)) w = apply_get env cl g None (k_namespace ob) (k_name ob) w"
proof -
  from GetLabelsAndAnnotations_owner [OF g(1), of ctx] m have as: "gm_ok as"
    "map_of as LabelGVK = Some (gvk_String (ae_scheme env) g)"
    "map_of as LabelName = Some (k_name ob)" "map_of as LabelNamespace = Some (k_namespace ob)"
    by (metis Pair_inject sum.inject(2))+
  note l = mark_lookup [OF as(1), of _ _ ls obj]
  have "gvk_String (ae_scheme env) g \<noteq> []" using pr by (simp add: prints_gvk_def)
  then show ?thesis
    using getGVK_print [OF pr g(2)]
    by (simp add: FindOwner_def Let_def gm_str_Some [OF l [OF as(2)]] gm_str_Some [OF l [OF as(3)]]
        gm_str_Some [OF l [OF as(4)]])
qed

text \<open>C23: Garbage collection follows the marks. For an object marked for an owner, \<open>GCOrphans\<close>
  asks the client for exactly that owner (its kind, namespace and name); it deletes the object,
  under its own kind and key, only when the answer is "not found", and any other error is passed
  on. An object without the owner annotation is left alone without any request.\<close>

theorem GCOrphans_marked:
  assumes "prints_gvk (ae_scheme env)" and "gvk_for (ae_scheme env) ob = Inr g" and "plain_gvk g"
    and "GetLabelsAndAnnotations env ctx (Some ob) = Inr (ls, as)"
    and "apply_get env cl g None (k_namespace ob) (k_name ob) w = (answer, w1)"
    and "gvk_for (ae_scheme env) (mark ls as obj) = Inr h"
    and "gm_str (k_annotations unowned) LabelGVK = []"
  shows "GCOrphans env cl (Some (mark ls as obj)) w =
      (case answer of
         Inr owner \<Rightarrow> (None, w1)
       | Inl e \<Rightarrow>
           if IsNotFound (Some e) then cl_delete cl
             ((zero_object ''*unstructured.Unstructured'' h)\<lparr>k_name := k_name obj, k_namespace := k_namespace obj\<rparr>) w1
           else (if e = ErrOwnerNotFound then None else Some e, w1)) \<and>
    GCOrphans env cl (Some unowned) w = (None, w)"
proof -
  have k: "k_name (mark ls as obj) = k_name obj" "k_namespace (mark ls as obj) = k_namespace obj"
    by (simp_all add: mark_def)
  have "FindOwner env cl (Some unowned) w = (Inl ErrOwnerNotFound, w)"
    using assms(7) by (simp add: FindOwner_def)
  then have "GCOrphans env cl (Some unowned) w = (None, w)"
    by (simp add: GCOrphans_def PurgeOrphan_def reason_is_def)
  with FindOwner_marked [OF assms(1-4), of cl obj w] assms(5,6) k show ?thesis
    by (auto simp: GCOrphans_def PurgeOrphan_def apply_delete_def split: sum.split)
qed

definition ex_marks :: "(gostring, gostring) gomap \<times> (gostring, gostring) gomap" where
  "ex_marks = (case GetLabelsAndAnnotations ex_env ''sub'' (Some ex_owner) of Inl e \<Rightarrow> ([], []) | Inr m \<Rightarrow> m)"

lemma ex_marks: "GetLabelsAndAnnotations ex_env ''sub'' (Some ex_owner) = Inr (fst ex_marks, snd ex_marks)"
proof -
  have "gvk_for (ae_scheme ex_env) ex_owner = Inr (k_gvk ex_owner)" by simp
  from GetLabelsAndAnnotations_owner [OF this, of "''sub''"]
  show ?thesis by (metis ex_marks_def prod.collapse sum.simps(6))
qed

lemma GCOrphans_marked_witness:
  "snd (GCOrphans ex_env ex_client (Some (mark (fst ex_marks) (snd ex_marks) (ex_obj ''ns'' ''a'')))
     \<lparr>ew_store = [], ew_deleted = []\<rparr>) = \<lparr>ew_store = [], ew_deleted = [\<lparr>ok_name = ''a'', ok_namespace = ''ns''\<rparr>]\<rparr>"
proof -
  let ?w = "\<lparr>ew_store = [], ew_deleted = []\<rparr>"
  have g: "gvk_for (ae_scheme ex_env) ex_owner = Inr ex_gvk" "plain_gvk ex_gvk"
    by (simp_all add: ex_owner_def ex_obj_def zero_object_def plain_gvk_def ex_gvk_def)
  have get: "apply_get ex_env ex_client ex_gvk None (k_namespace ex_owner) (k_name ex_owner) ?w =
      (Inl (Api NotFound ''app''), ?w)"
    by (simp add: apply_get_def newObj_def ex_env_def ex_scheme_def ex_client_def ex_owner_def ex_obj_def)
  have p: "prints_gvk (ae_scheme ex_env)" by (simp add: ex_prints_gvk)
  have h: "gvk_for (ae_scheme ex_env) (mark (fst ex_marks) (snd ex_marks) (ex_obj ''ns'' ''a'')) =
      Inr (k_gvk (mark (fst ex_marks) (snd ex_marks) (ex_obj ''ns'' ''a'')))" by simp
  have u: "gm_str (k_annotations ex_owner) LabelGVK = []"
    by (simp add: ex_owner_def ex_obj_def zero_object_def gm_str_def)
  show ?thesis
    using GCOrphans_marked [OF p g ex_marks get h u]
    by (simp add: ex_client_def ex_obj_def object_key_def)
qed

section \<open>The hash\<close>

text \<open>C24: A marked object is recognised as the owner's. Its label carries the hash of its own
  owner annotations, so when it is no longer wanted, does not opt out and is not being deleted, the
  plan deletes it; and the label is the one the selector of the owner asks for.\<close>

theorem marked_prunable:
  assumes "gvk_for (ae_scheme env) ob = Inr g"
    and "GetLabelsAndAnnotations env ctx (Some ob) = Inr (ls, as)"
    and "gm_str (k_annotations obj) AnnotationPrune \<noteq> ''false''" and "k_deletionTimestamp obj = None"
    and "existing = [(key, mark ls as obj)]"
  shows "fst (snd (compareSets (ae_codec env) existing [])) = [key] \<and>
    map_of (k_labels (mark ls as obj)) LabelHash = Some (gm_str ls LabelHash) \<and>
    gm_str ls LabelHash = objectSetHash (ae_codec env) (k_annotations (mark ls as obj))"
proof -
  from GetLabelsAndAnnotations_owner [OF assms(1), of ctx] assms(2)
  have m: "ls = [(LabelHash, objectSetHash (ae_codec env) as)]" "gm_ok as" "gm_keys as = hashOrder"
    by (metis Pair_inject sum.inject(2))+
  have look: "map_of (k_annotations (mark ls as obj)) k =
      (case map_of as k of Some v \<Rightarrow> Some v | None \<Rightarrow> if k = LabelApplied then None else map_of (k_annotations obj) k)" for k
    by (simp add: mark_def setAnnotations_lookup [OF m(2)] split: option.split)
  have "map_of as k \<noteq> None" if "k \<in> set hashOrder" for k
    using that m(3) gm_keys_iff [of k as] by simp
  then have "gm_str (k_annotations (mark ls as obj)) k = gm_str as k" if "k \<in> set hashOrder" for k
    using that look [of k] by (fastforce simp: gm_str_def)
  then have hash: "objectSetHash (ae_codec env) (k_annotations (mark ls as obj)) = objectSetHash (ae_codec env) as"
    by (rule objectSetHash_cong)
  have "gm_ok ls" by (simp add: m(1) gm_ok_def)
  then have lab: "map_of (k_labels (mark ls as obj)) LabelHash = Some (objectSetHash (ae_codec env) as)"
    by (simp add: mark_def setLabels_lookup m(1))
  have "AnnotationPrune \<notin> set hashOrder" "AnnotationPrune \<noteq> LabelApplied"
    by (simp_all add: hashOrder_def label_names)
  then have "map_of as AnnotationPrune = None" using m(3) gm_keys_iff [of AnnotationPrune as] by auto
  then have "gm_str (k_annotations (mark ls as obj)) AnnotationPrune = gm_str (k_annotations obj) AnnotationPrune"
    using look [of AnnotationPrune] \<open>AnnotationPrune \<noteq> LabelApplied\<close> by (simp add: gm_str_def)
  moreover have "k_deletionTimestamp (mark ls as obj) = k_deletionTimestamp obj"
    by (simp add: mark_def setAnnotations_def setLabels_def Let_def)
  ultimately have "prunable (ae_codec env) (mark ls as obj)"
    using assms(3,4) lab hash by (simp add: prunable_def should_def)
  then have "fst (snd (compareSets (ae_codec env) existing [])) = [key]"
    by (simp add: compareSets_def assms(5) sortObjectKeys_def)
  with lab hash m(1) show ?thesis by (simp add: gm_str_def)
qed

lemma marked_prunable_witness:
  "fst (snd (compareSets ex_codec [(object_key ex_owner, mark (fst ex_marks) (snd ex_marks) ex_owner)] [])) =
     [object_key ex_owner]"
proof -
  have g: "gvk_for (ae_scheme ex_env) ex_owner = Inr (k_gvk ex_owner)" by simp
  show ?thesis
    using marked_prunable [OF g ex_marks, of ex_owner "[(object_key ex_owner, mark (fst ex_marks) (snd ex_marks) ex_owner)]"]
    by (simp add: ex_owner_def ex_obj_def zero_object_def gm_str_def)
qed

text \<open>The hash does not separate the fields it covers: it digests their concatenation. Two
  owners whose name and namespace run together to the same text get the same hash, hence the same
  label and the same selector.\<close>

theorem objectSetHash_not_injective:
  "\<exists>as as'. gm_keys as = hashOrder \<and> gm_keys as' = hashOrder \<and>
     gm_str as LabelName \<noteq> gm_str as' LabelName \<and> gm_str as LabelNamespace \<noteq> gm_str as' LabelNamespace \<and>
     (\<forall>c. objectSetHash c as = objectSetHash c as')"
proof (intro exI conjI allI)
  let ?as = "[(LabelSubContext, []), (LabelGVK, ''g''), (LabelName, ''ab''), (LabelNamespace, ''c'')]"
  let ?as' = "[(LabelSubContext, []), (LabelGVK, ''g''), (LabelName, ''a''), (LabelNamespace, ''bc'')]"
  show "gm_keys ?as = hashOrder" "gm_keys ?as' = hashOrder" by (simp_all add: hashOrder_def)
  show "gm_str ?as LabelName \<noteq> gm_str ?as' LabelName" by (simp add: gm_str_def)
  show "gm_str ?as LabelNamespace \<noteq> gm_str ?as' LabelNamespace" by (simp add: gm_str_def)
  show "objectSetHash c ?as = objectSetHash c ?as'" for c
    by (simp add: objectSetHash_text gm_str_def)
qed

end
