(* ===== verification/PatchProperties.thy ===== *)
theory PatchProperties
  imports ApplyExample
begin

text \<open>
  What is recorded on an object and what is sent as a patch: the applied annotation is read back
  as it was written, the recorded values are bounded, a patch is cleaned of everything the server
  manages, the cache of merge styles is transparent, and an update that would change only the
  bookkeeping sends nothing.
\<close>

section \<open>The applied annotation\<close>

text \<open>
  \<open>codec_inverse\<close>: what the sources rely on of gzip and base64: each decoder undoes its encoder,
  and base64 never prints an empty text or an opening brace for a compressed text.
\<close>

definition codec_inverse :: "codec \<Rightarrow> bool" where
  "codec_inverse c \<longleftrightarrow>
     (\<forall>b z. gzip_bytes c b = Some z \<longrightarrow> gunzip_bytes c z = Some b \<and>
        b64_encode c z \<noteq> [] \<and> b64_encode c z ! 0 \<noteq> CHR ''{'') \<and>
     (\<forall>z. b64_decode c (b64_encode c z) = Some z)"

lemma ex_codec_inverse: "codec_inverse ex_codec"
  by (simp add: codec_inverse_def ex_codec_def)

text \<open>The applied annotation is read back as it was written: for a serialized object (a text
  that starts with a brace, or none) \<open>appliedFromAnnotation\<close> undoes \<open>appliedToAnnotation\<close>, whether
  compressing succeeded or the plain text was kept.\<close>

theorem applied_annotation_roundtrip:
  assumes "codec_inverse c" and "b = [] \<or> b ! 0 = CHR ''{''"
  shows "appliedFromAnnotation c (appliedToAnnotation c b) = b"
proof (cases "gzip_bytes c b")
  case None
  with assms(2) show ?thesis by (auto simp: appliedToAnnotation_def appliedFromAnnotation_def)
next
  case (Some z)
  with assms(1) have "gunzip_bytes c z = Some b" "b64_encode c z \<noteq> []" "b64_encode c z ! 0 \<noteq> CHR ''{''"
    "b64_decode c (b64_encode c z) = Some z"
    by (auto simp: codec_inverse_def)
  with Some show ?thesis by (simp add: appliedToAnnotation_def appliedFromAnnotation_def)
qed

lemma applied_annotation_roundtrip_witness:
  "appliedFromAnnotation ex_codec (appliedToAnnotation ex_codec ''{a'') = ''{a''"
  using applied_annotation_roundtrip [OF ex_codec_inverse, of "''{a''"] by simp

text \<open>Recording is bounded and faithful. \<open>pruneValues\<close> keeps the keys of the object, keeps it
  well formed, leaves no string over 72 bytes outside the fields that identify list elements, and
  changes nothing when no string is over 64 bytes.\<close>

theorem pruneValues_bounded:
  assumes "wf_json (JObject m)"
  shows "gm_keys (pruneValues c m False) = gm_keys m \<and> wf_json (JObject (pruneValues c m False)) \<and>
    map_within 72 (pruneValues c m False) False \<and>
    (map_within 64 m False \<longrightarrow> pruneValues c m False = m)"
  using prune_wf(2) [OF assms] prune_within(2) prune_within_id(2) by simp

lemma pruneValues_bounded_witness:
  "map_within 72 (pruneValues ex_codec [(''k'', JString (replicate 100 (CHR ''x'')))] False) False"
  using pruneValues_bounded [of "[(''k'', JString (replicate 100 (CHR ''x'')))]" ex_codec]
  by (simp add: gm_ok_def)

section \<open>Cleaning a patch\<close>

text \<open>C27: What is sent is the generated patch without what the server owns. For a patch that
  parses, \<open>sanitizePatch\<close> drops the kind, the api version, the status and the managed metadata
  fields and nothing else; when all that is left is the applied annotation (or less) it answers
  the empty patch; and a patch from which nothing was dropped is passed through byte for byte.\<close>

theorem sanitizePatch_sound:
  assumes "unmarshal_map c patch = Inr data" and "wf_json (JObject data)"
    and "''__invalid_key__'' \<notin> map_all_keys data"
  shows "\<exists>data'.
    (\<forall>k. k \<noteq> ''metadata'' \<longrightarrow> map_of data' k =
       (if k \<in> {''kind'', ''apiVersion'', ''status''} then None else map_of data k)) \<and>
    (\<forall>k. map_of (metadata_of data') k =
       (if k \<in> {''creationTimestamp'', ''generation'', ''resourceVersion'', ''uid'', ''managedFields''}
        then None else map_of (metadata_of data) k)) \<and>
    sanitizePatch c nested patch False =
      Inr (if \<forall>p \<in> set (map_leaf_paths data'). prefix p [''metadata'', ''annotations'', LabelApplied]
           then ''{}'' else if data' = data then patch else marshal_map c data')"
proof -
  from sanitizePatch_cleaned [OF assms] obtain data' where d: "cleaned data data'"
    "sanitizePatch c nested patch False =
      Inr (if only_applied data' then ''{}'' else if data' = data then patch else marshal_map c data')"
    by blast
  have "set managed_fields = {''creationTimestamp'', ''generation'', ''resourceVersion'', ''uid'', ''managedFields''}"
    by (simp add: managed_fields_def)
  note cl = d(1) [unfolded cleaned_def this]
  show ?thesis
    by (rule exI [of _ data'], intro conjI)
      (rule cl [THEN conjunct1], rule cl [THEN conjunct2], rule d(2) [unfolded only_applied_def])
qed

definition ex_patch_codec :: codec where
  "ex_patch_codec = ex_codec
     \<lparr>unmarshal_map := (\<lambda>s. Inr [(''kind'', JNull), (''metadata'', JObject [(''uid'', JNull),
        (''annotations'', JObject [(LabelApplied, JString ''x'')])])])\<rparr>"

lemma sanitizePatch_sound_witness: "sanitizePatch ex_patch_codec (ae_nested ex_env) ''p'' False = Inr ''{}''"
proof -
  let ?d = "[(''kind'', JNull), (''metadata'', JObject [(''uid'', JNull),
        (''annotations'', JObject [(LabelApplied, JString ''x'')])])]"
  have u: "unmarshal_map ex_patch_codec ''p'' = Inr ?d" by (simp add: ex_patch_codec_def)
  have wf: "wf_json (JObject ?d)" by (simp add: gm_ok_def)
  have "''__invalid_key__'' \<notin> map_all_keys ?d" by simp
  from sanitizePatch_sound [OF u wf this, of "ae_nested ex_env"]
  obtain r where "sanitizePatch ex_patch_codec (ae_nested ex_env) ''p'' False = Inr r" by blast
  moreover have "sanitizePatch ex_patch_codec (ae_nested ex_env) ''p'' False = Inr ''{}''"
    by (simp add: sanitizePatch_def u drop_key_def removeMetadataFields_def emptyMaps_def)
  ultimately show ?thesis by simp
qed

section \<open>The cache of merge styles\<close>

definition cache_sound :: "apply_env \<Rightarrow> (gvk, patchCacheEntry) gomap \<Rightarrow> bool" where
  "cache_sound env cache \<longleftrightarrow>
     (\<forall>g entry. map_of cache g = Some entry \<longrightarrow> fst (getMergeStyle env g []) = Inr entry)"

lemma cache_sound_Nil: "cache_sound env []"
  by (simp add: cache_sound_def)

lemma getMergeStyle_fresh:
  "map_of cache g = None \<Longrightarrow> fst (getMergeStyle env g cache) = fst (getMergeStyle env g []) \<and>
     snd (getMergeStyle env g cache) =
       (case fst (getMergeStyle env g []) of Inl e \<Rightarrow> cache | Inr entry \<Rightarrow> AList.update g entry cache)"
  by (auto simp: getMergeStyle_def Let_def split: new_result.splits sum.splits)

text \<open>The cache of merge styles is transparent. Starting from a cache that agrees with what
  a fresh look-up finds, \<open>getMergeStyle\<close> answers what a fresh look-up would, leaves a cache that
  agrees, and stores no failure. Unknown kinds and custom resource definitions get a merge patch.\<close>

theorem getMergeStyle_cached:
  assumes "cache_sound env cache" and "getMergeStyle env g cache = (r, cache')"
  shows "r = fst (getMergeStyle env g []) \<and> cache_sound env cache' \<and>
    (\<forall>e. r = Inl e \<longrightarrow> cache' = cache) \<and>
    (ae_clientgo_new env g = NotRegistered \<or> gvk_kind g = ''CustomResourceDefinition'' \<longrightarrow>
       r = Inr \<lparr>pce_patchType = MergePatchType, pce_lookup = []\<rparr>)"
proof (cases "map_of cache g")
  case (Some entry)
  with assms have "r = Inr entry" "cache' = cache" "fst (getMergeStyle env g []) = Inr entry"
    by (auto simp: getMergeStyle_def cache_sound_def)
  with assms show ?thesis by (auto simp: getMergeStyle_def Let_def)
next
  case None
  note f = getMergeStyle_fresh [OF None, of env]
  from f assms(2) have r: "r = fst (getMergeStyle env g [])"
    and c: "cache' = (case r of Inl e \<Rightarrow> cache | Inr entry \<Rightarrow> AList.update g entry cache)"
    by simp_all
  have "cache_sound env cache'"
    using c r assms(1) by (auto simp: cache_sound_def split: sum.splits)
  moreover have "ae_clientgo_new env g = NotRegistered \<or> gvk_kind g = ''CustomResourceDefinition'' \<longrightarrow>
       r = Inr \<lparr>pce_patchType = MergePatchType, pce_lookup = []\<rparr>"
    unfolding r by (auto simp: getMergeStyle_def Let_def)
  ultimately show ?thesis using r c by simp
qed

lemma getMergeStyle_cached_witness:
  "cache_sound ex_env (snd (getMergeStyle ex_env ex_gvk []))"
  using getMergeStyle_cached [OF cache_sound_Nil [of ex_env], of ex_gvk]
  by (metis prod.collapse)

section \<open>Updates\<close>

text \<open>An update that changes nothing sends nothing. When the generated patch is empty, or
  cleaning leaves nothing but bookkeeping, \<open>applyPatch\<close> reports that nothing was done, without an
  error, and makes no request: the world is untouched, whatever reconcilers are registered.\<close>

theorem applyPatch_quiet:
  assumes "originalAndModified env g old new = Inr (original, modified)"
    and "ae_marshal env old = Inr current"
    and "createPatch env g original modified current (as_patchCache st) = (Inr (ty, patch), cache)"
    and "patch = ''{}'' \<or> sanitizePatch (ae_codec env) (ae_nested env) patch False = Inr ''{}''"
  shows "applyPatch env a cl g old new st = ((False, None), new, st\<lparr>as_patchCache := cache\<rparr>)"
  using assms by (auto simp: applyPatch_def Let_def)

lemma applyPatch_quiet_witness:
  "applyPatch ex_env ex_cfg ex_client ex_gvk (ex_obj ''ns'' ''a'') (ex_obj ''ns'' ''a'')
     \<lparr>as_world = \<lparr>ew_store = [], ew_deleted = []\<rparr>, as_patchCache = []\<rparr> =
   ((False, None), ex_obj ''ns'' ''a'', \<lparr>as_world = \<lparr>ew_store = [], ew_deleted = []\<rparr>,
      as_patchCache = [(ex_gvk, \<lparr>pce_patchType = MergePatchType, pce_lookup = []\<rparr>)]\<rparr>)"
proof -
  let ?o = "ex_obj ''ns'' ''a''"
  let ?st = "\<lparr>as_world = \<lparr>ew_store = [], ew_deleted = []\<rparr>, as_patchCache = []\<rparr> :: ex_world apply_state"
  have om: "originalAndModified ex_env ex_gvk ?o ?o = Inr (''{}'', ''{a'')"
    by (simp add: originalAndModified_def getOriginalBytes_def getOriginalObject_def
        prepareObjectForCreate_def serializeApplied_def ToMapInterface_def appliedFromAnnotation_def
        ex_defs gm_str_def)
  have cur: "ae_marshal ex_env ?o = Inr ''{a''"
    by (simp add: ex_defs)
  have cp: "createPatch ex_env ex_gvk ''{}'' ''{a'' ''{a'' (as_patchCache ?st) =
      (Inr (MergePatchType, ''{}''), [(ex_gvk, \<lparr>pce_patchType = MergePatchType, pce_lookup = []\<rparr>)])"
    by (simp add: createPatch_def getMergeStyle_def ex_env_def Let_def)
  from applyPatch_quiet [OF om cur cp] show ?thesis by simp
qed

text \<open>Immutable fields lead to a replacement, not to a failed patch. When the reconciler of a
  kind answers "replace", the update step makes no request of its own and schedules the object
  for deletion and creation exactly when the wanted object asks for it with the update annotation
  or the existing object opts out of neither pruning nor creation; it is not an error either way.\<close>

theorem updateF_replace:
  assumes "map_of (ps_existing ps) k = Some existing" and "map_of (ps_objs ps) k = Some desired"
    and "compareObjects env a cl g existing desired (ps_st ps) = (Some ErrReplace, obj, st)"
  shows "updateF env a cl debug g k ps =
    (None, ps\<lparr>ps_st := st, ps_objs := AList.update k obj (ps_objs ps),
       ps_toReplace := ps_toReplace ps @
         (if gm_str (k_annotations obj) AnnotationUpdate = ''true'' \<or>
             gm_str (k_annotations existing) AnnotationPrune \<noteq> ''false'' \<and>
             gm_str (k_annotations existing) AnnotationCreate \<noteq> ''false'' then [k] else [])\<rparr>)"
  using assms by (simp add: updateF_def should_def Let_def)

definition ex_replace_env :: apply_env where
  "ex_replace_env = ex_env\<lparr>ae_marshal := (\<lambda>ob. Inl ErrReplace)\<rparr>"

lemma updateF_replace_witness:
  "ps_toReplace (snd (updateF ex_replace_env ex_cfg ex_client ''d'' ex_gvk (object_key ex_owner)
     \<lparr>ps_st = \<lparr>as_world = \<lparr>ew_store = [], ew_deleted = []\<rparr>, as_patchCache = []\<rparr>,
      ps_objs = [(object_key ex_owner, ex_owner)], ps_existing = [(object_key ex_owner, ex_owner)],
      ps_toUpdate = [], ps_toReplace = []\<rparr>)) = [object_key ex_owner]"
proof -
  let ?st = "\<lparr>as_world = \<lparr>ew_store = [], ew_deleted = []\<rparr>, as_patchCache = []\<rparr> :: ex_world apply_state"
  have "originalAndModified ex_replace_env ex_gvk ex_owner ex_owner = Inl ErrReplace"
    by (simp add: originalAndModified_def getOriginalBytes_def getOriginalObject_def
        prepareObjectForCreate_def serializeApplied_def ToMapInterface_def appliedFromAnnotation_def
        ex_replace_env_def ex_defs gm_str_def)
  then have c: "compareObjects ex_replace_env ex_cfg ex_client ex_gvk ex_owner ex_owner ?st =
      (Some ErrReplace, ex_owner, ?st)"
    by (simp add: compareObjects_def applyPatch_def)
  let ?ps = "\<lparr>ps_st = ?st, ps_objs = [(object_key ex_owner, ex_owner)],
      ps_existing = [(object_key ex_owner, ex_owner)], ps_toUpdate = [], ps_toReplace = []\<rparr>"
  have e: "map_of (ps_existing ?ps) (object_key ex_owner) = Some ex_owner"
    "map_of (ps_objs ?ps) (object_key ex_owner) = Some ex_owner" by simp_all
  from c have "compareObjects ex_replace_env ex_cfg ex_client ex_gvk ex_owner ex_owner (ps_st ?ps) =
      (Some ErrReplace, ex_owner, ?st)" by simp
  from updateF_replace [OF e this, of "''d''"] show ?thesis
    by (simp add: gm_str_def ex_owner_def ex_obj_def zero_object_def)
qed

end
