(* ===== verification/MultiClients.thy ===== *)
theory MultiClients
  imports Handlers
begin

text \<open>
  Clients and caches per API group: pkg/runtime/multi.

  A multi client passes each request to the client of the group of the object, or to the default
  client. It is a client itself, so what is built here is a \<open>kclient\<close>. The client a
  \<open>clientWithFakeWatch\<close> wraps may be nil; calling it then is the panic \<^const>\<open>NilDereference\<close>.
\<close>

section \<open>Choosing the client\<close>

datatype 'w watch_client = FakeWatch "'w kclient option" | WithWatch "'w kclient"

record 'w multiClient =
  mc_default :: "'w watch_client option"
  mc_clients :: "(gostring, 'w watch_client) gomap"

definition NewWithWatch ::
  "'w watch_client option \<Rightarrow> (gostring, 'w watch_client) gomap \<Rightarrow> 'w multiClient" where
  "NewWithWatch d cs = \<lparr>mc_default = d, mc_clients = cs\<rparr>"

definition NewClient :: "'w kclient option \<Rightarrow> (gostring, 'w kclient option) gomap \<Rightarrow> 'w multiClient" where
  "NewClient d cs = NewWithWatch (Some (FakeWatch d)) (map (\<lambda>(g, c). (g, FakeWatch c)) cs)"

definition getClientForGroup :: "'w multiClient \<Rightarrow> gostring \<Rightarrow> err + 'w watch_client" where
  "getClientForGroup m grp =
     (case map_of (mc_clients m) grp of
        Some c \<Rightarrow> Inr c
      | None \<Rightarrow> (case mc_default m of Some d \<Rightarrow> Inr d | None \<Rightarrow> Inl (ClientNotFoundError grp)))"

text \<open>\<open>getClient\<close>; the kind is that of the object in the holder.\<close>

definition getClient :: "kscheme \<Rightarrow> 'w multiClient \<Rightarrow> kobject \<Rightarrow> err + 'w watch_client" where
  "getClient sch m ob =
     (case gvk_for sch ob of Inl e \<Rightarrow> Inl e | Inr g \<Rightarrow> getClientForGroup m (gvk_group g))"

fun wrapped :: "'w watch_client \<Rightarrow> 'w kclient option" where
  "wrapped (FakeWatch c) = c"
| "wrapped (WithWatch c) = Some c"

text \<open>
  What a request is sent to: a client, or the error of the choice.
\<close>

definition chosen :: "err + 'w watch_client \<Rightarrow> err + 'w kclient" where
  "chosen r = (case r of Inl e \<Rightarrow> Inl e | Inr c \<Rightarrow> (case wrapped c of None \<Rightarrow> Inl NilDereference | Some k \<Rightarrow> Inr k))"

section \<open>The operations\<close>

definition mc_Get ::
  "kscheme \<Rightarrow> 'w multiClient \<Rightarrow> kobject \<Rightarrow> gostring \<Rightarrow> gostring \<Rightarrow> 'w \<Rightarrow> (err + kobject) \<times> 'w" where
  "mc_Get sch m ob ns name w =
     (case chosen (getClient sch m ob) of Inl e \<Rightarrow> (Inl e, w) | Inr c \<Rightarrow> cl_get c ob ns name w)"

text \<open>The group of a list is the group of its kind.\<close>

definition mc_List ::
  "'w multiClient \<Rightarrow> gvk \<Rightarrow> gostring \<Rightarrow> label_selector option \<Rightarrow> 'w \<Rightarrow> (err + kobject list) \<times> 'w" where
  "mc_List m g ns sel w =
     (case chosen (getClientForGroup m (gvk_group g)) of Inl e \<Rightarrow> (Inl e, w) | Inr c \<Rightarrow> cl_list c g ns sel w)"

definition mc_write ::
  "('w kclient \<Rightarrow> kobject \<Rightarrow> 'w kwrite) \<Rightarrow> kscheme \<Rightarrow> 'w multiClient \<Rightarrow> kobject \<Rightarrow> 'w kwrite" where
  "mc_write op sch m ob w =
     (case chosen (getClient sch m ob) of Inl e \<Rightarrow> ((Some e, ob), w) | Inr c \<Rightarrow> op c ob w)"

definition mc_Create :: "kscheme \<Rightarrow> 'w multiClient \<Rightarrow> kobject \<Rightarrow> 'w kwrite" where
  "mc_Create = mc_write cl_create"

definition mc_Update :: "kscheme \<Rightarrow> 'w multiClient \<Rightarrow> kobject \<Rightarrow> 'w kwrite" where
  "mc_Update = mc_write cl_update"

definition mc_Patch :: "kscheme \<Rightarrow> 'w multiClient \<Rightarrow> kobject \<Rightarrow> patch_type \<Rightarrow> gostring \<Rightarrow> 'w kwrite" where
  "mc_Patch sch m ob ty patch = mc_write (\<lambda>c ob. cl_patch c ob ty patch) sch m ob"

definition mc_status_Update :: "kscheme \<Rightarrow> 'w multiClient \<Rightarrow> kobject \<Rightarrow> 'w kwrite" where
  "mc_status_Update = mc_write cl_status_update"

definition mc_Delete :: "kscheme \<Rightarrow> 'w multiClient \<Rightarrow> kobject \<Rightarrow> 'w \<Rightarrow> err option \<times> 'w" where
  "mc_Delete sch m ob w =
     (case chosen (getClient sch m ob) of Inl e \<Rightarrow> (Some e, w) | Inr c \<Rightarrow> cl_delete c ob w)"

text \<open>
  The operations that are not part of \<open>kclient\<close>, each given as the operation of the client:
  \<open>DeleteAllOf\<close>, \<open>IsObjectNamespaced\<close>, and those on a status or another subresource.
\<close>

definition mc_request ::
  "('w kclient \<Rightarrow> kobject \<Rightarrow> 'w \<Rightarrow> (err + 'r) \<times> 'w) \<Rightarrow> kscheme \<Rightarrow> 'w multiClient \<Rightarrow> kobject \<Rightarrow> 'w \<Rightarrow> (err + 'r) \<times> 'w" where
  "mc_request op sch m ob w =
     (case chosen (getClient sch m ob) of Inl e \<Rightarrow> (Inl e, w) | Inr c \<Rightarrow> op c ob w)"

definition mc_subresource ::
  "('w kclient \<Rightarrow> gostring \<Rightarrow> kobject \<Rightarrow> 'w \<Rightarrow> (err + 'r) \<times> 'w) \<Rightarrow> gostring \<Rightarrow> kscheme \<Rightarrow> 'w multiClient \<Rightarrow> kobject \<Rightarrow>
     'w \<Rightarrow> (err + 'r) \<times> 'w" where
  "mc_subresource op subResource sch m ob w =
     (case chosen (getClient sch m ob) of Inl e \<Rightarrow> (Inl e, w) | Inr c \<Rightarrow> op c subResource ob w)"

definition multi_kclient :: "kscheme \<Rightarrow> 'w multiClient \<Rightarrow> 'w kclient" where
  "multi_kclient sch m =
     \<lparr>cl_get = mc_Get sch m, cl_list = mc_List m, cl_create = mc_Create sch m, cl_update = mc_Update sch m,
      cl_status_update = mc_status_Update sch m, cl_delete = mc_Delete sch m, cl_patch = mc_Patch sch m\<rparr>"

section \<open>The REST mapper\<close>

text \<open>
  The mappers of the clients: \<open>rm_by_group\<close> stands for every operation that is passed on by the
  group of its argument (\<open>KindFor\<close>, \<open>KindsFor\<close>, \<open>ResourceFor\<close>, \<open>ResourcesFor\<close>, \<open>RESTMapping\<close> and
  \<open>RESTMappings\<close>). A resource is made singular by the first client that can, in any order, and by
  the default client otherwise.
\<close>

definition rm_by_group ::
  "('w kclient \<Rightarrow> 'q \<Rightarrow> err + 'r) \<Rightarrow> 'w multiClient \<Rightarrow> gostring \<Rightarrow> 'q \<Rightarrow> err + 'r" where
  "rm_by_group op m grp q =
     (case chosen (getClientForGroup m grp) of Inl e \<Rightarrow> Inl e | Inr c \<Rightarrow> op c q)"

definition singularize :: "('w kclient \<Rightarrow> gostring \<Rightarrow> err + gostring) \<Rightarrow> gostring \<Rightarrow> 'w watch_client \<Rightarrow> err + gostring" where
  "singularize op res c = (case wrapped c of None \<Rightarrow> Inl NilDereference | Some k \<Rightarrow> op k res)"

fun ResourceSingularizer_each ::
  "('w kclient \<Rightarrow> gostring \<Rightarrow> err + gostring) \<Rightarrow> gostring \<Rightarrow> 'w watch_client list \<Rightarrow> gostring option" where
  "ResourceSingularizer_each op res [] = None"
| "ResourceSingularizer_each op res (c # cs) =
     (case singularize op res c of Inr r \<Rightarrow> Some r | Inl e \<Rightarrow> ResourceSingularizer_each op res cs)"

definition ResourceSingularizer ::
  "('w kclient \<Rightarrow> gostring \<Rightarrow> err + gostring) \<Rightarrow> 'w multiClient \<Rightarrow> gostring \<Rightarrow> err + gostring" where
  "ResourceSingularizer op m res =
     (case ResourceSingularizer_each op res (map snd (mc_clients m)) of
        Some r \<Rightarrow> Inr r
      | None \<Rightarrow> (case mc_default m of None \<Rightarrow> Inl NilDereference | Some d \<Rightarrow> singularize op res d))"

section \<open>The multi cache\<close>

text \<open>A cache is whatever answers reads; here it matters which one is asked. \<open>'c\<close> is a cache.\<close>

record 'c multiCache =
  mca_default :: "'c option"
  mca_caches :: "(gostring, 'c) gomap"

definition getCacheForGroup :: "'c multiCache \<Rightarrow> gostring \<Rightarrow> err + 'c" where
  "getCacheForGroup m grp =
     (case map_of (mca_caches m) grp of
        Some c \<Rightarrow> Inr c
      | None \<Rightarrow> (case mca_default m of Some d \<Rightarrow> Inr d | None \<Rightarrow> Inl (CacheNotFoundError grp)))"

definition getCache :: "kscheme \<Rightarrow> 'c multiCache \<Rightarrow> kobject \<Rightarrow> err + 'c" where
  "getCache sch m ob = (case gvk_for sch ob of Inl e \<Rightarrow> Inl e | Inr g \<Rightarrow> getCacheForGroup m (gvk_group g))"

definition mca_request :: "kscheme \<Rightarrow> ('c \<Rightarrow> 'w \<Rightarrow> (err + 'r) \<times> 'w) \<Rightarrow> 'c multiCache \<Rightarrow> kobject \<Rightarrow> 'w \<Rightarrow> (err + 'r) \<times> 'w" where
  "mca_request sch op m ob w = (case getCache sch m ob of Inl e \<Rightarrow> (Inl e, w) | Inr c \<Rightarrow> op c w)"

definition GetInformerForKind ::
  "('c \<Rightarrow> gvk \<Rightarrow> err + 'i) \<Rightarrow> 'c multiCache \<Rightarrow> gvk \<Rightarrow> err + 'i" where
  "GetInformerForKind op m g = (case getCacheForGroup m (gvk_group g) of Inl e \<Rightarrow> Inl e | Inr c \<Rightarrow> op c g)"

text \<open>
  \<open>WaitForCacheSync\<close>: the default cache, then the others in any order, up to the first that does
  not sync. \<open>synced c\<close> is the answer of a cache; the answer has the caches that were asked.
\<close>

fun wait_each :: "('c \<Rightarrow> bool) \<Rightarrow> 'c list \<Rightarrow> bool \<times> 'c list" where
  "wait_each synced [] = (True, [])"
| "wait_each synced (c # cs) =
     (if \<not> synced c then (False, [c]) else (case wait_each synced cs of (r, asked) \<Rightarrow> (r, c # asked)))"

definition mca_WaitForCacheSync :: "('c \<Rightarrow> bool) \<Rightarrow> 'c \<Rightarrow> 'c multiCache \<Rightarrow> bool \<times> 'c list" where
  "mca_WaitForCacheSync synced d m = wait_each synced (d # map snd (mca_caches m))"

section \<open>Properties\<close>

text \<open>
  Both tables are the same interface: a client per group with a fallback. Its laws are proved once.
\<close>

locale group_table =
  fixes pick :: "'t \<Rightarrow> gostring \<Rightarrow> err + 'c"
    and entry :: "'t \<Rightarrow> gostring \<Rightarrow> 'c option"
    and fallback :: "'t \<Rightarrow> 'c option"
    and missing :: "gostring \<Rightarrow> err"
  assumes pick_entry: "entry t g = Some c \<Longrightarrow> pick t g = Inr c"
    and pick_fallback: "entry t g = None \<Longrightarrow> fallback t = Some d \<Longrightarrow> pick t g = Inr d"
    and pick_missing: "entry t g = None \<Longrightarrow> fallback t = None \<Longrightarrow> pick t g = Inl (missing g)"
begin

lemma pick_total: "fallback t = Some d \<Longrightarrow> \<exists>c. pick t g = Inr c"
  by (cases "entry t g") (auto simp: pick_entry pick_fallback)

lemma pick_error: "pick t g = Inl e \<longleftrightarrow> entry t g = None \<and> fallback t = None \<and> e = missing g"
  by (cases "entry t g"; cases "fallback t") (auto simp: pick_entry pick_fallback pick_missing)

lemma pick_local: "entry t g = entry t' g \<Longrightarrow> fallback t = fallback t' \<Longrightarrow> pick t g = pick t' g"
  by (cases "entry t' g"; cases "fallback t'") (auto simp: pick_entry pick_fallback pick_missing)

end

interpretation clients: group_table getClientForGroup "\<lambda>m. map_of (mc_clients m)" mc_default ClientNotFoundError
  by unfold_locales (auto simp: getClientForGroup_def)

interpretation caches: group_table getCacheForGroup "\<lambda>m. map_of (mca_caches m)" mca_default CacheNotFoundError
  by unfold_locales (auto simp: getCacheForGroup_def)

lemmas mc_defs = multi_kclient_def mc_Get_def mc_List_def mc_Create_def mc_Update_def mc_Patch_def
  mc_status_Update_def mc_Delete_def mc_write_def

text \<open>Requests go to the client of their group. When the kind of an object is known and its
  group has a client, every request of the multi client for the object is that request of that
  client: the same answer and the same effect. Adding, removing or replacing the clients of
  other groups changes nothing for it.\<close>

theorem multi_client_routes:
  assumes "gvk_for sch ob = Inr g" and "map_of (mc_clients m) (gvk_group g) = Some c" and "wrapped c = Some k"
    and "map_of cs' (gvk_group g) = Some c"
  shows "cl_get (multi_kclient sch m) ob = cl_get k ob \<and> cl_create (multi_kclient sch m) ob = cl_create k ob \<and>
    cl_update (multi_kclient sch m) ob = cl_update k ob \<and> cl_patch (multi_kclient sch m) ob = cl_patch k ob \<and>
    cl_status_update (multi_kclient sch m) ob = cl_status_update k ob \<and>
    cl_delete (multi_kclient sch m) ob = cl_delete k ob \<and> cl_list (multi_kclient sch m) g = cl_list k g \<and>
    getClient sch (m\<lparr>mc_clients := cs'\<rparr>) ob = getClient sch m ob"
proof -
  have p: "getClientForGroup m (gvk_group g) = Inr c"
    by (rule clients.pick_entry [OF assms(2)])
  have p': "getClientForGroup (m\<lparr>mc_clients := cs'\<rparr>) (gvk_group g) = Inr c"
    by (rule clients.pick_entry) (simp add: assms(4))
  have c: "chosen (getClient sch m ob) = Inr k" "chosen (getClientForGroup m (gvk_group g)) = Inr k"
    by (simp_all add: chosen_def getClient_def assms(1,3) p)
  have "getClient sch (m\<lparr>mc_clients := cs'\<rparr>) ob = getClient sch m ob"
    by (simp add: getClient_def assms(1) p p')
  then show ?thesis
    by (simp add: mc_defs c fun_eq_iff)
qed

text \<open>A missing default client is a panic, not an error. The documentation of \<open>NewClient\<close>
  promises an error where neither a client of the group nor a default exists; but the default
  it is given is wrapped before the test for nil, so the choice never fails, and a request
  without a client of its group calls a nil client. \<open>NewWithWatch\<close> does answer the error.\<close>

theorem NewClient_never_not_found:
  assumes "map_of cs grp = None"
  shows "(\<exists>c. getClientForGroup (NewClient d cs) grp = Inr c) \<and>
    chosen (getClientForGroup (NewClient None cs) grp) = Inl NilDereference \<and>
    chosen (getClientForGroup (NewWithWatch None (map (\<lambda>(g, c). (g, FakeWatch c)) cs)) grp) =
      Inl (ClientNotFoundError grp)"
proof -
  have "\<exists>c. getClientForGroup (NewClient d cs) grp = Inr c"
    by (rule clients.pick_total [where d = "FakeWatch d"]) (simp add: NewClient_def NewWithWatch_def)
  moreover have "map_of (map (\<lambda>(g, c). (g, FakeWatch c)) cs) grp = None"
    using assms by (force simp: map_of_eq_None_iff)
  ultimately show ?thesis
    by (simp add: NewClient_def NewWithWatch_def getClientForGroup_def chosen_def)
qed

lemma NewClient_never_not_found_witness:
  "chosen (getClientForGroup (NewClient None []) ''apps'') = (Inl NilDereference :: err + nat kclient)"
  using NewClient_never_not_found [where cs = "[]" and grp = "''apps''" and d = "None :: nat kclient option"] by simp

text \<open>Two clients that write their name into the world.\<close>

definition named_client :: "gostring \<Rightarrow> gostring list kclient" where
  "named_client n =
     \<lparr>cl_get = (\<lambda>ob ns nm w. (Inr ob, w @ [n])), cl_list = (\<lambda>g ns sel w. (Inr [], w @ [n])),
      cl_create = (\<lambda>ob w. ((None, ob), w @ [n])), cl_update = (\<lambda>ob w. ((None, ob), w @ [n])),
      cl_status_update = (\<lambda>ob w. ((None, ob), w @ [n])), cl_delete = (\<lambda>ob w. (None, w @ [n])),
      cl_patch = (\<lambda>ob ty p w. ((None, ob), w @ [n]))\<rparr>"

definition own_scheme :: kscheme where
  "own_scheme = \<lparr>gvk_for = (\<lambda>ob. Inr (k_gvk ob)), gvk_String = gvk_kind, gv_String = gvk_group,
     rest_scope = (\<lambda>_. Inr NamespaceScope), scheme_new = (\<lambda>_. NotRegistered)\<rparr>"

lemma multi_client_routes_witness:
  "snd (cl_delete (multi_kclient own_scheme (NewClient (Some (named_client ''core''))
        [(''apps'', Some (named_client ''apps''))])) (zero_object ''t'' (GVK ''apps'' ''v1'' ''Deployment'')) []) =
     [''apps'']"
  using multi_client_routes [where sch = own_scheme and ob = "zero_object ''t'' (GVK ''apps'' ''v1'' ''Deployment'')" and
      g = "GVK ''apps'' ''v1'' ''Deployment''" and c = "FakeWatch (Some (named_client ''apps''))" and
      k = "named_client ''apps''" and
      m = "NewClient (Some (named_client ''core'')) [(''apps'', Some (named_client ''apps''))]" and
      cs' = "[(''apps'', FakeWatch (Some (named_client ''apps'')))]"]
  by (simp add: own_scheme_def zero_object_def NewClient_def NewWithWatch_def named_client_def)

lemma wait_each_all: "fst (wait_each synced cs) \<longleftrightarrow> list_all synced cs"
  by (induction cs) (auto split: prod.split)

lemma singularize_first:
  "ResourceSingularizer_each op res cs = Some r \<Longrightarrow> \<exists>c \<in> set cs. singularize op res c = Inr r"
  by (induction cs) (auto split: sum.splits)

end
