(* ===== verification/Watcher.thy ===== *)
theory Watcher
  imports Kube
begin

text \<open>
  Waiting for a condition on objects: pkg/watcher/watcher.go.

  A watch is a channel of events that the server may close at any time. What \<open>select\<close> yields is a
  list of polls: an event, the closed channel, or the end of the context. \<open>retryWatch\<close> watches
  again until the callback is done, so it need not end; its loop is a \<open>partial_function\<close> whose value
  \<^const>\<open>None\<close> means that it never returns. A list of polls that ends is a channel on which nothing
  more happens.
\<close>

datatype event =
    Bookmark "kobject option"
  | Deleted kobject
  | Added kobject
  | Modified kobject
  | ErrorEvent err
  | OtherEvent

datatype poll = Event event | Closed | CtxDone err

type_synonym 'w callback = "kobject \<Rightarrow> 'w \<Rightarrow> (bool \<times> err option) \<times> 'w"

text \<open>The results of \<open>doWatch\<close>: \<open>cont\<close>, \<open>lastRevision\<close>, \<open>nonTerminal\<close> and \<open>terminal\<close>.\<close>

record watch_result =
  wr_cont :: bool
  wr_lastRevision :: gostring
  wr_nonTerminal :: "err option"
  wr_terminal :: "err option"

definition outcome :: "bool \<Rightarrow> gostring \<Rightarrow> err option \<Rightarrow> err option \<Rightarrow> watch_result" where
  "outcome c r n t = \<lparr>wr_cont = c, wr_lastRevision = r, wr_nonTerminal = n, wr_terminal = t\<rparr>"

definition next_revision :: "kobject \<Rightarrow> gostring \<Rightarrow> gostring" where
  "next_revision ob r = (if k_resourceVersion ob \<noteq> [] then k_resourceVersion ob else r)"

text \<open>A deleted object is shown to the callback as deleted and without finalizers.\<close>

definition as_deleted :: "nat \<Rightarrow> kobject \<Rightarrow> kobject" where
  "as_deleted now ob =
     (let ob1 = (if k_deletionTimestamp ob = None then ob\<lparr>k_deletionTimestamp := Some now\<rparr> else ob)
      in if length (k_finalizers ob1) > 0 then ob1\<lparr>k_finalizers := []\<rparr> else ob1)"

text \<open>One object: the callback, and whether the watch ends with it.\<close>

definition deliver ::
  "'w callback \<Rightarrow> kobject \<Rightarrow> gostring \<Rightarrow> 'w \<Rightarrow> (watch_result + gostring) \<times> 'w" where
  "deliver cb ob r w =
     (case cb ob w of
        ((done, e), w1) \<Rightarrow>
          (if reason_is Conflict e then Inl (outcome False r e None)
           else if e \<noteq> None then Inl (outcome False r None e)
           else if done then Inl (outcome True r None None)
           else Inr (next_revision ob r), w1))"

definition poll_step ::
  "'w callback \<Rightarrow> nat \<Rightarrow> poll \<Rightarrow> gostring \<Rightarrow> 'w \<Rightarrow> (watch_result + gostring) \<times> 'w" where
  "poll_step cb now p r w =
     (case p of
        CtxDone e \<Rightarrow> (Inl (outcome False r None (Some (Wrap ''terminating watch: '' e))), w)
      | Closed \<Rightarrow> (Inl (outcome False r None None), w)
      | Event ev \<Rightarrow>
        (case ev of
           Bookmark None \<Rightarrow> (Inr r, w)
         | Bookmark (Some ob) \<Rightarrow> (Inr (next_revision ob r), w)
         | Deleted ob \<Rightarrow> deliver cb (as_deleted now ob) r w
         | Added ob \<Rightarrow> deliver cb ob r w
         | Modified ob \<Rightarrow> deliver cb ob r w
         | ErrorEvent e \<Rightarrow> (Inl (outcome False r None (Some e)), w)
         | OtherEvent \<Rightarrow> (Inr r, w)))"

fun watch_loop ::
  "'w callback \<Rightarrow> nat \<Rightarrow> poll list \<Rightarrow> gostring \<Rightarrow> 'w \<Rightarrow> (watch_result \<times> 'w) option" where
  "watch_loop cb now [] r w = None"
| "watch_loop cb now (p # ps) r w =
     (case poll_step cb now p r w of
        (Inl res, w1) \<Rightarrow> Some (res, w1)
      | (Inr r1, w1) \<Rightarrow> watch_loop cb now ps r1 w1)"

definition doWatch ::
  "nat \<Rightarrow> gostring \<Rightarrow> (gostring \<Rightarrow> 'w \<Rightarrow> (err + poll list) \<times> 'w) \<Rightarrow> 'w callback \<Rightarrow> 'w \<Rightarrow> (watch_result \<times> 'w) option" where
  "doWatch now revision watchFunc cb w =
     (case watchFunc revision w of
        (Inl e, w1) \<Rightarrow>
          Some (if IsGone (Some e) then outcome False revision None (Some e)
                else outcome False revision (Some e) None, w1)
      | (Inr polls, w1) \<Rightarrow> watch_loop cb now polls revision w1)"

text \<open>
  \<open>retryWatch\<close>. The state has the last object the callback saw; \<open>pause\<close> is the wait of two seconds,
  which the end of the context cuts short.
\<close>

definition keep_last :: "'w callback \<Rightarrow> (kobject option \<times> 'w) callback" where
  "keep_last cb ob = (\<lambda>(last, w). case cb ob w of (r, w1) \<Rightarrow> (r, (Some ob, w1)))"

definition lift_watch ::
  "(gostring \<Rightarrow> 'w \<Rightarrow> (err + poll list) \<times> 'w) \<Rightarrow> gostring \<Rightarrow> kobject option \<times> 'w \<Rightarrow>
     (err + poll list) \<times> kobject option \<times> 'w" where
  "lift_watch watchFunc r = (\<lambda>(last, w). case watchFunc r w of (x, w1) \<Rightarrow> (x, (last, w1)))"

text \<open>One turn of the loop: the answer of the function, or the revision and the state of the next turn.\<close>

definition after_watch ::
  "gostring \<Rightarrow> ('w \<Rightarrow> err option \<times> 'w) \<Rightarrow> watch_result \<Rightarrow> kobject option \<times> 'w \<Rightarrow>
     (kobject option \<times> err option) \<times> 'w + gostring \<times> kobject option \<times> 'w" where
  "after_watch revision pause res = (\<lambda>(last, w).
     if wr_nonTerminal res = None \<and> wr_terminal res \<noteq> None then Inl ((last, wr_terminal res), w)
     else if wr_nonTerminal res = None \<and> wr_cont res then Inl ((last, None), w)
     else (let revision1 = (if wr_lastRevision res \<noteq> [] then wr_lastRevision res else revision)
           in case pause w of
                (Some e, w1) \<Rightarrow> Inl ((last, Some e), w1)
              | (None, w1) \<Rightarrow> Inr (revision1, (last, w1))))"

definition retry_turn ::
  "nat \<Rightarrow> (gostring \<Rightarrow> 'w \<Rightarrow> (err + poll list) \<times> 'w) \<Rightarrow> ('w \<Rightarrow> err option \<times> 'w) \<Rightarrow> 'w callback \<Rightarrow>
     gostring \<times> kobject option \<times> 'w \<Rightarrow>
     ((kobject option \<times> err option) \<times> 'w + gostring \<times> kobject option \<times> 'w) option" where
  "retry_turn now watchFunc pause cb = (\<lambda>(revision, st).
     map_option (\<lambda>(res, st1). after_watch revision pause res st1)
       (doWatch now revision (lift_watch watchFunc) (keep_last cb) st))"

partial_function (option) retry_loop ::
  "('s \<Rightarrow> ('r + 's) option) \<Rightarrow> 's \<Rightarrow> 'r option" where
  "retry_loop turn s = Option.bind (turn s) (\<lambda>x. case x of Inl r \<Rightarrow> Some r | Inr s1 \<Rightarrow> retry_loop turn s1)"

definition retryWatch ::
  "nat \<Rightarrow> gostring \<Rightarrow> (gostring \<Rightarrow> 'w \<Rightarrow> (err + poll list) \<times> 'w) \<Rightarrow> ('w \<Rightarrow> err option \<times> 'w) \<Rightarrow> 'w callback \<Rightarrow>
     kobject option \<times> 'w \<Rightarrow> ((kobject option \<times> err option) \<times> 'w) option" where
  "retryWatch now revision watchFunc pause cb st = retry_loop (retry_turn now watchFunc pause cb) (revision, st)"

text \<open>
  \<open>bySelector\<close>: the objects that exist are shown to the callback first, all of them unless one
  gives an error; the watch starts at the revision of the list. \<open>list_objs\<close> is the answer of
  \<open>List\<close> with that revision.
\<close>

fun each_item :: "'w callback \<Rightarrow> kobject list \<Rightarrow> kobject option \<Rightarrow> 'w \<Rightarrow> (kobject option \<times> err option) \<times> 'w" where
  "each_item cb [] d w = ((d, None), w)"
| "each_item cb (ob # obs) d w =
     (case cb ob w of
        ((done, e), w1) \<Rightarrow>
          (let d1 = (if done then Some ob else d)
           in if e \<noteq> None then ((d1, e), w1) else each_item cb obs d1 w1))"

definition bySelector ::
  "nat \<Rightarrow> ('w \<Rightarrow> (err + kobject list \<times> gostring) \<times> 'w) \<Rightarrow> (gostring \<Rightarrow> 'w \<Rightarrow> (err + poll list) \<times> 'w) \<Rightarrow>
     ('w \<Rightarrow> err option \<times> 'w) \<Rightarrow> 'w callback \<Rightarrow> 'w \<Rightarrow> ((kobject option \<times> err option) \<times> 'w) option" where
  "bySelector now list_objs watchFunc pause cb w =
     (case list_objs w of
        (Inl e, w1) \<Rightarrow> Some ((None, Some e), w1)
      | (Inr (objs, revision), w1) \<Rightarrow>
        (case each_item cb objs None w1 of
           ((d, e), w2) \<Rightarrow>
             if d \<noteq> None \<or> e \<noteq> None then Some ((d, e), w2)
             else retryWatch now revision watchFunc pause cb (None, w2)))"

text \<open>\<open>newListObj\<close>: the list kind of the type watched.\<close>

definition newListObj :: "kscheme \<Rightarrow> kobject \<Rightarrow> err + gvk" where
  "newListObj sch ob =
     (case gvk_for sch ob of
        Inl e \<Rightarrow> Inl e
      | Inr g \<Rightarrow>
        (let lg = g\<lparr>gvk_kind := gvk_kind g @ ''List''\<rparr>
         in case scheme_new sch lg of
              NotRegistered \<Rightarrow> Inl (Plain ''no kind is registered'')
            | NewFailed e \<Rightarrow> Inl e
            | NewObject _ \<Rightarrow> Inr lg))"

end
