(* ===== verification/WatcherProperties.thy ===== *)
theory WatcherProperties
  imports Watcher
begin

text \<open>
  A watch that is cut and taken up again shows the callback every change once and in order: the
  changes it has accepted are at all times a prefix of the changes the server made.
\<close>

section \<open>A server\<close>

text \<open>
  The changes the server has made since the revision \<open>r0\<close>; each has an object with a revision of
  its own. \<open>since\<close> is what a watch from a revision is about.
\<close>

fun change_obj :: "event \<Rightarrow> kobject option" where
  "change_obj (Added ob) = Some ob"
| "change_obj (Modified ob) = Some ob"
| "change_obj (Deleted ob) = Some ob"
| "change_obj _ = None"

fun shown :: "nat \<Rightarrow> event \<Rightarrow> kobject" where
  "shown now (Added ob) = ob"
| "shown now (Modified ob) = ob"
| "shown now (Deleted ob) = as_deleted now ob"
| "shown now _ = zero_object [] (GVK [] [] [])"

definition change_rev :: "event \<Rightarrow> gostring" where
  "change_rev ev = (case change_obj ev of None \<Rightarrow> [] | Some ob \<Rightarrow> k_resourceVersion ob)"

fun rev_at :: "gostring \<Rightarrow> event list \<Rightarrow> nat \<Rightarrow> gostring" where
  "rev_at r0 log 0 = r0"
| "rev_at r0 log (Suc n) = change_rev (log ! n)"

definition since :: "gostring \<Rightarrow> event list \<Rightarrow> gostring \<Rightarrow> event list" where
  "since r0 log r = (if r = r0 then log else tl (dropWhile (\<lambda>ev. change_rev ev \<noteq> r) log))"

definition good_log :: "gostring \<Rightarrow> event list \<Rightarrow> bool" where
  "good_log r0 log \<longleftrightarrow> (\<forall>ev \<in> set log. change_obj ev \<noteq> None \<and> change_rev ev \<noteq> []) \<and>
     distinct (r0 # map change_rev log)"

lemma dropWhile_nth:
  "n < length log \<Longrightarrow> distinct (map f log) \<Longrightarrow> dropWhile (\<lambda>x. f x \<noteq> f (log ! n)) log = drop n log"
proof (induction log arbitrary: n)
  case (Cons a log)
  show ?case
  proof (cases n)
    case (Suc m)
    with Cons.prems have "f a \<noteq> f (log ! m)" by auto
    with Cons Suc show ?thesis by simp
  qed simp
qed simp

lemma since_rev_at:
  assumes "good_log r0 log" and "p \<le> length log"
  shows "since r0 log (rev_at r0 log p) = drop p log"
proof (cases p)
  case (Suc n)
  from assms Suc have "change_rev (log ! n) \<noteq> r0" by (auto simp: good_log_def)
  with assms Suc show ?thesis
    by (simp add: since_def dropWhile_nth good_log_def tl_drop drop_Suc)
qed (simp add: since_def)

section \<open>One watch\<close>

lemma as_deleted_rev [simp]: "k_resourceVersion (as_deleted now ob) = k_resourceVersion ob"
  by (simp add: as_deleted_def Let_def)

lemma poll_change:
  assumes "change_obj ev \<noteq> None"
  shows "poll_step cb now (Event ev) r w = deliver cb (shown now ev) r w"
  using assms by (cases ev) (simp_all add: poll_step_def)

lemma shown_rev: "change_obj ev \<noteq> None \<Longrightarrow> k_resourceVersion (shown now ev) = change_rev ev"
  by (cases ev) (simp_all add: change_rev_def)

text \<open>
  What an observer of the callback sees: \<open>acc\<close> are the objects it has answered without an error.
\<close>

definition observes :: "('w \<Rightarrow> kobject list) \<Rightarrow> 'w callback \<Rightarrow> bool" where
  "observes acc cb \<longleftrightarrow>
     (\<forall>ob w. acc (snd (cb ob w)) = (if snd (fst (cb ob w)) = None then acc w @ [ob] else acc w))"

definition quiet :: "('w \<Rightarrow> kobject list) \<Rightarrow> ('a \<Rightarrow> 'w \<Rightarrow> 'r \<times> 'w) \<Rightarrow> bool" where
  "quiet acc f \<longleftrightarrow> (\<forall>a w. acc (snd (f a w)) = acc w)"

lemma observes_keep_last: "observes acc cb \<Longrightarrow> observes (\<lambda>st. acc (snd st)) (keep_last cb)"
  by (simp add: observes_def keep_last_def split_beta)

lemma deliver_cases:
  assumes "observes acc cb" and "deliver cb ob r w = (x, w1)"
  obtains (stopped) e res where "fst (cb ob w) = (fst (fst (cb ob w)), Some e)" "x = Inl res" "acc w1 = acc w"
      "wr_lastRevision res = r" "\<not> wr_cont res" "wr_nonTerminal res \<noteq> None \<or> wr_terminal res \<noteq> None"
  | (finished) "fst (cb ob w) = (True, None)" "x = Inl (outcome True r None None)" "acc w1 = acc w @ [ob]"
  | (goes_on) "fst (cb ob w) = (False, None)" "x = Inr (next_revision ob r)" "acc w1 = acc w @ [ob]"
proof -
  obtain fin e where c: "cb ob w = ((fin, e), w1)"
    using assms(2) by (auto simp: deliver_def split: prod.splits)
  have a: "acc w1 = (if e = None then acc w @ [ob] else acc w)"
    using assms(1) c unfolding observes_def by (metis fst_conv snd_conv)
  show thesis
  proof (cases e)
    case None
    with c a assms(2) show ?thesis
      by (cases fin) (auto simp: deliver_def intro: finished goes_on)
  next
    case (Some y)
    with c a assms(2) show ?thesis
      by (intro stopped [where e = y and res = "case x of Inl r \<Rightarrow> r"])
        (auto simp: deliver_def outcome_def split: if_splits)
  qed
qed

lemma watch_loop_prefix:
  assumes "good_log r0 log" and "observes acc cb"
    and "watch_loop cb now (map Event evs @ [Closed]) (rev_at r0 log p) w = Some (res, w')"
    and "drop p log = evs @ later"
  shows "\<exists>m \<le> length evs. acc w' = acc w @ map (shown now) (take m evs) \<and>
    (if wr_cont res then m > 0 \<and> wr_nonTerminal res = None \<and> wr_terminal res = None
     else wr_lastRevision res = rev_at r0 log (p + m))"
  using assms(3,4)
proof (induction evs arbitrary: p w)
  case Nil
  then show ?case by (auto simp: poll_step_def outcome_def)
next
  case (Cons ev evs)
  have len: "p < length log"
    using Cons.prems(2) by (cases "p < length log") auto
  with Cons.prems(2) have ev: "log ! p = ev" and tail: "drop (Suc p) log = evs @ later"
    by (simp_all add: Cons_nth_drop_Suc [symmetric])
  from len ev assms(1) have ok: "change_obj ev \<noteq> None" "change_rev ev \<noteq> []"
    by (auto simp: good_log_def dest: nth_mem)
  obtain x w1 where d: "deliver cb (shown now ev) (rev_at r0 log p) w = (x, w1)" by fastforce
  have step: "(case x of Inl res \<Rightarrow> Some (res, w1)
      | Inr r1 \<Rightarrow> watch_loop cb now (map Event evs @ [Closed]) r1 w1) = Some (res, w')"
    using Cons.prems(1) d by (simp add: poll_change [OF ok(1)])
  from assms(2) d show ?case
  proof (cases rule: deliver_cases)
    case stopped
    with step show ?thesis by (intro exI [of _ 0]) auto
  next
    case finished
    with step show ?thesis by (intro exI [of _ 1]) (auto simp: outcome_def)
  next
    case goes_on
    have "next_revision (shown now ev) (rev_at r0 log p) = rev_at r0 log (Suc p)"
      using ok shown_rev [OF ok(1)] by (simp add: next_revision_def ev)
    with goes_on(2) step
    have "watch_loop cb now (map Event evs @ [Closed]) (rev_at r0 log (Suc p)) w1 = Some (res, w')" by simp
    from Cons.IH [OF this tail] goes_on(3) obtain m where
      "m \<le> length evs" "acc w' = acc w @ map (shown now) (take (Suc m) (ev # evs))"
      "if wr_cont res then m > 0 \<and> wr_nonTerminal res = None \<and> wr_terminal res = None
       else wr_lastRevision res = rev_at r0 log (Suc p + m)" by auto
    then show ?thesis by (intro exI [of _ "Suc m"]) (auto split: if_splits)
  qed
qed

section \<open>Watching again\<close>

text \<open>
  The server answers a watch from a revision with some of the changes since it and closes the
  channel; neither it nor the pause between two watches is seen by the callback's observer.
\<close>

definition serves :: "('w \<Rightarrow> kobject list) \<Rightarrow> gostring \<Rightarrow> event list \<Rightarrow> (gostring \<Rightarrow> 'w \<Rightarrow> (err + poll list) \<times> 'w) \<Rightarrow> bool" where
  "serves acc r0 log watchFunc \<longleftrightarrow> quiet acc watchFunc \<and>
     (\<forall>r w. case fst (watchFunc r w) of
        Inl e \<Rightarrow> True
      | Inr polls \<Rightarrow> \<exists>n. polls = map Event (take n (since r0 log r)) @ [Closed])"

definition pauses :: "('w \<Rightarrow> kobject list) \<Rightarrow> ('w \<Rightarrow> err option \<times> 'w) \<Rightarrow> bool" where
  "pauses acc pause \<longleftrightarrow> (\<forall>w. acc (snd (pause w)) = acc w)"

lemma doWatch_prefix:
  assumes "good_log r0 log" and "observes acc cb" and "serves acc r0 log watchFunc" and "p \<le> length log"
    and "doWatch now (rev_at r0 log p) (lift_watch watchFunc) (keep_last cb) (l0, w) = Some (res, (l1, w'))"
  shows "\<exists>m. p + m \<le> length log \<and> acc w' = acc w @ map (shown now) (take m (drop p log)) \<and>
    (if wr_cont res then m > 0 \<and> wr_nonTerminal res = None \<and> wr_terminal res = None
     else wr_lastRevision res = rev_at r0 log (p + m))"
proof -
  obtain x w1 where x: "watchFunc (rev_at r0 log p) w = (x, w1)" by fastforce
  have q: "acc w1 = acc w"
    using assms(3) x unfolding serves_def quiet_def by (metis snd_conv)
  show ?thesis
  proof (cases x)
    case (Inl e)
    with assms(4,5) x q show ?thesis
      by (intro exI [of _ 0]) (auto simp: doWatch_def lift_watch_def outcome_def split: if_splits)
  next
    case (Inr polls)
    from assms(3) x Inr obtain n where "polls = map Event (take n (since r0 log (rev_at r0 log p))) @ [Closed]"
      unfolding serves_def by (elim conjE allE [where x = "rev_at r0 log p"] allE [where x = w]) auto
    then have polls: "polls = map Event (take n (drop p log)) @ [Closed]"
      by (simp add: since_rev_at assms(1,4))
    have "watch_loop (keep_last cb) now (map Event (take n (drop p log)) @ [Closed]) (rev_at r0 log p) (l0, w1) =
        Some (res, (l1, w'))"
      using assms(5) x Inr polls by (simp add: doWatch_def lift_watch_def)
    note pre = watch_loop_prefix [OF assms(1) observes_keep_last [OF assms(2)] this
        append_take_drop_id [of n "drop p log", symmetric]]
    from pre obtain m where m: "m \<le> length (take n (drop p log))"
      "acc w' = acc w1 @ map (shown now) (take m (take n (drop p log)))"
      "if wr_cont res then m > 0 \<and> wr_nonTerminal res = None \<and> wr_terminal res = None
       else wr_lastRevision res = rev_at r0 log (p + m)" by (elim exE conjE) simp
    from m(1) assms(4) have "m \<le> n" and "p + m \<le> length log" by auto
    with m(2,3) q show ?thesis by (intro exI [of _ m]) (simp add: min_def)
  qed
qed

lemma rev_at_nonempty: "good_log r0 log \<Longrightarrow> 0 < n \<Longrightarrow> n \<le> length log \<Longrightarrow> rev_at r0 log n \<noteq> []"
  by (cases n) (auto simp: good_log_def)

text \<open>Rules for the loop: an invariant, and a measure that makes it return.\<close>

lemma retry_loop_step:
  "turn s = Some (Inl r) \<Longrightarrow> retry_loop turn s = Some r"
  "turn s = Some (Inr s1) \<Longrightarrow> retry_loop turn s = retry_loop turn s1"
  by (simp_all add: retry_loop.simps [of turn s])

lemma retry_loop_rule:
  fixes turn :: "'s \<Rightarrow> ('r + 's) option"
  assumes "retry_loop turn s = Some y" and "I s"
    and "\<And>s s1. I s \<Longrightarrow> turn s = Some (Inr s1) \<Longrightarrow> I s1" and "\<And>s r. I s \<Longrightarrow> turn s = Some (Inl r) \<Longrightarrow> Q r"
  shows "Q y"
proof -
  have "(\<forall>s s1. I s \<longrightarrow> turn s = Some (Inr s1) \<longrightarrow> I s1) \<longrightarrow> (\<forall>s r. I s \<longrightarrow> turn s = Some (Inl r) \<longrightarrow> Q r) \<longrightarrow>
      I s \<longrightarrow> Q y"
  proof (rule retry_loop.raw_induct [OF _ assms(1)])
    fix loop :: "('s \<Rightarrow> ('r + 's) option) \<Rightarrow> 's \<Rightarrow> 'r option" and turn s y
    assume ih: "\<And>turn s y. loop turn s = Some y \<Longrightarrow>
        (\<forall>s s1. I s \<longrightarrow> turn s = Some (Inr s1) \<longrightarrow> I s1) \<longrightarrow> (\<forall>s r. I s \<longrightarrow> turn s = Some (Inl r) \<longrightarrow> Q r) \<longrightarrow>
        I s \<longrightarrow> Q y"
      and eq: "Option.bind (turn s) (\<lambda>x. case x of Inl r \<Rightarrow> Some r | Inr s1 \<Rightarrow> loop turn s1) = Some y"
    from eq obtain x where x: "turn s = Some x" "(case x of Inl r \<Rightarrow> Some r | Inr s1 \<Rightarrow> loop turn s1) = Some y"
      by (cases "turn s") auto
    show "(\<forall>s s1. I s \<longrightarrow> turn s = Some (Inr s1) \<longrightarrow> I s1) \<longrightarrow> (\<forall>s r. I s \<longrightarrow> turn s = Some (Inl r) \<longrightarrow> Q r) \<longrightarrow>
        I s \<longrightarrow> Q y"
    proof (cases x)
      case (Inl r)
      with x show ?thesis by auto
    next
      case (Inr s1)
      with x(2) have "loop turn s1 = Some y" by simp
      from ih [OF this] x(1) Inr show ?thesis by blast
    qed
  qed
  with assms(2-4) show ?thesis by blast
qed

lemma retry_loop_returns:
  assumes "I s" and "\<And>s. I s \<Longrightarrow> \<exists>x. turn s = Some x \<and> (case x of Inl r \<Rightarrow> True | Inr s1 \<Rightarrow> I s1 \<and> f s1 < (f s :: nat))"
  shows "\<exists>y. retry_loop turn s = Some y"
  using assms(1)
proof (induction "f s" arbitrary: s rule: less_induct)
  case less
  from assms(2) [OF less.prems] obtain x where x: "turn s = Some x"
    "case x of Inl r \<Rightarrow> True | Inr s1 \<Rightarrow> I s1 \<and> f s1 < f s" by blast
  show ?case
  proof (cases x)
    case (Inl r)
    with x show ?thesis by (subst retry_loop.simps) simp
  next
    case (Inr s1)
    with x less.hyps [of s1] show ?thesis by (subst retry_loop.simps) auto
  qed
qed

definition seen_to :: "('w \<Rightarrow> kobject list) \<Rightarrow> nat \<Rightarrow> event list \<Rightarrow> kobject list \<Rightarrow> nat \<Rightarrow> 'w \<Rightarrow> bool" where
  "seen_to acc now log before n w \<longleftrightarrow> n \<le> length log \<and> acc w = before @ map (shown now) (take n log)"

lemma seen_to_more:
  assumes "seen_to acc now log before p w" and "acc w' = acc w @ map (shown now) (take m (drop p log))"
    and "p + m \<le> length log"
  shows "seen_to acc now log before (p + m) w'"
  using assms by (simp add: seen_to_def take_add)

lemma retry_turn_seen:
  assumes "good_log r0 log" and "observes acc cb" and "serves acc r0 log watchFunc" and "pauses acc pause"
    and "seen_to acc now log before p w"
    and "retry_turn now watchFunc pause cb (rev_at r0 log p, (l0, w)) = Some x"
  shows "\<exists>n \<ge> p. case x of
      Inl ((l1, e), w') \<Rightarrow> seen_to acc now log before n w' \<and> (e = None \<longrightarrow> p < n)
    | Inr (r, (l1, w')) \<Rightarrow> seen_to acc now log before n w' \<and> r = rev_at r0 log n"
proof -
  from assms(6) obtain res l1 w1 where
    d: "doWatch now (rev_at r0 log p) (lift_watch watchFunc) (keep_last cb) (l0, w) = Some (res, (l1, w1))"
    and x: "x = after_watch (rev_at r0 log p) pause res (l1, w1)"
    by (auto simp: retry_turn_def)
  from assms(5) have p: "p \<le> length log" by (simp add: seen_to_def)
  from doWatch_prefix [OF assms(1-3) p d] obtain m where
    m: "p + m \<le> length log" "acc w1 = acc w @ map (shown now) (take m (drop p log))"
    "if wr_cont res then m > 0 \<and> wr_nonTerminal res = None \<and> wr_terminal res = None
     else wr_lastRevision res = rev_at r0 log (p + m)" by blast
  have s1: "seen_to acc now log before (p + m) w1" by (rule seen_to_more [OF assms(5) m(2,1)])
  obtain e w2 where pw: "pause w1 = (e, w2)" by fastforce
  have s2: "seen_to acc now log before (p + m) w2"
    using s1 assms(4) pw unfolding pauses_def seen_to_def by (metis snd_conv)
  have rev: "\<not> wr_cont res \<Longrightarrow>
      (if wr_lastRevision res \<noteq> [] then wr_lastRevision res else rev_at r0 log p) = rev_at r0 log (p + m)"
    using m(1,3) rev_at_nonempty [OF assms(1), of "p + m"] by (cases "p + m") auto
  show ?thesis
    using s1 s2 m(3) rev unfolding x
    by (intro exI [of _ "p + m"]) (auto simp: after_watch_def Let_def pw split: option.split if_splits)
qed

text \<open>C10: no change is lost or shown out of order. Whatever the pieces in which the server delivers
  the changes since the first revision, however often the channel is closed and however often
  the callback reports a conflict, the changes the callback accepts are the first \<open>n\<close> changes of
  the server, each once and in order, when \<open>retryWatch\<close> returns; and when it returns without an error at
  least one has been accepted.\<close>

theorem retryWatch_prefix:
  assumes "good_log r0 log" and "observes acc cb" and "serves acc r0 log watchFunc" and "pauses acc pause"
    and "retryWatch now r0 watchFunc pause cb (l0, w) = Some ((l1, e), w')"
  shows "\<exists>n. n \<le> length log \<and> acc w' = acc w @ map (shown now) (take n log) \<and> (e = None \<longrightarrow> 0 < n)"
proof -
  let ?I = "\<lambda>(r, l, v). \<exists>p. r = rev_at r0 log p \<and> seen_to acc now log (acc w) p v"
  let ?Q = "\<lambda>((l1, e), w'). \<exists>n. seen_to acc now log (acc w) n w' \<and> (e = None \<longrightarrow> 0 < n)"
  have "?Q ((l1, e), w')"
  proof (rule retry_loop_rule [where I = ?I and Q = ?Q])
    show "retry_loop (retry_turn now watchFunc pause cb) (r0, (l0, w)) = Some ((l1, e), w')"
      using assms(5) by (simp add: retryWatch_def)
    show "?I (r0, (l0, w))" by (simp add: seen_to_def exI [of _ 0])
  next
    fix s s1 :: "gostring \<times> kobject option \<times> 'a"
    assume "?I s" and t: "retry_turn now watchFunc pause cb s = Some (Inr s1)"
    then obtain l v p where s: "s = (rev_at r0 log p, (l, v))" and "seen_to acc now log (acc w) p v"
      by (cases s) auto
    from retry_turn_seen [OF assms(1-4) this(2) t [unfolded s]] show "?I s1"
      by (cases s1) auto
  next
    fix s :: "gostring \<times> kobject option \<times> 'a" and r :: "(kobject option \<times> err option) \<times> 'a"
    assume "?I s" and t: "retry_turn now watchFunc pause cb s = Some (Inl r)"
    then obtain l v p where s: "s = (rev_at r0 log p, (l, v))" and "seen_to acc now log (acc w) p v"
      by (cases s) auto
    from retry_turn_seen [OF assms(1-4) this(2) t [unfolded s]] show "?Q r"
      by (cases r) auto
  qed
  then show ?thesis by (auto simp: seen_to_def)
qed

section \<open>Returning\<close>

definition never_fails :: "'w callback \<Rightarrow> bool" where
  "never_fails cb \<longleftrightarrow> (\<forall>ob w. snd (fst (cb ob w)) = None)"

lemma never_fails_keep_last: "never_fails cb \<Longrightarrow> never_fails (keep_last cb)"
  by (simp add: never_fails_def keep_last_def split_beta)

lemma watch_loop_no_error:
  assumes "good_log r0 log" and "never_fails cb" and "drop p log = evs @ later"
    and "\<And>w. fst (fst (cb (shown now (log ! i)) w)) = True"
  shows "\<exists>res w'. watch_loop cb now (map Event evs @ [Closed]) (rev_at r0 log p) w = Some (res, w') \<and>
    wr_nonTerminal res = None \<and> wr_terminal res = None \<and>
    (\<not> wr_cont res \<longrightarrow> wr_lastRevision res = rev_at r0 log (p + length evs) \<and> (\<forall>j < length evs. p + j \<noteq> i))"
  using assms(3)
proof (induction evs arbitrary: p w)
  case Nil
  then show ?case by (simp add: poll_step_def outcome_def)
next
  case (Cons ev evs)
  have len: "p < length log"
    using Cons.prems by (cases "p < length log") auto
  with Cons.prems have ev: "log ! p = ev" and tail: "drop (Suc p) log = evs @ later"
    by (simp_all add: Cons_nth_drop_Suc [symmetric])
  from len ev assms(1) have ok: "change_obj ev \<noteq> None" "change_rev ev \<noteq> []"
    by (auto simp: good_log_def dest: nth_mem)
  obtain fin w1 where c: "cb (shown now ev) w = ((fin, None), w1)"
    using assms(2) unfolding never_fails_def by (metis prod.collapse)
  show ?case
  proof (cases fin)
    case True
    with c show ?thesis by (simp add: poll_change [OF ok(1)] deliver_def outcome_def)
  next
    case False
    with c assms(4) [of w] ev have "p \<noteq> i" by auto
    have "next_revision (shown now ev) (rev_at r0 log p) = rev_at r0 log (Suc p)"
      using ok shown_rev [OF ok(1)] by (simp add: next_revision_def ev)
    with Cons.IH [OF tail, of w1] obtain res w' where
      "watch_loop cb now (map Event evs @ [Closed]) (next_revision (shown now ev) (rev_at r0 log p)) w1 = Some (res, w')"
      and r: "wr_nonTerminal res = None" "wr_terminal res = None"
      "\<not> wr_cont res \<longrightarrow> wr_lastRevision res = rev_at r0 log (Suc p + length evs) \<and> (\<forall>j < length evs. Suc p + j \<noteq> i)"
      by auto
    moreover have "\<forall>j < length (ev # evs). p + j \<noteq> i" if "\<not> wr_cont res"
    proof (intro allI impI)
      fix j assume "j < length (ev # evs)"
      with r(3) that \<open>p \<noteq> i\<close> show "p + j \<noteq> i" by (cases j) auto
    qed
    ultimately show ?thesis
      using False c by (simp add: poll_change [OF ok(1)] deliver_def)
  qed
qed

text \<open>A turn ends the wait or moves on, and stays before the change that is waited for.\<close>

definition before_change :: "gostring \<Rightarrow> event list \<Rightarrow> nat \<Rightarrow> gostring \<times> kobject option \<times> 'a \<Rightarrow> bool" where
  "before_change r0 log i s \<longleftrightarrow> (\<exists>p \<le> i. fst s = rev_at r0 log p)"

lemma retry_turn_progress:
  assumes "good_log r0 log" and "never_fails cb" and "i < length log"
    and "\<And>w. fst (fst (cb (shown now (log ! i)) w)) = True"
    and "\<And>r w. \<exists>n > 0. fst (watchFunc r w) = Inr (map Event (take n (since r0 log r)) @ [Closed])"
    and "\<And>w. fst (pause w) = None"
    and I: "before_change r0 log i s"
  shows "(\<exists>l w. retry_turn now watchFunc pause cb s = Some (Inl ((l, None), w))) \<or>
    (\<exists>s1. retry_turn now watchFunc pause cb s = Some (Inr s1) \<and> before_change r0 log i s1 \<and>
       length (since r0 log (fst s1)) < length (since r0 log (fst s)))"
proof -
  let ?turn = "retry_turn now watchFunc pause cb"
  obtain l v p where s: "s = (rev_at r0 log p, (l, v))" and p: "p \<le> i"
    using I by (cases s) (auto simp: before_change_def)
  obtain y v1 where y: "watchFunc (rev_at r0 log p) v = (y, v1)" by fastforce
  from assms(5) [of "rev_at r0 log p" v] y obtain n where
    n: "n > 0" "y = Inr (map Event (take n (drop p log)) @ [Closed])"
    using p assms(3) by (auto simp: since_rev_at [OF assms(1)])
  let ?evs = "take n (drop p log)"
  have done_i: "fst (fst (keep_last cb (shown now (log ! i)) st)) = True" for st
    using assms(4) by (cases st) (simp add: keep_last_def split_beta)
  from watch_loop_no_error [OF assms(1) never_fails_keep_last [OF assms(2)]
      append_take_drop_id [of n "drop p log", symmetric] done_i, of "(l, v1)"]
  obtain res st where r: "watch_loop (keep_last cb) now (map Event ?evs @ [Closed]) (rev_at r0 log p) (l, v1) = Some (res, st)"
    "wr_nonTerminal res = None" "wr_terminal res = None"
    "\<not> wr_cont res \<Longrightarrow> wr_lastRevision res = rev_at r0 log (p + length ?evs)"
    "\<not> wr_cont res \<Longrightarrow> \<forall>j < length ?evs. p + j \<noteq> i" by blast
  obtain l2 v2 where st: "st = (l2, v2)" by (cases st)
  obtain v3 where v3: "pause v2 = (None, v3)" using assms(6) [of v2] by (metis prod.collapse)
  have t: "?turn s = Some (after_watch (rev_at r0 log p) pause res (l2, v2))"
    using r(1) by (simp add: s retry_turn_def doWatch_def lift_watch_def y n(2) st)
  show ?thesis
  proof (cases "wr_cont res")
    case True
    with r(2,3) t show ?thesis by (simp add: after_watch_def)
  next
    case False
    have pos: "length ?evs > 0" using n(1) p assms(3) by simp
    have le: "p + length ?evs \<le> i"
    proof (rule ccontr)
      assume "\<not> p + length ?evs \<le> i"
      then have "i - p < length ?evs" using p assms(3) by auto
      with r(5) [OF False] p show False by (metis le_add_diff_inverse)
    qed
    have ne: "rev_at r0 log (p + length ?evs) \<noteq> []"
      using rev_at_nonempty [OF assms(1), of "p + length ?evs"] pos le assms(3) by linarith
    have "after_watch (rev_at r0 log p) pause res (l2, v2) = Inr (rev_at r0 log (p + length ?evs), (l2, v3))"
      using r(2,3) r(4) [OF False] False ne by (simp add: after_watch_def v3)
    moreover have "length (since r0 log (rev_at r0 log (p + length ?evs))) < length (since r0 log (fst s))"
      using le pos assms(3) p by (simp add: s since_rev_at [OF assms(1)])
    moreover have "before_change r0 log i (rev_at r0 log (p + length ?evs), (l2, v3))"
      using le by (auto simp: before_change_def)
    ultimately show ?thesis using t by auto
  qed
qed

text \<open>C25: waiting ends. When the callback never gives an error and is done on one of the server's
  changes, every watch delivers at least one change of those that are left, and the context is
  not ended, \<open>retryWatch\<close> returns, without an error.\<close>

theorem retryWatch_returns:
  assumes "good_log r0 log" and "never_fails cb" and "i < length log"
    and "\<And>w. fst (fst (cb (shown now (log ! i)) w)) = True"
    and "\<And>r w. \<exists>n > 0. fst (watchFunc r w) = Inr (map Event (take n (since r0 log r)) @ [Closed])"
    and "\<And>w. fst (pause w) = None"
  shows "\<exists>l1 w'. retryWatch now r0 watchFunc pause cb (l0, w) = Some ((l1, None), w')"
proof -
  let ?I = "before_change r0 log i :: gostring \<times> kobject option \<times> 'a \<Rightarrow> bool" and ?turn = "retry_turn now watchFunc pause cb"
  let ?f = "\<lambda>s :: gostring \<times> kobject option \<times> 'a. length (since r0 log (fst s))"
  note turn = retry_turn_progress [where watchFunc = watchFunc and pause = pause, OF assms]
  have I0: "?I (r0, (l0, w))" by (auto simp: before_change_def intro!: exI [of _ 0])
  have "\<exists>y. retry_loop ?turn (r0, (l0, w)) = Some y"
  proof (rule retry_loop_returns [where I = ?I and f = ?f, OF I0])
    fix s assume "?I s"
    from turn [OF this] show "\<exists>x. ?turn s = Some x \<and> (case x of Inl r \<Rightarrow> True | Inr s1 \<Rightarrow> ?I s1 \<and> ?f s1 < ?f s)"
      by (elim disjE exE conjE) simp_all
  qed
  then obtain y where y: "retry_loop ?turn (r0, (l0, w)) = Some y" by blast
  have "snd (fst y) = None"
  proof (rule retry_loop_rule [where I = ?I and s = "(r0, (l0, w))" and turn = ?turn and y = y and Q = "\<lambda>y. snd (fst y) = None"])
    show "retry_loop ?turn (r0, (l0, w)) = Some y" and "?I (r0, (l0, w))" by (rule y, rule I0)
  next
    fix s s1 assume "?I s" and "?turn s = Some (Inr s1)"
    with turn [of s] show "?I s1" by auto
  next
    fix s r assume "?I s" and "?turn s = Some (Inl r)"
    with turn [of s] show "snd (fst r) = None" by auto
  qed
  with y show ?thesis
    by (intro exI [of _ "fst (fst y)"] exI [of _ "snd y"]) (simp add: retryWatch_def prod_eq_iff)
qed

text \<open>An example: three changes, delivered two and then one at a time; the callback counts and is
  done on the object named c.\<close>

definition at_rev :: "gostring \<Rightarrow> gostring \<Rightarrow> kobject" where
  "at_rev name r = (zero_object ''ConfigMap'' (GVK [] ''v1'' ''ConfigMap''))\<lparr>k_name := name, k_resourceVersion := r\<rparr>"

definition ex_log :: "event list" where
  "ex_log = [Added (at_rev ''a'' ''1''), Modified (at_rev ''b'' ''2''), Deleted (at_rev ''c'' ''3'')]"

definition ex_watch :: "gostring \<Rightarrow> kobject list \<Rightarrow> (err + poll list) \<times> kobject list" where
  "ex_watch r w = (Inr (map Event (take 2 (since ''0'' ex_log r)) @ [Closed]), w)"

definition ex_pause :: "kobject list \<Rightarrow> err option \<times> kobject list" where
  "ex_pause w = (None, w)"

definition ex_until :: "kobject list callback" where
  "ex_until ob w = ((k_name ob = ''c'', None), w @ [ob])"

lemma ex_good: "good_log ''0'' ex_log"
  by (simp add: good_log_def ex_log_def change_rev_def at_rev_def)

lemma retryWatch_returns_witness: "\<exists>l1 w'. retryWatch 7 ''0'' ex_watch ex_pause ex_until (None, []) = Some ((l1, None), w')"
proof (rule retryWatch_returns [OF ex_good, where i = 2])
  show "never_fails ex_until" by (simp add: never_fails_def ex_until_def)
  show "2 < length ex_log" by (simp add: ex_log_def)
  show "fst (fst (ex_until (shown 7 (ex_log ! 2)) w)) = True" for w
    by (simp add: ex_until_def ex_log_def at_rev_def as_deleted_def zero_object_def Let_def)
  show "\<exists>n > 0. fst (ex_watch r w) = Inr (map Event (take n (since ''0'' ex_log r)) @ [Closed])" for r w
    by (intro exI [of _ 2]) (simp add: ex_watch_def)
  show "fst (ex_pause w) = None" for w by (simp add: ex_pause_def)
qed

lemma ex_turns:
  "retry_turn 7 ex_watch ex_pause ex_until (''0'', (None, [])) =
     Some (Inr (''2'', (Some (at_rev ''b'' ''2''), [at_rev ''a'' ''1'', at_rev ''b'' ''2''])))"
  "retry_turn 7 ex_watch ex_pause ex_until (''2'', (Some (at_rev ''b'' ''2''), [at_rev ''a'' ''1'', at_rev ''b'' ''2''])) =
     Some (Inl ((Some (as_deleted 7 (at_rev ''c'' ''3'')), None), map (shown 7) ex_log))"
  by (simp_all add: retry_turn_def doWatch_def lift_watch_def ex_watch_def since_def ex_log_def change_rev_def
      at_rev_def poll_step_def deliver_def keep_last_def ex_until_def next_revision_def outcome_def
      after_watch_def ex_pause_def as_deleted_def zero_object_def Let_def)

lemma ex_run:
  "retryWatch 7 ''0'' ex_watch ex_pause ex_until (None, []) =
     Some ((Some (as_deleted 7 (at_rev ''c'' ''3'')), None), map (shown 7) ex_log)"
  unfolding retryWatch_def
  by (subst retry_loop_step(2), rule ex_turns(1))
    (rule retry_loop_step(1), rule ex_turns(2))

lemma retryWatch_prefix_witness:
  "\<exists>n. n \<le> 3 \<and> map (shown 7) ex_log = map (shown 7) (take n ex_log) \<and> 0 < n"
proof -
  have "\<exists>n. n \<le> length ex_log \<and> map (shown 7) ex_log = [] @ map (shown 7) (take n ex_log) \<and> (None = (None :: err option) \<longrightarrow> 0 < n)"
    by (rule retryWatch_prefix [where acc = "\<lambda>w. w", OF ex_good _ _ _ ex_run])
      (auto simp: observes_def ex_until_def serves_def quiet_def ex_watch_def pauses_def ex_pause_def)
  moreover have "length ex_log = 3" by (simp add: ex_log_def)
  ultimately show ?thesis by (simp del: map_append)
qed

end
