(* ===== verification/Tester.thy ===== *)
theory Tester
  imports Handlers
begin

text \<open>
  The test harness for handlers, pkg/router/tester, and \<open>GetOrCreate\<close> of pkg/router/getorcreate.go,
  whose contract with its client the harness's client fulfils.

  The fake client keeps the pointers it is given, so it is modelled over a heap: a state is the
  objects behind the references and the client with its lists of references.
\<close>

section \<open>The fake client\<close>

record testClient =
  tc_Objects :: "oref list"
  tc_Created :: "oref list"
  tc_Updated :: "oref list"

record tstate =
  ts_heap :: "oref \<Rightarrow> kobject"
  ts_client :: testClient

definition tc_objects :: "testClient \<Rightarrow> oref list" where
  "tc_objects c = (tc_Objects c @ tc_Created c) @ tc_Updated c"

definition same_object :: "gostring \<Rightarrow> gostring \<Rightarrow> gostring \<Rightarrow> kobject \<Rightarrow> bool" where
  "same_object ty ns name ob \<longleftrightarrow> k_type ob = ty \<and> k_name ob = name \<and> k_namespace ob = ns"

definition not_found :: "gostring \<Rightarrow> err" where
  "not_found name = Api NotFound (name @ '' not found'')"

text \<open>\<open>Get\<close> looks from the last object to the first; it copies what it finds into \<open>out\<close>.\<close>

definition tc_Get :: "oref \<Rightarrow> gostring \<Rightarrow> gostring \<Rightarrow> tstate \<Rightarrow> err option \<times> tstate" where
  "tc_Get out ns name s =
     (case find (\<lambda>x. same_object (k_type (ts_heap s out)) ns name (ts_heap s x)) (rev (tc_objects (ts_client s))) of
        None \<Rightarrow> (Some (not_found name), s)
      | Some x \<Rightarrow> (None, s\<lparr>ts_heap := (ts_heap s)(out := ts_heap s x)\<rparr>))"

text \<open>
  \<open>List\<close>: the objects of the namespace and the type of the list, one per key; \<open>ty\<close> is the type of
  the item the scheme makes for the kind of the list without its ending.
\<close>

definition tc_List_objects :: "gostring \<Rightarrow> gostring \<Rightarrow> label_selector option \<Rightarrow> tstate \<Rightarrow> (gostring, oref) gomap" where
  "tc_List_objects ty ns sel s =
     fold (\<lambda>x m. if k_namespace (ts_heap s x) \<noteq> ns \<or> k_type (ts_heap s x) \<noteq> ty \<or>
                    (case sel of None \<Rightarrow> False | Some l \<Rightarrow> \<not> ls_Matches l (k_labels (ts_heap s x)))
                 then m
                 else AList.update (k_namespace (ts_heap s x) @ ''/'' @ k_name (ts_heap s x)) x m)
       (tc_objects (ts_client s)) []"

definition tc_List :: "kscheme \<Rightarrow> gvk \<Rightarrow> gostring \<Rightarrow> label_selector option \<Rightarrow> tstate \<Rightarrow> err + oref list" where
  "tc_List sch list_gvk ns sel s =
     (if \<not> has_suffix (gvk_kind list_gvk) ''List'' then Inl (Plain ''invalid list object, Kind must end with List'')
      else (case scheme_new sch (list_gvk\<lparr>gvk_kind := trim_suffix (gvk_kind list_gvk) ''List''\<rparr>) of
              NotRegistered \<Rightarrow> Inl (Plain ''no kind is registered'')
            | NewFailed e \<Rightarrow> Inl e
            | NewObject ob \<Rightarrow> Inr (map snd (tc_List_objects (k_type ob) ns sel s))))"

text \<open>\<open>Create\<close>; \<open>uid\<close> and \<open>token\<close> are the random ones (\<open>token\<close> may fail).\<close>

definition tc_Create :: "gostring \<Rightarrow> (kobject \<Rightarrow> err + gostring) \<Rightarrow> oref \<Rightarrow> tstate \<Rightarrow> err option \<times> tstate" where
  "tc_Create uid token x s =
     (let ob = (ts_heap s x)\<lparr>k_uid := uid\<rparr>; s1 = s\<lparr>ts_heap := (ts_heap s)(x := ob)\<rparr>;
          record_it = (\<lambda>s. (None, s\<lparr>ts_client := (ts_client s)\<lparr>tc_Created := tc_Created (ts_client s) @ [x]\<rparr>\<rparr>))
      in if k_name ob = [] \<and> k_generateName ob \<noteq> []
         then (case token ob of
                 Inl e \<Rightarrow> (Some e, s1)
               | Inr r \<Rightarrow> record_it (s1\<lparr>ts_heap := (ts_heap s1)(x := ob\<lparr>k_name := k_generateName ob @ take 5 r\<rparr>)\<rparr>))
         else record_it s1)"

definition tc_Update :: "oref \<Rightarrow> tstate \<Rightarrow> err option \<times> tstate" where
  "tc_Update x s =
     (let ob = ts_heap s x
      in if list_ex (\<lambda>y. same_object (k_type ob) (k_namespace ob) (k_name ob) (ts_heap s y)) (tc_objects (ts_client s))
         then (None, s\<lparr>ts_client := (ts_client s)\<lparr>tc_Updated := tc_Updated (ts_client s) @ [x]\<rparr>\<rparr>)
         else (Some (not_found (k_name ob)), s))"

section \<open>The fake response\<close>

record testResponse =
  tr_Delay :: int
  tr_Collected :: "oref list"
  tr_NoPrune :: bool

definition tr_DisablePrune :: "testResponse \<Rightarrow> testResponse" where
  "tr_DisablePrune r = r\<lparr>tr_NoPrune := True\<rparr>"

definition tr_RetryAfter :: "int \<Rightarrow> testResponse \<Rightarrow> testResponse" where
  "tr_RetryAfter delay r = (if tr_Delay r = 0 \<or> delay < tr_Delay r then r\<lparr>tr_Delay := delay\<rparr> else r)"

definition tr_Objects :: "oref list \<Rightarrow> testResponse \<Rightarrow> testResponse" where
  "tr_Objects objs r = r\<lparr>tr_Collected := tr_Collected r @ objs\<rparr>"

section \<open>Comparing the output\<close>

record test_key =
  tk_GVK :: gvk
  tk_Namespace :: gostring
  tk_Name :: gostring

definition toKey :: "gostring \<Rightarrow> gostring \<Rightarrow> gostring" where
  "toKey ns name = (if ns = [] then name else ns @ ''/'' @ name)"

text \<open>\<open>toObjectMap\<close>: the kind is written into each object; an object replaces one of the same key.\<close>

fun toObjectMap_add ::
  "kscheme \<Rightarrow> kobject list \<Rightarrow> (test_key, kobject) gomap \<Rightarrow> err + (test_key, kobject) gomap" where
  "toObjectMap_add sch [] m = Inr m"
| "toObjectMap_add sch (ob # obs) m =
     (case gvk_for sch ob of
        Inl e \<Rightarrow> Inl e
      | Inr g \<Rightarrow> toObjectMap_add sch obs
          (AList.update \<lparr>tk_GVK = g, tk_Namespace = k_namespace ob, tk_Name = k_name ob\<rparr> (ob\<lparr>k_gvk := g\<rparr>) m))"

definition toObjectMap :: "kscheme \<Rightarrow> kobject list \<Rightarrow> err + (test_key, kobject) gomap" where
  "toObjectMap sch obs = toObjectMap_add sch obs []"

text \<open>The kind that \<open>toObjectMap\<close> leaves in an object.\<close>

definition set_kind :: "kscheme \<Rightarrow> kobject \<Rightarrow> kobject" where
  "set_kind sch ob = (case gvk_for sch ob of Inl e \<Rightarrow> ob | Inr g \<Rightarrow> ob\<lparr>k_gvk := g\<rparr>)"

datatype failure = WrongDelay | WrongGolden | Unexpected test_key | Missing test_key | Differs test_key

text \<open>
  The assertions of \<open>InvokeWithContext\<close> after a handler that gave no error. \<open>golden\<close> is what the
  golden file says of the collected objects, \<open>same\<close> compares two objects; a missing object is
  compared as nil.
\<close>

definition check_delay :: "int \<Rightarrow> int \<Rightarrow> failure list" where
  "check_delay expected actual = (if expected = actual then [] else [WrongDelay])"

definition check_objects ::
  "(kobject option \<Rightarrow> kobject option \<Rightarrow> bool) \<Rightarrow> (test_key, kobject) gomap \<Rightarrow> (test_key, kobject) gomap \<Rightarrow> failure list" where
  "check_objects same expected collected =
     map Unexpected (filter (\<lambda>k. map_of expected k = None) (gm_keys collected)) @
     concat (map (\<lambda>k. (if map_of collected k = None then [Missing k] else []) @
                      (if same (map_of expected k) (map_of collected k) then [] else [Differs k]))
       (gm_keys expected))"

definition check_output ::
  "kscheme \<Rightarrow> (kobject option \<Rightarrow> kobject option \<Rightarrow> bool) \<Rightarrow> (kobject list \<Rightarrow> err + failure list) \<Rightarrow> int \<Rightarrow> kobject list \<Rightarrow>
     int \<Rightarrow> kobject list \<Rightarrow> err + failure list" where
  "check_output sch same golden expectedDelay expectedOutput delay collected =
     (case toObjectMap sch expectedOutput of
        Inl e \<Rightarrow> Inl e
      | Inr expected \<Rightarrow>
        (case toObjectMap sch collected of
           Inl e \<Rightarrow> Inl e
         | Inr got \<Rightarrow>
           (case golden (map (set_kind sch) collected) of
              Inl e \<Rightarrow> Inl e
            | Inr wrong \<Rightarrow>
              Inr (check_delay expectedDelay delay @ wrong @
                   (if length expectedOutput = 0 then [] else check_objects same expected got)))))"

section \<open>GetOrCreate\<close>

text \<open>
  For any client, given by its \<open>Get\<close> into the object and its \<open>Create\<close> of it. \<open>ns\<close> and \<open>name\<close> are those
  of the object when it is passed.
\<close>

definition GetOrCreate ::
  "(gostring \<Rightarrow> gostring \<Rightarrow> 's \<Rightarrow> err option \<times> 's) \<Rightarrow> ('s \<Rightarrow> err option \<times> 's) \<Rightarrow>
     ('s \<Rightarrow> err option \<times> 's) option \<Rightarrow> gostring \<Rightarrow> gostring \<Rightarrow> 's \<Rightarrow> err option \<times> 's" where
  "GetOrCreate get create prepare ns name s =
     (case get ns name s of
        (err, s1) \<Rightarrow>
          if IsNotFound err
          then (case (case prepare of None \<Rightarrow> (None, s1) | Some f \<Rightarrow> f s1) of
                  (Some e, s2) \<Rightarrow> (Some e, s2)
                | (None, s2) \<Rightarrow>
                  (case create s2 of
                     (e, s3) \<Rightarrow> if IsAlreadyExists e then get ns name s3 else (e, s3)))
          else (err, s1))"

end
