(* ===== verification/TesterProperties.thy ===== *)
theory TesterProperties
  imports Tester
begin

text \<open>
  The contract of a response's delay, the contract \<open>GetOrCreate\<close> has with a client, and what the
  harness accepts.
\<close>

section \<open>Delays\<close>

text \<open>A response whose retries are merged: the earliest one counts.\<close>

locale delay_response =
  fixes retry :: "int \<Rightarrow> 'r \<Rightarrow> 'r"
    and delay :: "'r \<Rightarrow> int"
  assumes delay_retry: "delay (retry d r) = (if delay r = 0 \<or> d < delay r then d else delay r)"
begin

lemma delay_fold: "delay r > 0 \<Longrightarrow> \<forall>d \<in> set ds. d > 0 \<Longrightarrow> delay (fold retry ds r) = Min (insert (delay r) (set ds))"
proof (induction ds arbitrary: r)
  case (Cons d ds)
  then have "delay (retry d r) = min (delay r) d" and "delay (retry d r) > 0"
    by (auto simp: delay_retry)
  with Cons show ?case
    by (cases "ds = []") (simp_all add: min.assoc min.commute)
qed simp

lemma delay_earliest:
  assumes "delay r = 0" and "ds \<noteq> []" and "\<forall>d \<in> set ds. d > 0"
  shows "delay (fold retry ds r) = Min (set ds)"
proof -
  from assms(2) obtain d rest where ds: "ds = d # rest" by (cases ds) auto
  have "delay (retry d r) = d" by (simp add: delay_retry assms(1))
  with delay_fold [of "retry d r" rest] assms(3) ds show ?thesis by simp
qed

end

interpretation router_resp: delay_response response_RetryAfter r_delay
  by unfold_locales (simp add: response_RetryAfter_def)

interpretation tester_resp: delay_response tr_RetryAfter tr_Delay
  by unfold_locales (simp add: tr_RetryAfter_def)

text \<open>The earliest retry counts. However many positive delays a handler and the handlers after it
  ask for, in whatever order, the response of the router and that of the test harness both
  keep the smallest of them.\<close>

theorem RetryAfter_earliest:
  assumes "ds \<noteq> []" and "\<forall>d \<in> set ds. d > 0"
  shows "r_delay (fold response_RetryAfter ds new_response) = Min (set ds) \<and>
    tr_Delay (fold tr_RetryAfter ds \<lparr>tr_Delay = 0, tr_Collected = [], tr_NoPrune = False\<rparr>) = Min (set ds)"
  using router_resp.delay_earliest [OF _ assms] tester_resp.delay_earliest [OF _ assms]
  by (simp add: new_response_def)

lemma RetryAfter_earliest_witness:
  "r_delay (fold response_RetryAfter [9, 4, 7] new_response) = 4"
  using RetryAfter_earliest [of "[9, 4, 7]"] by simp

text \<open>\<open>ResponseWrapper\<close> is not such a response: its last retry counts.\<close>

lemma wrapper_RetryAfter_last: "rw_Delay (wrapper_RetryAfter 9 (wrapper_RetryAfter 4 new_wrapper)) = 9"
  by (simp add: wrapper_RetryAfter_def)

section \<open>Getting or creating\<close>

text \<open>
  What \<open>GetOrCreate\<close> needs of a client, for one object: \<open>exists\<close> is what the client has under a
  namespace and a name, \<open>arg\<close> the object it fills and creates, \<open>ok\<close> the states in which they are
  apart.
\<close>

locale creating_client =
  fixes get :: "gostring \<Rightarrow> gostring \<Rightarrow> 's \<Rightarrow> err option \<times> 's"
    and create :: "'s \<Rightarrow> err option \<times> 's"
    and present :: "'s \<Rightarrow> gostring \<Rightarrow> gostring \<Rightarrow> kobject option"
    and arg :: "'s \<Rightarrow> kobject"
    and ok :: "'s \<Rightarrow> bool"
  assumes get_found: "ok s \<Longrightarrow> present s ns n = Some ob \<Longrightarrow>
        \<exists>s'. get ns n s = (None, s') \<and> arg s' = ob \<and> present s' = present s"
    and get_missing: "ok s \<Longrightarrow> present s ns n = None \<Longrightarrow> \<exists>e. get ns n s = (Some e, s) \<and> IsNotFound (Some e)"
    and create_missing: "ok s \<Longrightarrow> present s (k_namespace (arg s)) (k_name (arg s)) = None \<Longrightarrow> k_name (arg s) \<noteq> [] \<Longrightarrow>
        \<exists>s'. create s = (None, s') \<and> present s' (k_namespace (arg s)) (k_name (arg s)) = Some (arg s')"
begin

lemma GetOrCreate_found:
  assumes "ok s" and "present s ns n = Some ob"
  shows "\<exists>s'. GetOrCreate get create prepare ns n s = (None, s') \<and> get ns n s = (None, s') \<and> arg s' = ob \<and>
     present s' = present s"
  using get_found [OF assms] by (auto simp: GetOrCreate_def)

lemma GetOrCreate_missing:
  assumes "ok s" and "present s (k_namespace (arg s)) (k_name (arg s)) = None" and "k_name (arg s) \<noteq> []"
  shows "\<exists>s'. GetOrCreate get create None (k_namespace (arg s)) (k_name (arg s)) s = (None, s') \<and>
     create s = (None, s') \<and> present s' (k_namespace (arg s)) (k_name (arg s)) = Some (arg s')"
  using get_missing [OF assms(1,2)] create_missing [OF assms] by (auto simp: GetOrCreate_def)

end

definition tc_present :: "gostring \<Rightarrow> tstate \<Rightarrow> gostring \<Rightarrow> gostring \<Rightarrow> kobject option" where
  "tc_present ty s ns n =
     map_option (ts_heap s) (find (\<lambda>x. same_object ty ns n (ts_heap s x)) (rev (tc_objects (ts_client s))))"

definition apart :: "oref \<Rightarrow> tstate \<Rightarrow> bool" where
  "apart x s \<longleftrightarrow> x \<notin> set (tc_objects (ts_client s))"

lemma find_heap_other:
  "x \<notin> set xs \<Longrightarrow> find (\<lambda>y. P ((h(x := ob)) y)) xs = find (\<lambda>y. P (h y)) xs"
  by (induction xs) auto

lemma find_first: "\<forall>y \<in> set xs. \<not> P y \<Longrightarrow> P x \<Longrightarrow> find P (xs @ x # ys) = Some x"
  by (induction xs) auto

lemma find_same: "find (\<lambda>x. same_object ty ns n (h x)) xs = Some x \<Longrightarrow> k_type (h x) = ty \<and> x \<in> set xs"
  by (auto simp: find_Some_iff same_object_def)

lemma tc_present_assign:
  assumes "apart x s"
  shows "tc_present ty (s\<lparr>ts_heap := (ts_heap s)(x := ob)\<rparr>) = tc_present ty s"
proof (intro ext)
  fix ns n
  let ?xs = "rev (tc_objects (ts_client s))"
  have x: "x \<notin> set ?xs" using assms by (simp add: apart_def)
  have "find (\<lambda>y. same_object ty ns n (((ts_heap s)(x := ob)) y)) ?xs = find (\<lambda>y. same_object ty ns n (ts_heap s y)) ?xs"
    by (rule find_heap_other [OF x])
  with x show "tc_present ty (s\<lparr>ts_heap := (ts_heap s)(x := ob)\<rparr>) ns n = tc_present ty s ns n"
    by (auto simp: tc_present_def dest: find_same intro!: option.map_cong)
qed

interpretation tester_client: creating_client
  "\<lambda>ns n. tc_Get x ns n" "tc_Create uid token x" "tc_present ty" "\<lambda>s. ts_heap s x"
  "\<lambda>s. apart x s \<and> k_type (ts_heap s x) = ty" for x uid token ty
proof unfold_locales
  fix s ns n ob
  assume ok: "apart x s \<and> k_type (ts_heap s x) = ty" and "tc_present ty s ns n = Some ob"
  then obtain y where "find (\<lambda>y. same_object ty ns n (ts_heap s y)) (rev (tc_objects (ts_client s))) = Some y"
    "ob = ts_heap s y" by (auto simp: tc_present_def)
  with ok show "\<exists>s'. tc_Get x ns n s = (None, s') \<and> ts_heap s' x = ob \<and> tc_present ty s' = tc_present ty s"
    by (simp add: tc_Get_def tc_present_assign)
next
  fix s ns n
  assume "apart x s \<and> k_type (ts_heap s x) = ty" and "tc_present ty s ns n = None"
  then show "\<exists>e. tc_Get x ns n s = (Some e, s) \<and> IsNotFound (Some e)"
    by (auto simp: tc_Get_def tc_present_def not_found_def split: option.split)
next
  fix s
  assume ok: "apart x s \<and> k_type (ts_heap s x) = ty" and n: "k_name (ts_heap s x) \<noteq> []"
  let ?ob = "(ts_heap s x)\<lparr>k_uid := uid\<rparr>"
  let ?s = "s\<lparr>ts_heap := (ts_heap s)(x := ?ob), ts_client := (ts_client s)\<lparr>tc_Created := tc_Created (ts_client s) @ [x]\<rparr>\<rparr>"
  assume m: "tc_present ty s (k_namespace (ts_heap s x)) (k_name (ts_heap s x)) = None"
  have "tc_Create uid token x s = (None, ?s)"
    using n by (simp add: tc_Create_def Let_def)
  moreover have "tc_present ty ?s (k_namespace (ts_heap s x)) (k_name (ts_heap s x)) = Some (ts_heap ?s x)"
  proof -
    let ?P = "\<lambda>y. same_object ty (k_namespace (ts_heap s x)) (k_name (ts_heap s x)) (ts_heap ?s y)"
    have "\<not> same_object ty (k_namespace (ts_heap s x)) (k_name (ts_heap s x)) (ts_heap s y)"
      if "y \<in> set (tc_Updated (ts_client s))" for y
      using m that by (auto simp: tc_present_def find_None_iff tc_objects_def)
    then have "\<forall>y \<in> set (rev (tc_Updated (ts_client s))). \<not> ?P y"
      using ok by (auto simp: apart_def tc_objects_def)
    moreover have "?P x" using ok by (simp add: same_object_def)
    ultimately have "find ?P (rev (tc_Updated (ts_client s)) @ x # rev (tc_Objects (ts_client s) @ tc_Created (ts_client s))) = Some x"
      by (rule find_first)
    then show ?thesis by (simp add: tc_present_def tc_objects_def)
  qed
  ultimately show "\<exists>s'. tc_Create uid token x s = (None, s') \<and>
      tc_present ty s' (k_namespace (ts_heap s x)) (k_name (ts_heap s x)) = Some (ts_heap s' x)" by blast
qed

text \<open>An object is created once. With the client of the harness, \<open>GetOrCreate\<close> of a named object
  that the client does not have creates it; a second \<open>GetOrCreate\<close> of the same type, namespace
  and name, into another object and whatever it would prepare, creates nothing, runs no
  preparation, and fills the object with what the first one created.\<close>

theorem GetOrCreate_once:
  assumes "x \<noteq> y" and "apart x s" and "apart y s" and "k_name (ts_heap s x) \<noteq> []"
    and "tc_present (k_type (ts_heap s x)) s (k_namespace (ts_heap s x)) (k_name (ts_heap s x)) = None"
    and "k_type (ts_heap s y) = k_type (ts_heap s x)"
  shows "case GetOrCreate (tc_Get x) (tc_Create u1 t1 x) None (k_namespace (ts_heap s x)) (k_name (ts_heap s x)) s of
    (e1, s1) \<Rightarrow> e1 = None \<and> tc_Created (ts_client s1) = tc_Created (ts_client s) @ [x] \<and>
      (case GetOrCreate (tc_Get y) (tc_Create u2 t2 y) prepare (k_namespace (ts_heap s x)) (k_name (ts_heap s x)) s1 of
         (e2, s2) \<Rightarrow> e2 = None \<and> ts_client s2 = ts_client s1 \<and> ts_heap s2 y = ts_heap s1 x)"
proof -
  let ?ns = "k_namespace (ts_heap s x)" and ?n = "k_name (ts_heap s x)" and ?ty = "k_type (ts_heap s x)"
  from tester_client.GetOrCreate_missing [of x s ?ty u1 t1] assms obtain s1 where
    1: "GetOrCreate (tc_Get x) (tc_Create u1 t1 x) None ?ns ?n s = (None, s1)" and
    c: "tc_Create u1 t1 x s = (None, s1)" and p: "tc_present ?ty s1 ?ns ?n = Some (ts_heap s1 x)"
    by (auto simp: eta_contract_eq)
  from c assms(4) have s1: "s1 = s\<lparr>ts_heap := (ts_heap s)(x := (ts_heap s x)\<lparr>k_uid := u1\<rparr>),
      ts_client := (ts_client s)\<lparr>tc_Created := tc_Created (ts_client s) @ [x]\<rparr>\<rparr>"
    by (simp add: tc_Create_def Let_def)
  have y: "apart y s1 \<and> k_type (ts_heap s1 y) = ?ty"
    using assms(1,3,6) by (auto simp: s1 apart_def tc_objects_def)
  from tester_client.GetOrCreate_found [OF y p] obtain s2 where
    2: "GetOrCreate (tc_Get y) (tc_Create u2 t2 y) prepare ?ns ?n s1 = (None, s2)"
    "tc_Get y ?ns ?n s1 = (None, s2)" "ts_heap s2 y = ts_heap s1 x" by blast
  from 2(2) have "ts_client s2 = ts_client s1"
    by (auto simp: tc_Get_def split: option.splits)
  with 1 2 s1 show ?thesis by simp
qed

definition ex_ts :: tstate where
  "ex_ts = \<lparr>ts_heap = (\<lambda>_. (zero_object ''ConfigMap'' (GVK [] ''v1'' ''ConfigMap''))\<lparr>k_namespace := ''n'', k_name := ''a''\<rparr>),
     ts_client = \<lparr>tc_Objects = [], tc_Created = [], tc_Updated = []\<rparr>\<rparr>"

lemma GetOrCreate_once_witness:
  "fst (GetOrCreate (tc_Get 1) (tc_Create ''u2'' (\<lambda>_. Inr ''tok'') 1) None ''n'' ''a''
     (snd (GetOrCreate (tc_Get 0) (tc_Create ''u1'' (\<lambda>_. Inr ''tok'') 0) None ''n'' ''a'' ex_ts))) = None"
proof -
  have "(0 :: oref) \<noteq> 1" by simp
  from GetOrCreate_once [OF this, where s = ex_ts and ?u1.0 = "''u1''" and ?u2.0 = "''u2''" and ?t1.0 = "\<lambda>_. Inr ''tok''" and
      ?t2.0 = "\<lambda>_. Inr ''tok''" and prepare = None]
  show ?thesis by (simp add: ex_ts_def apart_def tc_objects_def tc_present_def split: prod.splits)
qed

section \<open>The harness\<close>

lemma check_objects_accepts:
  "check_objects same e c = [] \<longleftrightarrow>
     dom (map_of e) = dom (map_of c) \<and> (\<forall>k \<in> dom (map_of e). same (map_of e k) (map_of c k))"
proof -
  have "check_objects same e c = [] \<longleftrightarrow>
      (\<forall>k \<in> set (gm_keys c). map_of e k \<noteq> None) \<and>
      (\<forall>k \<in> set (gm_keys e). map_of c k \<noteq> None \<and> same (map_of e k) (map_of c k))"
    by (auto simp: check_objects_def filter_empty_conv split: if_splits)
  also have "\<dots> \<longleftrightarrow> dom (map_of c) \<subseteq> dom (map_of e) \<and>
      (\<forall>k \<in> dom (map_of e). map_of c k \<noteq> None \<and> same (map_of e k) (map_of c k))"
  proof -
    have "set (gm_keys m) = dom (map_of m)" for m :: "(test_key, kobject) gomap"
      by (simp add: dom_map_of_conv_image_fst)
    then show ?thesis by auto
  qed
  finally show ?thesis by blast
qed

lemma toObjectMap_keys:
  "toObjectMap_add sch obs m = Inr m' \<Longrightarrow>
     dom (map_of m') = dom (map_of m) \<union>
       {k. \<exists>ob \<in> set obs. \<exists>g. gvk_for sch ob = Inr g \<and> k = \<lparr>tk_GVK = g, tk_Namespace = k_namespace ob, tk_Name = k_name ob\<rparr>}"
  by (induction sch obs m rule: toObjectMap_add.induct) (auto split: sum.splits)

lemma check_output_accepts:
  assumes "expectedOutput \<noteq> []" and "toObjectMap sch expectedOutput = Inr e" and "toObjectMap sch collected = Inr c"
    and "golden (map (set_kind sch) collected) = Inr wrong"
  shows "check_output sch same golden expectedDelay expectedOutput delay collected = Inr [] \<longleftrightarrow>
    expectedDelay = delay \<and> wrong = [] \<and>
    {(g, k_namespace ob, k_name ob) |g ob. ob \<in> set expectedOutput \<and> gvk_for sch ob = Inr g} =
    {(g, k_namespace ob, k_name ob) |g ob. ob \<in> set collected \<and> gvk_for sch ob = Inr g} \<and>
    (\<forall>k \<in> dom (map_of e). same (map_of e k) (map_of c k))"
proof -
  let ?tk = "\<lambda>(g, ns, n). \<lparr>tk_GVK = g, tk_Namespace = ns, tk_Name = n\<rparr>"
  let ?K = "\<lambda>obs. {(g, k_namespace ob, k_name ob) |g ob. ob \<in> set obs \<and> gvk_for sch ob = Inr g}"
  have keys: "dom (map_of m) = ?tk ` ?K obs" if "toObjectMap sch obs = Inr m" for obs m
    using toObjectMap_keys [of sch obs "[]" m] that by (auto simp: toObjectMap_def image_iff)
  have "inj ?tk" by (auto simp: inj_def)
  then have "dom (map_of e) = dom (map_of c) \<longleftrightarrow> ?K expectedOutput = ?K collected"
    unfolding keys [OF assms(2)] keys [OF assms(3)] by (rule inj_image_eq_iff)
  with assms show ?thesis
    by (auto simp: check_output_def check_delay_def check_objects_accepts)
qed

definition own_kinds :: kscheme where
  "own_kinds = \<lparr>gvk_for = (\<lambda>ob. Inr (k_gvk ob)), gvk_String = gvk_kind, gv_String = gvk_group,
     rest_scope = (\<lambda>_. Inr NamespaceScope), scheme_new = (\<lambda>_. NotRegistered)\<rparr>"

end
