(* ===== verification/RouterStart.thy ===== *)
theory RouterStart
  imports HandlerSet "HOL-Library.Signed_Division"
begin

text \<open>
  Starting a router: its health checks (pkg/router/healthz.go), the start of pkg/router/router.go,
  the election it may wait for (pkg/leader/leader.go) and the options it is made of (router.go).

  The lease itself is client-go's: whether the elector can be made is an argument, and what it
  calls back is a list of events. Each call under the lock of \<open>healthz\<close> is one step.
\<close>

section \<open>Health\<close>

record healthz =
  hz_healths :: "(gostring, bool) gomap"
  hz_started :: bool
  hz_port :: int

definition init_healthz :: healthz where
  "init_healthz = \<lparr>hz_healths = [], hz_started = False, hz_port = 0\<rparr>"

definition setPort :: "int \<Rightarrow> healthz \<Rightarrow> healthz" where
  "setPort port z = (if hz_port z > 0 then z else z\<lparr>hz_port := port\<rparr>)"

definition setHealthy :: "gostring \<Rightarrow> bool \<Rightarrow> healthz \<Rightarrow> healthz" where
  "setHealthy name healthy z = z\<lparr>hz_healths := AList.update name healthy (hz_healths z)\<rparr>"

fun all_healthy :: "(gostring \<times> bool) list \<Rightarrow> bool" where
  "all_healthy [] = True"
| "all_healthy ((name, healthy) # hs) = (if \<not> healthy then False else all_healthy hs)"

definition getHealthy :: "healthz \<Rightarrow> bool" where
  "getHealthy z = all_healthy (hz_healths z)"

text \<open>\<open>startHealthz\<close> answers whether it starts a server; the server answers by \<open>healthz_status\<close>.\<close>

definition startHealthz :: "healthz \<Rightarrow> bool \<times> healthz" where
  "startHealthz z = (if hz_started z \<or> hz_port z \<le> 0 then (False, z) else (True, z\<lparr>hz_started := True\<rparr>))"

definition healthz_status :: "healthz \<Rightarrow> int" where
  "healthz_status z = (if getHealthy z then 200 else 503)"

section \<open>The router\<close>

text \<open>
  \<open>ro_name\<close> is the name of the embedded route builder, which is what the router passes to
  \<open>setHealthy\<close>; nothing sets it.
\<close>

record ElectionConfig =
  ec_TTL :: int
  ec_Name :: gostring
  ec_Namespace :: gostring
  ec_ResourceLockType :: gostring

record router =
  ro_name :: gostring
  ro_hasHealthz :: bool
  ro_election :: "ElectionConfig option"

definition router_New :: "ElectionConfig option \<Rightarrow> int \<Rightarrow> healthz \<Rightarrow> router \<times> healthz" where
  "router_New ec healthzPort z =
     (if healthzPort > 0 then (\<lparr>ro_name = [], ro_hasHealthz = True, ro_election = ec\<rparr>, setPort healthzPort z)
      else (\<lparr>ro_name = [], ro_hasHealthz = False, ro_election = ec\<rparr>, z))"

text \<open>
  \<open>startHandlers\<close>, with the health seen while the handlers start. The argument of the deferred call
  is evaluated where it is deferred, when \<open>err\<close> is still nil.
\<close>

definition startHandlers_begin :: "router \<Rightarrow> healthz \<Rightarrow> healthz" where
  "startHandlers_begin r z = (if ro_hasHealthz r then setHealthy (ro_name r) False z else z)"

definition startHandlers ::
  "('w \<Rightarrow> err option \<times> 'w) \<Rightarrow> router \<Rightarrow> healthz \<times> 'w \<Rightarrow> err option \<times> healthz \<times> 'w" where
  "startHandlers start r = (\<lambda>(z, w).
     let err = None; z1 = startHandlers_begin r z; deferred = (err = (None :: err option))
     in case start w of
          (err, w1) \<Rightarrow> (err, if ro_hasHealthz r then setHealthy (ro_name r) deferred z1 else z1, w1))"

section \<open>The election\<close>

text \<open>Durations are nanoseconds; Go's division truncates.\<close>

definition defaultLeaderTTL :: int where "defaultLeaderTTL = 60 * 1000000000"
definition devLeaderTTL :: int where "devLeaderTTL = 3600 * 1000000000"

definition NewDefaultElectionConfig :: "bool \<Rightarrow> gostring \<Rightarrow> gostring \<Rightarrow> ElectionConfig" where
  "NewDefaultElectionConfig dev_mode namespace name =
     \<lparr>ec_TTL = (if dev_mode then devLeaderTTL else defaultLeaderTTL), ec_Name = name, ec_Namespace = namespace,
      ec_ResourceLockType = ''leases''\<rparr>"

definition NewElectionConfig :: "int \<Rightarrow> gostring \<Rightarrow> gostring \<Rightarrow> gostring \<Rightarrow> ElectionConfig" where
  "NewElectionConfig ttl namespace name lockType =
     \<lparr>ec_TTL = ttl, ec_Name = name, ec_Namespace = namespace, ec_ResourceLockType = lockType\<rparr>"

text \<open>What the elector calls back; the end of leading ends the process.\<close>

datatype leader_event = StartedLeading | NewLeader gostring | StoppedLeading

datatype proc_state = Alive | Exited int

record elector =
  el_LeaseDuration :: int
  el_RenewDeadline :: int
  el_RetryPeriod :: int

text \<open>\<open>mk_lock\<close> and \<open>mk_elector\<close> are client-go's constructors: an error, or what they make.\<close>

definition ec_run ::
  "(ElectionConfig \<Rightarrow> err + 'l) \<Rightarrow> ('l \<Rightarrow> elector \<Rightarrow> err option) \<Rightarrow> ElectionConfig \<Rightarrow> err + elector" where
  "ec_run mk_lock mk_elector ec =
     (case mk_lock ec of
        Inl e \<Rightarrow> Inl (Plain (''error creating leader lock for '' @ ec_Name ec @ '': '' @ error_string e))
      | Inr rl \<Rightarrow>
        (let cfg = \<lparr>el_LeaseDuration = ec_TTL ec, el_RenewDeadline = ec_TTL ec sdiv 2, el_RetryPeriod = ec_TTL ec sdiv 4\<rparr>
         in case mk_elector rl cfg of Some e \<Rightarrow> Inl e | None \<Rightarrow> Inr cfg))"

definition ec_Run ::
  "(ElectionConfig \<Rightarrow> err + 'l) \<Rightarrow> ('l \<Rightarrow> elector \<Rightarrow> err option) \<Rightarrow> ElectionConfig option \<Rightarrow>
     ('s \<Rightarrow> err option \<times> 's) \<Rightarrow> 's \<Rightarrow> (err option \<times> (ElectionConfig \<times> elector) option) \<times> 's" where
  "ec_Run mk_lock mk_elector ec onLeader s =
     (case ec of
        None \<Rightarrow> (case onLeader s of (e, s1) \<Rightarrow> ((e, None), s1))
      | Some c \<Rightarrow>
        (let c1 = (if ec_Namespace c = [] then c\<lparr>ec_Namespace := ''kube-system''\<rparr> else c)
         in case ec_run mk_lock mk_elector c1 of
              Inl e \<Rightarrow> ((Some (Plain (''failed to start leader election for '' @ ec_Name c1 @ '': '' @ error_string e)), None), s)
            | Inr el \<Rightarrow> ((None, Some (c1, el)), s)))"

text \<open>
  \<open>Router.Start\<close>: the name of the host, which may fail, identifies the process in the election.
  \<open>onError\<close> is set in the handler set before \<open>start\<close> can run; it is part of what \<open>start\<close> stands for.
\<close>

definition Router_Start ::
  "err + gostring \<Rightarrow> (ElectionConfig \<Rightarrow> err + 'l) \<Rightarrow> ('l \<Rightarrow> elector \<Rightarrow> err option) \<Rightarrow> ('w \<Rightarrow> err option \<times> 'w) \<Rightarrow> router \<Rightarrow>
     healthz \<times> 'w \<Rightarrow> (err option \<times> (ElectionConfig \<times> elector) option) \<times> healthz \<times> 'w" where
  "Router_Start hostname mk_lock mk_elector start r = (\<lambda>(z, w).
     case hostname of
       Inl e \<Rightarrow> ((Some e, None), z, w)
     | Inr host \<Rightarrow>
       (let z1 = (if ro_hasHealthz r then snd (startHealthz z) else z)
        in ec_Run mk_lock mk_elector (ro_election r) (startHandlers start r) (z1, w)))"

definition switch_leader :: "gostring \<Rightarrow> router \<Rightarrow> gostring \<Rightarrow> healthz \<Rightarrow> healthz" where
  "switch_leader self r leader z = (if ro_hasHealthz r then setHealthy (ro_name r) (self \<noteq> leader) z else z)"

text \<open>
  \<open>requested\<close> is whether the context of the election has ended when leading stops. A callback that
  fails ends the process with status 1.
\<close>

definition on_leader_event ::
  "('w \<Rightarrow> err option \<times> 'w) \<Rightarrow> bool \<Rightarrow> gostring \<Rightarrow> router \<Rightarrow> leader_event \<Rightarrow> proc_state \<times> healthz \<times> 'w \<Rightarrow> proc_state \<times> healthz \<times> 'w" where
  "on_leader_event start requested self r ev = (\<lambda>(p, z, w).
     if p \<noteq> Alive then (p, z, w)
     else (case ev of
             StartedLeading \<Rightarrow>
               (case startHandlers start r (z, w) of
                  (e, z1, w1) \<Rightarrow> (if e = None then Alive else Exited 1, z1, w1))
           | NewLeader leader \<Rightarrow> (Alive, switch_leader self r leader z, w)
           | StoppedLeading \<Rightarrow> (Exited (if requested then 0 else 1), z, w)))"

section \<open>Options\<close>

text \<open>
  The options that decide which backend is used; \<open>'c\<close> is a REST configuration and \<open>'b\<close> a backend.
  \<open>new_config\<close> is \<open>restconfig.New\<close> and \<open>new_runtime\<close> \<open>NewRuntimeWithConfigs\<close>; a \<open>runtime.Config\<close> is a
  configuration and a namespace.
\<close>

record ('c, 'b) Options =
  op_Backend :: "'b option"
  op_DefaultRESTConfig :: "'c option"
  op_DefaultNamespace :: gostring
  op_Scheme :: "kscheme option"
  op_APIGroupConfigs :: "(gostring, 'c \<times> gostring) gomap"
  op_ElectionConfig :: "ElectionConfig option"
  op_HealthzPort :: int

definition no_options :: "('c, 'b) Options" where
  "no_options = \<lparr>op_Backend = None, op_DefaultRESTConfig = None, op_DefaultNamespace = [], op_Scheme = None,
     op_APIGroupConfigs = [], op_ElectionConfig = None, op_HealthzPort = 0\<rparr>"

definition defaultHealthzPort :: int where "defaultHealthzPort = 8888"

definition complete_config :: "(kscheme \<Rightarrow> err + 'c) \<Rightarrow> kscheme \<Rightarrow> ('c, 'b) Options \<Rightarrow> err + 'c" where
  "complete_config new_config sch o1 =
     (case op_DefaultRESTConfig o1 of Some c \<Rightarrow> Inr c | None \<Rightarrow> new_config sch)"

definition Options_complete ::
  "(kscheme \<Rightarrow> err + 'c) \<Rightarrow> ('c \<times> gostring \<Rightarrow> (gostring, 'c \<times> gostring) gomap \<Rightarrow> kscheme \<Rightarrow> err + 'b) \<Rightarrow> ('c, 'b) Options option \<Rightarrow> err + ('c, 'b) Options" where
  "Options_complete new_config new_runtime opts =
     (let result = (case opts of None \<Rightarrow> no_options | Some x \<Rightarrow> x)
      in case op_Scheme result of
           None \<Rightarrow> Inl (Plain ''scheme is required to be set'')
         | Some sch \<Rightarrow>
           (let r1 = (if op_HealthzPort result = 0 then result\<lparr>op_HealthzPort := defaultHealthzPort\<rparr> else result)
            in case op_Backend r1 of
                 Some b \<Rightarrow> Inr r1
               | None \<Rightarrow>
                 (case complete_config new_config sch r1 of
                    Inl e \<Rightarrow> Inl e
                  | Inr c \<Rightarrow>
                    (case new_runtime (c, op_DefaultNamespace r1) (op_APIGroupConfigs r1) sch of
                       Inl e \<Rightarrow> Inl e
                     | Inr b \<Rightarrow> Inr (r1\<lparr>op_DefaultRESTConfig := Some c, op_Backend := Some b\<rparr>)))))"

definition DefaultOptions ::
  "(kscheme \<Rightarrow> err + 'c) \<Rightarrow> ('c \<times> gostring \<Rightarrow> (gostring, 'c \<times> gostring) gomap \<Rightarrow> kscheme \<Rightarrow> err + 'b) \<Rightarrow> bool \<Rightarrow> gostring \<Rightarrow> kscheme \<Rightarrow> err + ('c, 'b) Options" where
  "DefaultOptions new_config new_runtime dev_mode routerName sch =
     (case new_config sch of
        Inl e \<Rightarrow> Inl e
      | Inr c \<Rightarrow>
        (case new_runtime (c, []) [] sch of
           Inl e \<Rightarrow> Inl e
         | Inr b \<Rightarrow>
           Inr \<lparr>op_Backend = Some b, op_DefaultRESTConfig = Some c, op_DefaultNamespace = [], op_Scheme = Some sch,
                op_APIGroupConfigs = [], op_ElectionConfig = Some (NewDefaultElectionConfig dev_mode [] routerName),
                op_HealthzPort = defaultHealthzPort\<rparr>))"

definition NewRouter ::
  "(kscheme \<Rightarrow> err + 'c) \<Rightarrow> ('c \<times> gostring \<Rightarrow> (gostring, 'c \<times> gostring) gomap \<Rightarrow> kscheme \<Rightarrow> err + 'b) \<Rightarrow> ('c, 'b) Options option \<Rightarrow> healthz \<Rightarrow> (err + router) \<times> healthz" where
  "NewRouter new_config new_runtime opts z =
     (case Options_complete new_config new_runtime opts of
        Inl e \<Rightarrow> (Inl e, z)
      | Inr o1 \<Rightarrow> (case router_New (op_ElectionConfig o1) (op_HealthzPort o1) z of (r, z1) \<Rightarrow> (Inr r, z1)))"

definition DefaultRouter ::
  "(kscheme \<Rightarrow> err + 'c) \<Rightarrow> ('c \<times> gostring \<Rightarrow> (gostring, 'c \<times> gostring) gomap \<Rightarrow> kscheme \<Rightarrow> err + 'b) \<Rightarrow> bool \<Rightarrow> gostring \<Rightarrow> kscheme \<Rightarrow> healthz \<Rightarrow> (err + router) \<times> healthz" where
  "DefaultRouter new_config new_runtime dev_mode routerName sch z =
     (case DefaultOptions new_config new_runtime dev_mode routerName sch of
        Inl e \<Rightarrow> (Inl e, z)
      | Inr o1 \<Rightarrow> NewRouter new_config new_runtime (Some o1) z)"

section \<open>Properties\<close>

lemma all_healthy_iff: "all_healthy hs \<longleftrightarrow> (\<forall>h \<in> set hs. snd h)"
  by (induction hs rule: all_healthy.induct) auto

lemma getHealthy_iff:
  "gm_ok (hz_healths z) \<Longrightarrow> getHealthy z \<longleftrightarrow> (\<forall>n b. map_of (hz_healths z) n = Some b \<longrightarrow> b)"
  by (force simp: getHealthy_def all_healthy_iff gm_mem_iff [symmetric])

lemma healths_ok_set: "gm_ok (hz_healths z) \<Longrightarrow> gm_ok (hz_healths (setHealthy n b z))"
  by (simp add: setHealthy_def)

text \<open>The health of a router is lost. A router is unhealthy while its handlers start, but when
  starting them has failed it is marked as healthy all the same; and because every router marks
  its health under the same empty name, a router that finishes its start makes the endpoint
  answer that all is well while another router is still starting.\<close>

theorem health_is_lost:
  assumes "gm_ok (hz_healths z)" and "router_New ec1 p1 z = (r1, z1)" and "router_New ec2 p2 z1 = (r2, z2)"
    and "p1 > 0" and "p2 > 0" and "start w = (Some e, w')" and "\<forall>n b. n \<noteq> [] \<longrightarrow> map_of (hz_healths z) n = Some b \<longrightarrow> b"
  shows "healthz_status (startHandlers_begin r1 z2) = 503 \<and>
    (case startHandlers start r1 (z2, w) of (err, z3, _) \<Rightarrow> err = Some e \<and> healthz_status z3 = 200) \<and>
    (case startHandlers start r2 (startHandlers_begin r1 z2, w) of (err, z3, _) \<Rightarrow> healthz_status z3 = 200)"
proof -
  have r: "ro_name r1 = []" "ro_hasHealthz r1" "ro_name r2 = []" "ro_hasHealthz r2" "hz_healths z2 = hz_healths z"
    using assms(2-5) by (auto simp: router_New_def setPort_def)
  have ok: "gm_ok (hz_healths z2)" using assms(1) r(5) by simp
  have low: "healthz_status (setHealthy [] False x) = 503" if "gm_ok (hz_healths x)" for x
    using getHealthy_iff [OF healths_ok_set [OF that], of "[]" False]
    by (auto simp: healthz_status_def setHealthy_def)
  have high: "healthz_status (setHealthy [] True x) = 200"
    if "gm_ok (hz_healths x)" "\<forall>n b. n \<noteq> [] \<longrightarrow> map_of (hz_healths x) n = Some b \<longrightarrow> b" for x
    using getHealthy_iff [OF healths_ok_set [OF that(1)], of "[]" True] that(2)
    by (auto simp: healthz_status_def setHealthy_def)
  have mid: "gm_ok (hz_healths (setHealthy [] False z2))" using ok by (rule healths_ok_set)
  have mid2: "\<forall>n b. n \<noteq> [] \<longrightarrow> map_of (hz_healths (setHealthy [] False x)) n = Some b \<longrightarrow> b"
    if "\<forall>n b. n \<noteq> [] \<longrightarrow> map_of (hz_healths x) n = Some b \<longrightarrow> b" for x
    using that by (simp add: setHealthy_def)
  have z2: "\<forall>n b. n \<noteq> [] \<longrightarrow> map_of (hz_healths z2) n = Some b \<longrightarrow> b" using assms(7) r(5) by simp
  show ?thesis
    using low [OF ok] high [OF mid mid2 [OF z2]] high [OF healths_ok_set [OF mid] mid2 [OF mid2 [OF z2]]]
    by (simp add: startHandlers_def startHandlers_begin_def r assms(6) Let_def)
qed

lemma health_is_lost_witness:
  "healthz_status (fst (snd (startHandlers (\<lambda>w::nat. (Some (Plain ''no caches''), w))
      (fst (router_New None 8888 init_healthz)) (snd (router_New None 8888 init_healthz), 0)))) = 200"
proof -
  let ?r = "\<lparr>ro_name = [], ro_hasHealthz = True, ro_election = None\<rparr>"
  have 1: "router_New None 8888 init_healthz = (?r, setPort 8888 init_healthz)"
    by (simp add: router_New_def)
  have 2: "router_New None 8888 (setPort 8888 init_healthz) = (?r, setPort 8888 init_healthz)"
    by (simp add: router_New_def setPort_def init_healthz_def)
  from health_is_lost [OF _ 1 2, where start = "\<lambda>w::nat. (Some (Plain ''no caches''), w)" and w = 0]
  show ?thesis unfolding 1 by (auto simp: init_healthz_def split: prod.splits)
qed

text \<open>The options need a scheme although their documentation says that a scheme is ignored when
  a backend is given: without one, completing them fails whatever the backend is. With a
  scheme and a backend, nothing but the port is filled in, and neither a configuration nor a
  runtime is made.\<close>

theorem Options_complete_scheme:
  assumes "op_Scheme o1 = None" and "op_Scheme o2 = Some sch" and "op_Backend o2 = Some b"
  shows "Options_complete nc nr (Some o1) = Inl (Plain ''scheme is required to be set'') \<and>
    Options_complete nc nr (Some o2) =
      Inr (o2\<lparr>op_HealthzPort := if op_HealthzPort o2 = 0 then 8888 else op_HealthzPort o2\<rparr>)"
  using assms by (simp add: Options_complete_def Let_def defaultHealthzPort_def)

end
