(* ===== verification/Conditions.thy ===== *)
theory Conditions
  imports Routes
begin

text \<open>
  The middleware that turns errors into a status condition: pkg/conditions/setter.go.

  Which types have conditions, and how a condition is found in and set in a list of conditions,
  are apimachinery's and the object's: the fields of \<open>conditions_api\<close>. \<open>api_laws\<close> is what
  \<open>meta.SetStatusCondition\<close> and \<open>meta.FindStatusCondition\<close> document.
\<close>

record conditions_api =
  ca_get :: "kobject \<Rightarrow> condition list option"
  ca_put :: "condition list \<Rightarrow> kobject \<Rightarrow> kobject"
  ca_find :: "condition list \<Rightarrow> gostring \<Rightarrow> condition option"
  ca_set :: "condition \<Rightarrow> condition list \<Rightarrow> condition list"

definition same_condition :: "condition \<Rightarrow> condition \<Rightarrow> bool" where
  "same_condition c d \<longleftrightarrow> c_type c = c_type d \<and> c_status c = c_status d \<and> c_reason c = c_reason d \<and>
     c_message c = c_message d \<and> c_observedGeneration c = c_observedGeneration d"

definition api_laws :: "conditions_api \<Rightarrow> bool" where
  "api_laws api \<longleftrightarrow>
     (\<forall>cs ob. ca_get api ob \<noteq> None \<longrightarrow> ca_get api (ca_put api cs ob) = Some cs) \<and>
     (\<forall>c cs. \<exists>d. ca_find api (ca_set api c cs) (c_type c) = Some d \<and> same_condition c d)"

section \<open>The middleware\<close>

fun is_ErrTerminal :: "err \<Rightarrow> bool" where
  "is_ErrTerminal (ErrTerminal e) = True"
| "is_ErrTerminal _ = False"

text \<open>\<open>NewErrTerminal\<close> and the error that is recorded instead of returned.\<close>

definition NewErrTerminal :: "err \<Rightarrow> err" where
  "NewErrTerminal cause = ErrTerminal cause"

definition recorded_error :: "err option \<Rightarrow> err option" where
  "recorded_error e =
     (case e of None \<Rightarrow> None
      | Some x \<Rightarrow> (case find is_ErrTerminal (err_tree x) of
                     Some t \<Rightarrow> Some t
                   | None \<Rightarrow> if IsNotFound e then e else None))"

text \<open>
  \<open>reflect.TypeOf(err).Name()\<close>: the name of the type, which is empty for a pointer. Of the errors of
  the repository only the two lists and the two prefixed ones are values.
\<close>

fun go_type_name :: "err \<Rightarrow> gostring" where
  "go_type_name (Errors es) = ''Errors''"
| "go_type_name (ErrorList es) = ''errorList''"
| "go_type_name (HandlerError n e) = ''handlerError''"
| "go_type_name (PrefixError p e) = ''errorPrefix''"
| "go_type_name e = []"

abbreviation attr_existing :: gostring where "attr_existing \<equiv> ''_errormiddleware''"
abbreviation attr_errored :: gostring where "attr_errored \<equiv> ''_errormiddleware:errored''"

definition resp_attr :: "resp \<Rightarrow> (gostring, attribute) gomap" where
  "resp_attr q = r_attr (response_of q)"

definition errored :: "resp \<Rightarrow> bool" where
  "errored q = (case map_of (resp_attr q) attr_errored of Some (AttrBool v) \<Rightarrow> v | _ \<Rightarrow> False)"

definition conditions_of :: "conditions_api \<Rightarrow> 'w rstate \<Rightarrow> oref \<Rightarrow> condition list" where
  "conditions_of api s x = (case ca_get api (deref s x) of None \<Rightarrow> [] | Some cs \<Rightarrow> cs)"

definition SetStatusCondition :: "conditions_api \<Rightarrow> oref \<Rightarrow> condition \<Rightarrow> 'w rstate \<Rightarrow> 'w rstate" where
  "SetStatusCondition api x c s = assign x (ca_put api (ca_set api c (conditions_of api s x)) (deref s x)) s"

text \<open>The condition there was before the first handler set one, kept in the response.\<close>

definition existing_condition ::
  "conditions_api \<Rightarrow> 'w rstate \<Rightarrow> oref \<Rightarrow> resp \<Rightarrow> condition option \<times> resp" where
  "existing_condition api s x q =
     (case map_of (resp_attr q) attr_existing of
        Some (AttrCondition c) \<Rightarrow> (Some c, q)
      | _ \<Rightarrow> (case ca_find api (conditions_of api s x) ''Controller'' of
                None \<Rightarrow> (None, q)
              | Some c \<Rightarrow> (Some c, resp_SetAttribute attr_existing (AttrCondition c) q)))"

definition set_conditions ::
  "conditions_api \<Rightarrow> oref \<Rightarrow> condition option \<Rightarrow> condition \<Rightarrow> 'w rstate \<Rightarrow> 'w rstate" where
  "set_conditions api x existing c s =
     (let s1 = (case existing of None \<Rightarrow> s | Some c0 \<Rightarrow> SetStatusCondition api x c0 s)
      in SetStatusCondition api x c s1)"

definition ErrorMiddleware :: "conditions_api \<Rightarrow> 'w handler \<Rightarrow> 'w handler" where
  "ErrorMiddleware api h req resp s =
     (case rq_object req of
        None \<Rightarrow> h req resp s
      | Some x \<Rightarrow>
        if ca_get api (deref s x) = None then h req resp s
        else (case h req resp s of (e, q, s1) \<Rightarrow>
          (let logErr = recorded_error e
           in case existing_condition api s1 x q of (existing, q1) \<Rightarrow>
             if errored q1 then (if logErr \<noteq> None then None else e, q1, s1)
             else (case logErr of
                     Some le \<Rightarrow>
                       (None,
                        resp_DisablePrune (resp_SetAttribute attr_errored (AttrBool True) q1),
                        set_conditions api x existing
                          \<lparr>c_type = ''Controller'', c_status = ''False'', c_observedGeneration = k_generation (deref s1 x),
                           c_lastTransitionTime = 0, c_reason = go_type_name le, c_message = error_string le\<rparr> s1)
                   | None \<Rightarrow>
                     if e = None
                     then (None, q1,
                           set_conditions api x existing
                             \<lparr>c_type = ''Controller'', c_status = ''True'', c_observedGeneration = k_generation (deref s1 x),
                              c_lastTransitionTime = 0, c_reason = [], c_message = []\<rparr> s1)
                     else (e, q1, s1)))))"

section \<open>Lemmas\<close>

definition no_prune :: "resp \<Rightarrow> bool" where
  "no_prune q = r_noPrune (response_of q)"

lemma resp_attr_SetAttribute [simp]: "resp_attr (resp_SetAttribute k v q) = AList.update k v (resp_attr q)"
  by (cases q) (simp_all add: resp_attr_def resp_SetAttribute_def response_SetAttribute_def wrapper_SetAttribute_def)

lemma resp_attr_DisablePrune [simp]: "resp_attr (resp_DisablePrune q) = resp_attr q"
  by (cases q) (simp_all add: resp_attr_def resp_DisablePrune_def response_DisablePrune_def wrapper_DisablePrune_def)

lemma no_prune_simps [simp]:
  "no_prune (resp_DisablePrune q)" "no_prune (resp_SetAttribute k v q) = no_prune q"
  by (cases q; simp add: no_prune_def resp_DisablePrune_def resp_SetAttribute_def response_DisablePrune_def
        wrapper_DisablePrune_def response_SetAttribute_def wrapper_SetAttribute_def)+

lemma errored_existing [simp]:
  "errored (resp_SetAttribute attr_existing v q) = errored q"
  "errored (resp_SetAttribute attr_errored (AttrBool True) q)"
  "errored (resp_DisablePrune q) = errored q"
  by (simp_all add: errored_def)

lemma objects_SetAttribute [simp]:
  "r_objects (response_of (resp_SetAttribute k v q)) = r_objects (response_of q)"
  "r_objects (response_of (resp_DisablePrune q)) = r_objects (response_of q)"
  by (cases q; simp add: resp_DisablePrune_def resp_SetAttribute_def response_DisablePrune_def
        wrapper_DisablePrune_def response_SetAttribute_def wrapper_SetAttribute_def)+

lemma existing_condition_keeps:
  assumes "existing_condition api s x q = (c, q1)"
  shows "errored q1 = errored q" "no_prune q1 = no_prune q"
    "r_objects (response_of q1) = r_objects (response_of q)"
  using assms by (auto simp: existing_condition_def split: option.splits attribute.splits)

lemma deref_SetStatusCondition [simp]:
  "deref (SetStatusCondition api x c s) y =
     (if y = x then ca_put api (ca_set api c (conditions_of api s x)) (deref s x) else deref s y)"
  by (simp add: SetStatusCondition_def assign_def deref_def)

lemma set_conditions_found:
  assumes "api_laws api" and "ca_get api (deref s x) \<noteq> None"
  shows "\<exists>d. ca_find api (conditions_of api (set_conditions api x existing c s) x) (c_type c) = Some d \<and>
     same_condition c d"
proof -
  define s1 where "s1 = (case existing of None \<Rightarrow> s | Some c0 \<Rightarrow> SetStatusCondition api x c0 s)"
  have "ca_get api (deref s1 x) \<noteq> None"
    using assms unfolding s1_def api_laws_def by (auto split: option.splits)
  then have "conditions_of api (SetStatusCondition api x c s1) x = ca_set api c (conditions_of api s1 x)"
    using assms(1) by (simp add: conditions_of_def [of api "SetStatusCondition api x c s1"] api_laws_def)
  then show ?thesis
    using assms(1) by (simp add: set_conditions_def s1_def Let_def api_laws_def)
qed

lemma recorded_error_None: "recorded_error None = None"
  by (simp add: recorded_error_def)

lemma recorded_error_terminal: "recorded_error (Some (NewErrTerminal e)) = Some (ErrTerminal e)"
  by (simp add: recorded_error_def NewErrTerminal_def)

lemma recorded_error_reason_empty:
  assumes "e \<noteq> None" and "recorded_error e = Some (ErrTerminal c)"
  shows "go_type_name (the (recorded_error e)) = []"
  using assms by simp

text \<open>The three outcomes of the middleware on an object with conditions.\<close>

lemma middleware_sticky:
  assumes "rq_object req = Some x" and "ca_get api (deref s x) \<noteq> None" and "h req p s = (e, q, s1)" and "errored q"
  shows "\<exists>q1. ErrorMiddleware api h req p s = (if recorded_error e \<noteq> None then None else e, q1, s1) \<and>
    errored q1 \<and> no_prune q1 = no_prune q \<and> r_objects (response_of q1) = r_objects (response_of q)"
proof -
  obtain c q1 where ex: "existing_condition api s1 x q = (c, q1)" by (cases "existing_condition api s1 x q")
  from existing_condition_keeps [OF ex] assms show ?thesis
    by (simp add: ErrorMiddleware_def ex Let_def del: not_None_eq)
qed

lemma middleware_records:
  assumes "api_laws api" and "rq_object req = Some x" and "ca_get api (deref s x) \<noteq> None"
    and "h req p s = (e, q, s1)" and "\<not> errored q" and "recorded_error e = Some le" and "ca_get api (deref s1 x) \<noteq> None"
  shows "\<exists>q1 s2 d. ErrorMiddleware api h req p s = (None, q1, s2) \<and> errored q1 \<and> no_prune q1 \<and>
    r_objects (response_of q1) = r_objects (response_of q) \<and>
    ca_get api (deref s2 x) \<noteq> None \<and>
    ca_find api (conditions_of api s2 x) ''Controller'' = Some d \<and> c_status d = ''False'' \<and>
    c_message d = error_string le \<and> c_reason d = go_type_name le \<and>
    c_observedGeneration d = k_generation (deref s1 x)"
proof -
  obtain c q1 where ex: "existing_condition api s1 x q = (c, q1)" by (cases "existing_condition api s1 x q")
  define d0 where "d0 = \<lparr>c_type = ''Controller'', c_status = ''False'', c_observedGeneration = k_generation (deref s1 x),
      c_lastTransitionTime = 0, c_reason = go_type_name le, c_message = error_string le\<rparr>"
  from set_conditions_found [OF assms(1,7), of c d0] obtain d
    where d: "ca_find api (conditions_of api (set_conditions api x c d0 s1) x) ''Controller'' = Some d" "same_condition d0 d"
    by (auto simp: d0_def)
  have get: "ca_get api (deref (set_conditions api x c d0 s1) x) \<noteq> None"
    using assms(1,7) by (auto simp: set_conditions_def Let_def api_laws_def split: option.splits)
  have mw: "ErrorMiddleware api h req p s =
      (None, resp_DisablePrune (resp_SetAttribute attr_errored (AttrBool True) q1), set_conditions api x c d0 s1)"
    using assms existing_condition_keeps [OF ex]
    by (auto simp add: ErrorMiddleware_def ex Let_def d0_def)
  show ?thesis
    unfolding mw using d get existing_condition_keeps [OF ex] by (auto simp: same_condition_def d0_def)
qed

lemma middleware_succeeds:
  assumes "api_laws api" and "rq_object req = Some x" and "ca_get api (deref s x) \<noteq> None"
    and "h req p s = (None, q, s1)" and "\<not> errored q" and "ca_get api (deref s1 x) \<noteq> None"
  shows "\<exists>q1 s2 d. ErrorMiddleware api h req p s = (None, q1, s2) \<and> no_prune q1 = no_prune q \<and>
    ca_find api (conditions_of api s2 x) ''Controller'' = Some d \<and> c_status d = ''True'' \<and>
    c_message d = [] \<and> c_observedGeneration d = k_generation (deref s1 x)"
proof -
  obtain c q1 where ex: "existing_condition api s1 x q = (c, q1)" by (cases "existing_condition api s1 x q")
  define d0 where "d0 = \<lparr>c_type = ''Controller'', c_status = ''True'', c_observedGeneration = k_generation (deref s1 x),
      c_lastTransitionTime = 0, c_reason = [], c_message = []\<rparr>"
  from set_conditions_found [OF assms(1,6), of c d0] obtain d
    where d: "ca_find api (conditions_of api (set_conditions api x c d0 s1) x) ''Controller'' = Some d" "same_condition d0 d"
    by (auto simp: d0_def)
  have mw: "ErrorMiddleware api h req p s = (None, q1, set_conditions api x c d0 s1)"
    using assms existing_condition_keeps [OF ex]
    by (auto simp add: ErrorMiddleware_def ex Let_def d0_def recorded_error_None)
  show ?thesis
    unfolding mw using d existing_condition_keeps [OF ex] by (auto simp: same_condition_def d0_def)
qed


section \<open>Properties\<close>

text \<open>
  What is asked of the handlers after the one that failed: they leave the conditions of the object
  and the attributes of the middleware alone, and give the response no objects.
\<close>

definition polite :: "conditions_api \<Rightarrow> oref \<Rightarrow> 'w handler \<Rightarrow> bool" where
  "polite api x h \<longleftrightarrow>
     (\<forall>req p s e q s1. h req p s = (e, q, s1) \<longrightarrow>
        ca_get api (deref s1 x) = ca_get api (deref s x) \<and> errored q = errored p \<and>
        (no_prune p \<longrightarrow> no_prune q) \<and> r_objects (response_of q) = r_objects (response_of p))"

lemma take_request_object_Nil [simp]: "take_request_object req s [] = (req, [])"
  by (simp add: take_request_object_def)

lemma response_of_objects_Nil: "r_objects (response_of q) = [] \<Longrightarrow> (response_of q)\<lparr>r_objects := []\<rparr> = response_of q"
  by simp

lemma no_prune_Resp: "no_prune (Resp (response_of q)) = no_prune q"
  by (simp add: no_prune_def)

lemma errored_Resp: "errored (Resp (response_of q)) = errored q"
  by (simp add: errored_def resp_attr_def)

lemma polite_after_error:
  assumes "\<forall>h \<in> set hs. polite api x h" and "rq_object req = Some x" and "ca_get api (deref s x) = Some cs"
    and "errored (Resp r)" and "r_noPrune r" and "r_objects r = []"
  shows "\<exists>errs r' s'. handle_each (map (ErrorMiddleware api) hs) req r s = (errs, r', s') \<and>
    ca_get api (deref s' x) = Some cs \<and> r_noPrune r' \<and> (\<forall>e \<in> set errs. recorded_error e = None)"
  using assms
proof (induction hs arbitrary: r s)
  case (Cons h hs)
  obtain e q s1 where h: "h req (Resp r) s = (e, q, s1)" using prod_cases3 by blast
  from Cons.prems h have keep: "ca_get api (deref s1 x) = Some cs" "errored q" "no_prune q"
      "r_objects (response_of q) = []"
    unfolding polite_def by (auto simp: no_prune_def)
  obtain q1 where mw: "ErrorMiddleware api h req (Resp r) s = (if recorded_error e \<noteq> None then None else e, q1, s1)"
      "errored q1" "no_prune q1 = no_prune q" "r_objects (response_of q1) = r_objects (response_of q)"
    using middleware_sticky [where h = h and req = req and p = "Resp r" and s = s, OF Cons.prems(2) _ h keep(2)] Cons.prems(3) by (metis option.distinct(1))
  have "\<exists>errs r' s'. handle_each (map (ErrorMiddleware api) hs) req (response_of q1) s1 = (errs, r', s') \<and>
      ca_get api (deref s' x) = Some cs \<and> r_noPrune r' \<and> (\<forall>e \<in> set errs. recorded_error e = None)"
    by (rule Cons.IH)
      (use Cons.prems keep mw in \<open>auto simp: errored_Resp no_prune_def\<close>)
  moreover have "recorded_error (if recorded_error e \<noteq> None then None else e) = None"
    by (auto simp: recorded_error_None)
  ultimately show ?case
    using mw keep(4) by (auto simp: response_of_objects_Nil)
qed simp


text \<open>
  The reason of the condition is the name of the type of the error, and the errors the middleware
  records for itself are pointers, whose types have no name.
\<close>

lemma reason_always_empty:
  assumes "find is_ErrTerminal (err_tree e) = Some t"
  shows "recorded_error (Some e) = Some t \<and> go_type_name t = []"
proof -
  have "is_ErrTerminal t" using assms by (auto simp: find_Some_iff)
  then have "go_type_name t = []" by (cases t) auto
  with assms show ?thesis by (simp add: recorded_error_def)
qed

text \<open>
  An object whose status is the list of its conditions, a terminal error and a later handler that
  does nothing.
\<close>

fun encode_condition :: "condition \<Rightarrow> json" where
  "encode_condition c = JArray [JString (c_type c), JString (c_status c), JInt (c_observedGeneration c),
     JInt (int (c_lastTransitionTime c)), JString (c_reason c), JString (c_message c)]"

fun json_text :: "json \<Rightarrow> gostring" where
  "json_text (JString t) = t"
| "json_text v = []"

fun json_int :: "json \<Rightarrow> int" where
  "json_int (JInt n) = n"
| "json_int v = 0"

fun decode_condition :: "json \<Rightarrow> condition" where
  "decode_condition (JArray vs) = \<lparr>c_type = json_text (vs ! 0), c_status = json_text (vs ! 1),
     c_observedGeneration = json_int (vs ! 2), c_lastTransitionTime = nat (json_int (vs ! 3)),
     c_reason = json_text (vs ! 4), c_message = json_text (vs ! 5)\<rparr>"
| "decode_condition v = \<lparr>c_type = [], c_status = [], c_observedGeneration = 0, c_lastTransitionTime = 0,
     c_reason = [], c_message = []\<rparr>"

definition demo_api :: conditions_api where
  "demo_api = \<lparr>
     ca_get = (\<lambda>ob. case k_status ob of Some (JArray vs) \<Rightarrow> Some (map decode_condition vs) | _ \<Rightarrow> None),
     ca_put = (\<lambda>cs ob. ob\<lparr>k_status := Some (JArray (map encode_condition cs))\<rparr>),
     ca_find = (\<lambda>cs t. find (\<lambda>c. c_type c = t) cs),
     ca_set = (\<lambda>c cs. c # filter (\<lambda>d. c_type d \<noteq> c_type c) cs)\<rparr>"

definition demo_object :: kobject where
  "demo_object = (zero_object ''*v1.App'' (GVK [] ''v1'' ''App''))\<lparr>k_status := Some (JArray []), k_generation := 4\<rparr>"

definition demo_state :: "nat rstate" where
  "demo_state = \<lparr>rs_heap = (\<lambda>_. demo_object), rs_next = 1, rs_matchers = [], rs_gvks = [], rs_watching = [], rs_world = 0\<rparr>"

definition demo_request :: request where
  "demo_request = \<lparr>rq_object = Some 0, rq_gvk = GVK [] ''v1'' ''App'', rq_namespace = [], rq_name = [], rq_key = [],
     rq_fromTrigger = False\<rparr>"

definition broken :: "nat handler" where
  "broken req p s = (Some (NewErrTerminal (Plain ''no such plan'')), p, s)"

definition idle :: "nat handler" where
  "idle req p s = (None, p, s)"

lemma demo_api_laws: "api_laws demo_api"
proof -
  have "decode_condition (encode_condition c) = c" for c by simp
  then have "map decode_condition (map encode_condition cs) = cs" for cs by (simp add: o_def del: encode_condition.simps)
  then show ?thesis
    by (simp add: api_laws_def demo_api_def same_condition_def del: map_map)
qed


end
