(* ===== verification/Webhook.thy ===== *)
theory Webhook
  imports Kube
begin

text \<open>
  Admission webhooks: the routes of pkg/webhook/match.go and the router of pkg/webhook/router.go.

  A router keeps pointers to its routes, and the methods that describe a route write through
  them; a router is the list of its routes and a pointer to a route is its index. \<open>encoding/json\<close>,
  the difference of two documents and the HTTP server are outside: the review is given as the
  decoder left it, with its error, and what is written is an \<open>http_answer\<close>.
\<close>

section \<open>Requests and responses\<close>

record gvr =
  gvr_group :: gostring
  gvr_version :: gostring
  gvr_resource :: gostring

record admission_request =
  ar_UID :: gostring
  ar_Kind :: gvk
  ar_RequestKind :: "gvk option"
  ar_RequestResource :: "gvr option"
  ar_SubResource :: gostring
  ar_Name :: gostring
  ar_Namespace :: gostring
  ar_Operation :: gostring
  ar_DryRun :: "bool option"
  ar_Object :: gostring
  ar_OldObject :: gostring

record admission_response =
  as_UID :: gostring
  as_Allowed :: bool
  as_Result :: "err option"
  as_Patch :: gostring
  as_PatchType :: "gostring option"

record review =
  rv_Request :: "admission_request option"
  rv_Response :: "admission_response option"

definition response_for :: "admission_request \<Rightarrow> admission_response" where
  "response_for req = \<lparr>as_UID = ar_UID req, as_Allowed = False, as_Result = None, as_Patch = [], as_PatchType = None\<rparr>"

definition DecodeObject :: "(gostring \<Rightarrow> err + 'o) \<Rightarrow> admission_request \<Rightarrow> err + 'o" where
  "DecodeObject unmarshal req = unmarshal (ar_Object req)"

definition DecodeOldObject :: "(gostring \<Rightarrow> err + 'o) \<Rightarrow> admission_request \<Rightarrow> err + 'o" where
  "DecodeOldObject unmarshal req = unmarshal (ar_OldObject req)"

text \<open>
  \<open>CreatePatch\<close>: \<open>marshal\<close> encodes an object, \<open>diff\<close> is \<open>jsonpatch.CreatePatch\<close> and \<open>encode\<close> encodes
  a patch.
\<close>

definition wh_CreatePatch ::
  "('o \<Rightarrow> err + gostring) \<Rightarrow> (gostring \<Rightarrow> gostring \<Rightarrow> err + 'p) \<Rightarrow> ('p \<Rightarrow> err + gostring) \<Rightarrow>
     admission_request \<Rightarrow> 'o \<Rightarrow> admission_response \<Rightarrow> err option \<times> admission_response" where
  "wh_CreatePatch marshal diff encode req newObj r =
     (if length (as_Patch r) > 0
      then (Some (Plain ''response patch has already been already been assigned''), r)
      else (case marshal newObj of
              Inl e \<Rightarrow> (Some e, r)
            | Inr newBytes \<Rightarrow>
              (case diff (ar_Object req) newBytes of
                 Inl e \<Rightarrow> (Some e, r)
               | Inr patch \<Rightarrow>
                 (case encode patch of
                    Inl e \<Rightarrow> (Some e, r)
                  | Inr patchData \<Rightarrow> (None, r\<lparr>as_Patch := patchData, as_PatchType := Some ''JSONPatch''\<rparr>)))))"

section \<open>Routes\<close>

type_synonym 'w wh_handler =
  "admission_response \<Rightarrow> admission_request \<Rightarrow> 'w \<Rightarrow> err option \<times> admission_response \<times> 'w"

record 'w RouteMatch =
  rm_handler :: "'w wh_handler option"
  rm_kind :: gostring
  rm_resource :: gostring
  rm_version :: gostring
  rm_subResource :: gostring
  rm_dryRun :: "bool option"
  rm_group :: gostring
  rm_name :: gostring
  rm_namespace :: gostring
  rm_operation :: gostring

definition new_RouteMatch :: "'w RouteMatch" where
  "new_RouteMatch = \<lparr>rm_handler = None, rm_kind = [], rm_resource = [], rm_version = [], rm_subResource = [],
     rm_dryRun = None, rm_group = [], rm_name = [], rm_namespace = [], rm_operation = []\<rparr>"

definition checkString :: "gostring \<Rightarrow> gostring \<Rightarrow> bool" where
  "checkString expected actual = (if expected = [] then True else expected = actual)"

definition checkBool :: "bool option \<Rightarrow> bool option \<Rightarrow> bool" where
  "checkBool expected actual =
     (case expected of None \<Rightarrow> True
      | Some x \<Rightarrow> (case actual of None \<Rightarrow> False | Some y \<Rightarrow> x = y))"

text \<open>The group and the version of the resource, when there is one, replace those of the kind.\<close>

definition rm_matches :: "'w RouteMatch \<Rightarrow> admission_request \<Rightarrow> bool" where
  "rm_matches r req =
     (let (group, version, kind) = (case ar_RequestKind req of None \<Rightarrow> ([], [], [])
             | Some g \<Rightarrow> (gvk_group g, gvk_version g, gvk_kind g));
          (group, version, resource) = (case ar_RequestResource req of None \<Rightarrow> (group, version, [])
             | Some g \<Rightarrow> (gvr_group g, gvr_version g, gvr_resource g))
      in checkString (rm_kind r) kind \<and>
         checkString (rm_resource r) resource \<and>
         checkString (rm_subResource r) (ar_SubResource req) \<and>
         checkString (rm_version r) version \<and>
         checkString (rm_group r) group \<and>
         checkString (rm_name r) (ar_Name req) \<and>
         checkString (rm_namespace r) (ar_Namespace req) \<and>
         checkString (rm_operation r) (ar_Operation req) \<and>
         checkBool (rm_dryRun r) (ar_DryRun req))"

definition rm_admit ::
  "'w RouteMatch \<Rightarrow> admission_response \<Rightarrow> admission_request \<Rightarrow> 'w \<Rightarrow> err option \<times> admission_response \<times> 'w" where
  "rm_admit r response request w =
     (case rm_handler r of Some h \<Rightarrow> h response request w | None \<Rightarrow> (None, response, w))"

definition rm_DryRun :: "bool \<Rightarrow> 'w RouteMatch \<Rightarrow> 'w RouteMatch" where "rm_DryRun v r = r\<lparr>rm_dryRun := Some v\<rparr>"
definition rm_Group :: "gostring \<Rightarrow> 'w RouteMatch \<Rightarrow> 'w RouteMatch" where "rm_Group v r = r\<lparr>rm_group := v\<rparr>"
definition rm_Handle :: "'w wh_handler \<Rightarrow> 'w RouteMatch \<Rightarrow> 'w RouteMatch" where "rm_Handle h r = r\<lparr>rm_handler := Some h\<rparr>"
definition rm_Kind :: "gostring \<Rightarrow> 'w RouteMatch \<Rightarrow> 'w RouteMatch" where "rm_Kind v r = r\<lparr>rm_kind := v\<rparr>"
definition rm_Name :: "gostring \<Rightarrow> 'w RouteMatch \<Rightarrow> 'w RouteMatch" where "rm_Name v r = r\<lparr>rm_name := v\<rparr>"
definition rm_Namespace :: "gostring \<Rightarrow> 'w RouteMatch \<Rightarrow> 'w RouteMatch" where "rm_Namespace v r = r\<lparr>rm_namespace := v\<rparr>"
definition rm_Operation :: "gostring \<Rightarrow> 'w RouteMatch \<Rightarrow> 'w RouteMatch" where "rm_Operation v r = r\<lparr>rm_operation := v\<rparr>"
definition rm_Resource :: "gostring \<Rightarrow> 'w RouteMatch \<Rightarrow> 'w RouteMatch" where "rm_Resource v r = r\<lparr>rm_resource := v\<rparr>"
definition rm_SubResource :: "gostring \<Rightarrow> 'w RouteMatch \<Rightarrow> 'w RouteMatch" where "rm_SubResource v r = r\<lparr>rm_subResource := v\<rparr>"
definition rm_Version :: "gostring \<Rightarrow> 'w RouteMatch \<Rightarrow> 'w RouteMatch" where "rm_Version v r = r\<lparr>rm_version := v\<rparr>"

section \<open>The router\<close>

type_synonym 'w wh_router = "'w RouteMatch list"

definition wh_next :: "'w wh_router \<Rightarrow> nat \<times> 'w wh_router" where
  "wh_next r = (length r, r @ [new_RouteMatch])"

text \<open>A method of a route, called through the pointer \<open>i\<close>.\<close>

definition on_route :: "nat \<Rightarrow> ('w RouteMatch \<Rightarrow> 'w RouteMatch) \<Rightarrow> 'w wh_router \<Rightarrow> 'w wh_router" where
  "on_route i f r = r[i := f (r ! i)]"

text \<open>
  The router's methods of the same names each make a route and call the route's method on it;
  they answer the pointer to the new route.
\<close>

definition wh_wrap :: "('w RouteMatch \<Rightarrow> 'w RouteMatch) \<Rightarrow> 'w wh_router \<Rightarrow> nat \<times> 'w wh_router" where
  "wh_wrap f r = (case wh_next r of (i, r1) \<Rightarrow> (i, on_route i f r1))"

definition resourceString :: "gostring \<Rightarrow> gostring \<Rightarrow> gostring" where
  "resourceString ns name = (if ns = [] then name else ns @ ''/'' @ name)"

text \<open>\<open>kind_String\<close> is \<open>GroupVersionKind.String\<close>.\<close>

fun wh_admit ::
  "(gvk \<Rightarrow> gostring) \<Rightarrow> 'w wh_router \<Rightarrow> admission_response \<Rightarrow> admission_request \<Rightarrow> 'w \<Rightarrow>
     err option \<times> admission_response \<times> 'w" where
  "wh_admit kind_String [] response request w =
     (Some (Plain (''no route match found for '' @ ar_Operation request @ '' '' @ kind_String (ar_Kind request) @ '' '' @
        resourceString (ar_Namespace request) (ar_Name request))), response, w)"
| "wh_admit kind_String (m # ms) response request w =
     (if rm_matches m request then rm_admit m response request w
      else wh_admit kind_String ms response request w)"

text \<open>
  \<open>ServerPanic\<close> is a nil dereference, which the HTTP server turns into a closed connection. The
  handler writes to the response that the review points to.
\<close>

datatype http_answer = HttpError int gostring | Answer review | ServerPanic

definition sendError :: "review option \<Rightarrow> err \<Rightarrow> http_answer" where
  "sendError rev_opt e =
     (case rev_opt of
        None \<Rightarrow> HttpError 500 (error_string e)
      | Some rv \<Rightarrow>
        if rv_Request rv = None then HttpError 500 (error_string e)
        else (case rv_Response rv of
                None \<Rightarrow> ServerPanic
              | Some r \<Rightarrow> Answer (rv\<lparr>rv_Response := Some (r\<lparr>as_Allowed := False, as_Result := Some e\<rparr>)\<rparr>)))"

definition ServeHTTP ::
  "(gvk \<Rightarrow> gostring) \<Rightarrow> 'w wh_router \<Rightarrow> err option \<times> review \<Rightarrow> 'w \<Rightarrow> http_answer \<times> 'w" where
  "ServeHTTP kind_String routes decoded w =
     (case decoded of
        (Some e, rv) \<Rightarrow> (sendError (Some rv) e, w)
      | (None, rv) \<Rightarrow>
        (case rv_Request rv of
           None \<Rightarrow> (sendError (Some rv) (Plain ''request is not set''), w)
         | Some request \<Rightarrow>
           (case wh_admit kind_String routes (response_for request) request w of
              (e, response, w1) \<Rightarrow>
                (let rv1 = rv\<lparr>rv_Response := Some response\<rparr>
                 in case e of Some e \<Rightarrow> (sendError (Some rv1) e, w1) | None \<Rightarrow> (Answer rv1, w1)))))"

section \<open>Lemmas\<close>

text \<open>What a router decides: the first of its routes that matches.\<close>

definition first_match :: "'w wh_router \<Rightarrow> admission_request \<Rightarrow> nat \<Rightarrow> bool" where
  "first_match routes req i \<longleftrightarrow>
     i < length routes \<and> rm_matches (routes ! i) req \<and> (\<forall>j < i. \<not> rm_matches (routes ! j) req)"

lemma first_match_Cons:
  "first_match (m # ms) req i \<longleftrightarrow>
     (if rm_matches m req then i = 0 else \<exists>j. i = Suc j \<and> first_match ms req j)"
  unfolding first_match_def by (cases i) (auto simp: less_Suc_eq_0_disj)

lemma first_match_unique: "first_match routes req i \<Longrightarrow> first_match routes req j \<Longrightarrow> i = j"
  unfolding first_match_def by (metis nat_neq_iff)

lemma wh_admit_first:
  "first_match routes req i \<Longrightarrow> wh_admit ks routes r req w = rm_admit (routes ! i) r req w"
  by (induction routes arbitrary: i) (auto simp: first_match_Cons first_match_def [of "[]"] split: if_splits)

lemma wh_admit_none:
  "(\<forall>m \<in> set routes. \<not> rm_matches m req) \<Longrightarrow>
     \<exists>msg. wh_admit ks routes r req w = (Some (Plain msg), r, w)"
  by (induction routes) auto

lemma match_cases:
  obtains i where "first_match routes req i" | "\<forall>m \<in> set routes. \<not> rm_matches m req"
proof (cases "\<exists>m \<in> set routes. rm_matches m req")
  case True
  then obtain i where "i < length routes \<and> rm_matches (routes ! i) req" by (auto simp: in_set_conv_nth)
  then have "first_match routes req (LEAST i. i < length routes \<and> rm_matches (routes ! i) req)"
    unfolding first_match_def by (metis (mono_tags, lifting) LeastI less_trans not_less_Least)
  then show ?thesis by (rule that(1))
qed (use that(2) in blast)

lemma wh_admit_success:
  assumes "wh_admit ks routes r req w = (None, r', w')"
  obtains i where "first_match routes req i" "rm_admit (routes ! i) r req w = (None, r', w')"
  using assms by (cases rule: match_cases [of routes req])
    (auto simp: wh_admit_first dest!: wh_admit_none [where ks = ks and r = r and w = w])

lemma sendError_not_allowed:
  "sendError x e = Answer rv \<Longrightarrow> rv_Response rv = Some r \<Longrightarrow> \<not> as_Allowed r"
  by (auto simp: sendError_def split: option.splits if_splits)

text \<open>A chain of methods after the first adds one route, at the end.\<close>

lemma on_route_new: "on_route (length r) f (r @ [m]) = r @ [f m]"
  by (simp add: on_route_def)

lemma wh_wrap_appends: "wh_wrap f r = (length r, r @ [f new_RouteMatch])"
  by (simp add: wh_wrap_def wh_next_def on_route_new)

lemma chain_appends: "fold (on_route (length r)) fs (r @ [m]) = r @ [fold (\<lambda>f. f) fs m]"
  by (induction fs arbitrary: m) (auto simp: on_route_new)

lemma first_match_append: "first_match routes req i \<Longrightarrow> first_match (routes @ new) req i"
  by (auto simp: first_match_def nth_append)

lemma first_match_last:
  "\<forall>m \<in> set routes. \<not> rm_matches m req \<Longrightarrow> rm_matches m req \<Longrightarrow> first_match (routes @ [m]) req (length routes)"
  by (auto simp: first_match_def nth_append)

section \<open>Properties\<close>

text \<open>C21: nothing is admitted but by the first matching route. The answer to a review allows the
  request only when the review was decoded and has a request, some route matches it, and the
  handler of the first route that does has returned without an error and allowed it; the answer
  is then what that handler left. Conversely such a handler's response is the answer.\<close>

theorem ServeHTTP_admits:
  assumes "ServeHTTP ks routes (e, review) w = (ans, w')"
  shows "(\<exists>rv r. ans = Answer rv \<and> rv_Response rv = Some r \<and> as_Allowed r) \<longleftrightarrow>
    e = None \<and>
    (\<exists>req i h r. rv_Request review = Some req \<and> first_match routes req i \<and> rm_handler (routes ! i) = Some h \<and>
       h (response_for req) req w = (None, r, w') \<and> as_Allowed r \<and>
       ans = Answer (review\<lparr>rv_Response := Some r\<rparr>))"
    (is "?admitted \<longleftrightarrow> ?decided")
proof
  assume ?admitted
  then obtain rv r where a: "ans = Answer rv" "rv_Response rv = Some r" "as_Allowed r" by blast
  have e: "e = None" using assms a sendError_not_allowed by (auto simp: ServeHTTP_def split: option.splits)
  obtain req where req: "rv_Request review = Some req"
    using assms a e sendError_not_allowed by (auto simp: ServeHTTP_def split: option.splits)
  obtain e1 r1 w1 where ad: "wh_admit ks routes (response_for req) req w = (e1, r1, w1)"
    using prod_cases3 by blast
  have ok: "e1 = None" "ans = Answer (review\<lparr>rv_Response := Some r1\<rparr>)" "w1 = w'"
    using assms a e req ad sendError_not_allowed by (auto simp: ServeHTTP_def Let_def split: option.splits)
  with a have r1: "as_Allowed r1" by (auto simp del: review.update_convs)
  obtain i where i: "first_match routes req i" "rm_admit (routes ! i) (response_for req) req w = (None, r1, w')"
    using wh_admit_success ad ok by metis
  obtain h where h: "rm_handler (routes ! i) = Some h"
    using i(2) r1 by (cases "rm_handler (routes ! i)") (auto simp: rm_admit_def response_for_def)
  with i(2) have "h (response_for req) req w = (None, r1, w')" by (simp add: rm_admit_def)
  with e req i(1) h r1 ok(2) show ?decided by blast
next
  assume ?decided
  then show ?admitted by auto
qed

text \<open>A failure never admits, but one of them panics. When the review cannot be decoded, has no
  request, is matched by no route or its handler gives an error, the answer is status 500 or a
  review that denies the request and carries the error, under the UID of the request unless the
  handler changed it. The exception is a review whose decoding fails after its request has been
  read and that has no response: denying it writes through a nil pointer.\<close>

theorem ServeHTTP_refuses:
  "ServeHTTP ks routes (Some e, \<lparr>rv_Request = None, rv_Response = x\<rparr>) w = (HttpError 500 (error_string e), w) \<and>
   ServeHTTP ks routes (Some e, \<lparr>rv_Request = Some req, rv_Response = None\<rparr>) w = (ServerPanic, w) \<and>
   ServeHTTP ks routes (None, \<lparr>rv_Request = None, rv_Response = x\<rparr>) w = (HttpError 500 ''request is not set'', w) \<and>
   (case wh_admit ks routes (response_for req) req w of
      (None, r, w1) \<Rightarrow> ServeHTTP ks routes (None, \<lparr>rv_Request = Some req, rv_Response = x\<rparr>) w =
                         (Answer \<lparr>rv_Request = Some req, rv_Response = Some r\<rparr>, w1)
    | (Some e, r, w1) \<Rightarrow> ServeHTTP ks routes (None, \<lparr>rv_Request = Some req, rv_Response = x\<rparr>) w =
        (Answer \<lparr>rv_Request = Some req, rv_Response = Some (r\<lparr>as_Allowed := False, as_Result := Some e\<rparr>)\<rparr>, w1))"
  by (auto simp: ServeHTTP_def sendError_def Let_def split: option.splits prod.splits)

text \<open>A route that is added is asked last. After \<open>router.f().g()...Handle(h)\<close>, a request that an
  earlier route matches is decided as before, and one that no earlier route matches is decided
  by \<open>h\<close> when it meets every condition of the chain.\<close>

theorem added_route_decides:
  assumes "wh_wrap f routes = (p, r1)" and "routes' = fold (on_route p) (gs @ [rm_Handle h]) r1"
  shows "(\<exists>i. first_match routes req i) \<and> wh_admit ks routes' resp req w = wh_admit ks routes resp req w \<or>
    (\<forall>m \<in> set routes. \<not> rm_matches m req) \<and>
    (if rm_matches (rm_Handle h (fold (\<lambda>g. g) gs (f new_RouteMatch))) req
     then wh_admit ks routes' resp req w = h resp req w
     else \<exists>msg. wh_admit ks routes' resp req w = (Some (Plain msg), resp, w))"
proof -
  let ?m = "rm_Handle h (fold (\<lambda>g. g) gs (f new_RouteMatch))"
  have r': "routes' = routes @ [?m]"
    using assms by (auto simp: wh_wrap_appends chain_appends simp del: fold_append)
       (simp add: chain_appends on_route_new)
  show ?thesis
  proof (cases rule: match_cases [of routes req])
    case (1 i)
    then have "wh_admit ks routes' resp req w = wh_admit ks routes resp req w"
      unfolding r' using wh_admit_first first_match_append
      by (metis first_match_def nth_append)
    with 1 show ?thesis by blast
  next
    case 2
    have "wh_admit ks routes' resp req w = h resp req w" if "rm_matches ?m req"
      unfolding r' using wh_admit_first [OF first_match_last [OF 2 that]] by (simp add: rm_admit_def rm_Handle_def)
    moreover have "\<exists>msg. wh_admit ks routes' resp req w = (Some (Plain msg), resp, w)" if "\<not> rm_matches ?m req"
      unfolding r' by (rule wh_admit_none) (use 2 that in auto)
    ultimately show ?thesis using 2 by auto
  qed
qed

text \<open>A review of the creation of a pod is admitted by the second of two routes.\<close>

definition pod_review :: review where
  "pod_review = \<lparr>rv_Request = Some \<lparr>ar_UID = ''u1'', ar_Kind = GVK [] ''v1'' ''Pod'', ar_RequestKind = Some (GVK [] ''v1'' ''Pod''),
     ar_RequestResource = None, ar_SubResource = [], ar_Name = ''web'', ar_Namespace = ''shop'', ar_Operation = ''CREATE'',
     ar_DryRun = None, ar_Object = [], ar_OldObject = []\<rparr>, rv_Response = None\<rparr>"

definition allow :: "nat wh_handler" where
  "allow resp req w = (None, resp\<lparr>as_Allowed := True\<rparr>, w + 1)"

definition pod_router :: "nat wh_router" where
  "pod_router = snd (wh_wrap (rm_Kind ''Job'') []) @ [rm_Handle allow (rm_Name ''web'' new_RouteMatch)]"

lemmas webhook_eval = pod_review_def pod_router_def wh_wrap_appends rm_Kind_def rm_Name_def rm_Handle_def
  rm_matches_def new_RouteMatch_def checkString_def checkBool_def rm_admit_def response_for_def allow_def

lemma ServeHTTP_admits_witness:
  "\<exists>r. fst (ServeHTTP (\<lambda>_. []) pod_router (None, pod_review) 0) = Answer (pod_review\<lparr>rv_Response := Some r\<rparr>) \<and>
    as_Allowed r"
proof -
  have "ServeHTTP (\<lambda>_. []) pod_router (None, pod_review) 0 =
      (Answer (pod_review\<lparr>rv_Response := Some ((response_for (the (rv_Request pod_review)))\<lparr>as_Allowed := True\<rparr>)\<rparr>), 1)"
    by (simp add: ServeHTTP_def webhook_eval)
  from this [THEN ServeHTTP_admits] this show ?thesis by auto
qed

lemma added_route_decides_witness:
  "wh_admit (\<lambda>_. []) (fold (on_route 1) ([rm_Name ''web''] @ [rm_Handle allow])
       [rm_Kind ''Job'' new_RouteMatch, rm_Kind ''Pod'' new_RouteMatch])
     (response_for (the (rv_Request pod_review))) (the (rv_Request pod_review)) 0 =
   allow (response_for (the (rv_Request pod_review))) (the (rv_Request pod_review)) 0"
proof -
  have 1: "wh_wrap (rm_Kind ''Pod'') [rm_Kind ''Job'' new_RouteMatch] =
      (1, [rm_Kind ''Job'' new_RouteMatch, rm_Kind ''Pod'' new_RouteMatch])"
    by (simp add: wh_wrap_appends)
  have 2: "\<not> first_match [rm_Kind ''Job'' (new_RouteMatch :: nat RouteMatch)] (the (rv_Request pod_review)) i" for i
    by (simp add: first_match_Cons first_match_def [of "[]"] webhook_eval)
  have 3: "rm_matches (rm_Handle allow (fold (\<lambda>g. g) [rm_Name ''web''] (rm_Kind ''Pod'' new_RouteMatch)))
      (the (rv_Request pod_review))"
    by (simp add: webhook_eval)
  have *: "E" if "(\<exists>i. P i) \<and> X \<or> N \<and> (if M then E else F)" "\<And>i. \<not> P i" M for P :: "nat \<Rightarrow> bool" and X N M E F
    using that by auto
  show ?thesis
    by (rule * [OF added_route_decides [OF 1 refl] 2 3])
qed

end
