(* ===== verification/Mapper.thy ===== *)
theory Mapper
  imports Webhook
begin

text \<open>
  The caching REST mapper: pkg/mapper/mapper.go.

  The four caches are variables of the package, so every mapper of the process reads and fills the
  same ones; each mapper has the API resources it discovered last. A pointer to a mapper is a
  number. Discovery, and the mapper that client-go makes of the resources, are outside:
  \<open>disc\<close> and \<open>mk\<close>. A lookup under the lock is one step.
\<close>

record gkKey =
  gkk_versions :: gostring
  gkk_gk :: gk

record ('a, 'm) mappers =
  ma_gvrCache :: "(gvr, gvk list) gomap"
  ma_gvrGvrCache :: "(gvr, gvr list) gomap"
  ma_gkCache :: "(gkKey, 'm list) gomap"
  ma_nameCache :: "(gostring, gostring) gomap"
  ma_api :: "nat \<Rightarrow> 'a list"

record 'm rest_mapper =
  rp_KindsFor :: "gvr \<Rightarrow> err + gvk list"
  rp_ResourcesFor :: "gvr \<Rightarrow> err + gvr list"
  rp_RESTMappings :: "gk \<Rightarrow> gostring list \<Rightarrow> err + 'm list"
  rp_ResourceSingularizer :: "gostring \<Rightarrow> err + gostring"

text \<open>What a mapper talks to: the discovery of each mapper and the construction of a mapper.\<close>

record ('a, 'm, 'w) mapper_env =
  me_disc :: "nat \<Rightarrow> 'w \<Rightarrow> (err + 'a list) \<times> 'w"
  me_mk :: "'a list \<Rightarrow> 'm rest_mapper"

section \<open>The client\<close>

text \<open>
  \<open>withClient\<close>: with resources at hand a failure is retried once on fresh ones. \<open>f\<close> gives what the
  function leaves in the caller's variable, or the error.
\<close>

definition with_api :: "nat \<Rightarrow> 'a list \<Rightarrow> ('a, 'm) mappers \<Rightarrow> ('a, 'm) mappers" where
  "with_api i api s = s\<lparr>ma_api := (ma_api s)(i := api)\<rparr>"

definition withClient ::
  "('a, 'm, 'w) mapper_env \<Rightarrow> nat \<Rightarrow> ('m rest_mapper \<Rightarrow> err + 'r) \<Rightarrow> ('a, 'm) mappers \<Rightarrow> 'w \<Rightarrow>
     (err + 'r) \<times> ('a, 'm) mappers \<times> 'w" where
  "withClient env i f s w =
     (let shouldRetry = (length (ma_api s i) \<noteq> 0)
      in case (if length (ma_api s i) = 0
               then (case me_disc env i w of (Inl e, w1) \<Rightarrow> (Some e, s, w1) | (Inr api, w1) \<Rightarrow> (None, with_api i api s, w1))
               else (None, s, w)) of
           (Some e, s1, w1) \<Rightarrow> (Inl e, s1, w1)
         | (None, s1, w1) \<Rightarrow>
           (case f (me_mk env (ma_api s1 i)) of
              Inr r \<Rightarrow> (Inr r, s1, w1)
            | Inl e \<Rightarrow>
              if \<not> shouldRetry then (Inl e, s1, w1)
              else (case me_disc env i w1 of
                      (Inl e', w2) \<Rightarrow> (Inl e', s1, w2)
                    | (Inr api, w2) \<Rightarrow> (f (me_mk env api), with_api i api s1, w2))))"

section \<open>Lookups\<close>

text \<open>Each lookup has this form, around its own cache.\<close>

definition cached ::
  "(('a, 'm) mappers \<Rightarrow> 'r option) \<Rightarrow> ('r \<Rightarrow> ('a, 'm) mappers \<Rightarrow> ('a, 'm) mappers) \<Rightarrow> ('a, 'm, 'w) mapper_env \<Rightarrow> nat \<Rightarrow>
     ('m rest_mapper \<Rightarrow> err + 'r) \<Rightarrow> ('a, 'm) mappers \<Rightarrow> 'w \<Rightarrow> (err + 'r) \<times> ('a, 'm) mappers \<times> 'w" where
  "cached get put env i f s w =
     (case get s of
        Some r \<Rightarrow> (Inr r, s, w)
      | None \<Rightarrow>
        (case withClient env i f s w of
           (Inl e, s1, w1) \<Rightarrow> (Inl e, s1, w1)
         | (Inr r, s1, w1) \<Rightarrow> (Inr r, put r s1, w1)))"

definition KindsFor :: "('a, 'm, 'w) mapper_env \<Rightarrow> nat \<Rightarrow> gvr \<Rightarrow> ('a, 'm) mappers \<Rightarrow> 'w \<Rightarrow> (err + gvk list) \<times> ('a, 'm) mappers \<times> 'w" where
  "KindsFor env i resource =
     cached (\<lambda>s. map_of (ma_gvrCache s) resource)
       (\<lambda>gvks s. s\<lparr>ma_gvrCache := AList.update resource gvks (ma_gvrCache s)\<rparr>) env i
       (\<lambda>m. rp_KindsFor m resource)"

definition ResourcesFor :: "('a, 'm, 'w) mapper_env \<Rightarrow> nat \<Rightarrow> gvr \<Rightarrow> ('a, 'm) mappers \<Rightarrow> 'w \<Rightarrow> (err + gvr list) \<times> ('a, 'm) mappers \<times> 'w" where
  "ResourcesFor env i input =
     cached (\<lambda>s. map_of (ma_gvrGvrCache s) input)
       (\<lambda>gvrs s. s\<lparr>ma_gvrGvrCache := AList.update input gvrs (ma_gvrGvrCache s)\<rparr>) env i
       (\<lambda>m. rp_ResourcesFor m input)"

definition mapping_key :: "gk \<Rightarrow> gostring list \<Rightarrow> gkKey" where
  "mapping_key g versions = \<lparr>gkk_versions = str_join versions ''|'', gkk_gk = g\<rparr>"

definition RESTMappings ::
  "('a, 'm, 'w) mapper_env \<Rightarrow> nat \<Rightarrow> gk \<Rightarrow> gostring list \<Rightarrow> ('a, 'm) mappers \<Rightarrow> 'w \<Rightarrow> (err + 'm list) \<times> ('a, 'm) mappers \<times> 'w" where
  "RESTMappings env i g versions =
     cached (\<lambda>s. map_of (ma_gkCache s) (mapping_key g versions))
       (\<lambda>mappings s. s\<lparr>ma_gkCache := AList.update (mapping_key g versions) mappings (ma_gkCache s)\<rparr>) env i
       (\<lambda>m. rp_RESTMappings m g [])"

definition map_Singularizer ::
  "('a, 'm, 'w) mapper_env \<Rightarrow> nat \<Rightarrow> gostring \<Rightarrow> ('a, 'm) mappers \<Rightarrow> 'w \<Rightarrow> (err + gostring) \<times> ('a, 'm) mappers \<times> 'w" where
  "map_Singularizer env i resource =
     cached (\<lambda>s. map_of (ma_nameCache s) resource)
       (\<lambda>singular s. s\<lparr>ma_nameCache := AList.update resource singular (ma_nameCache s)\<rparr>) env i
       (\<lambda>m. rp_ResourceSingularizer m resource)"

text \<open>The lookups of one answer take the first; indexing an empty list panics.\<close>

definition first_of :: "'x list \<Rightarrow> err + 'x" where
  "first_of xs = (case xs of [] \<Rightarrow> Inl NilDereference | x # _ \<Rightarrow> Inr x)"

definition KindFor :: "('a, 'm, 'w) mapper_env \<Rightarrow> nat \<Rightarrow> gvr \<Rightarrow> ('a, 'm) mappers \<Rightarrow> 'w \<Rightarrow> (err + gvk) \<times> ('a, 'm) mappers \<times> 'w" where
  "KindFor env i resource s w =
     (case KindsFor env i resource s w of
        (Inl e, s1, w1) \<Rightarrow> (Inr (GVK [] [] []), s1, w1)
      | (Inr gvks, s1, w1) \<Rightarrow> (first_of gvks, s1, w1))"

definition ResourceFor :: "('a, 'm, 'w) mapper_env \<Rightarrow> nat \<Rightarrow> gvr \<Rightarrow> ('a, 'm) mappers \<Rightarrow> 'w \<Rightarrow> (err + gvr) \<times> ('a, 'm) mappers \<times> 'w" where
  "ResourceFor env i input s w =
     (case ResourcesFor env i input s w of
        (Inl e, s1, w1) \<Rightarrow> (Inl e, s1, w1)
      | (Inr gvrs, s1, w1) \<Rightarrow> (first_of gvrs, s1, w1))"

definition RESTMapping ::
  "('a, 'm, 'w) mapper_env \<Rightarrow> nat \<Rightarrow> gk \<Rightarrow> gostring list \<Rightarrow> ('a, 'm) mappers \<Rightarrow> 'w \<Rightarrow> (err + 'm) \<times> ('a, 'm) mappers \<times> 'w" where
  "RESTMapping env i g versions s w =
     (case RESTMappings env i g versions s w of
        (Inl e, s1, w1) \<Rightarrow> (Inl e, s1, w1)
      | (Inr mappings, s1, w1) \<Rightarrow> (first_of mappings, s1, w1))"

section \<open>The laws of a cache\<close>

text \<open>
  What the lookups share: an answer that was stored is read back, and neither the mappers'
  resources nor an answer stored under another key or in another cache changes it.
\<close>

locale lookup_cache =
  fixes get :: "'k \<Rightarrow> ('a, 'm) mappers \<Rightarrow> 'r option"
    and put :: "'k \<Rightarrow> 'r \<Rightarrow> ('a, 'm) mappers \<Rightarrow> ('a, 'm) mappers"
  assumes get_put: "get k (put j r s) = (if k = j then Some r else get k s)"
    and get_api: "get k (with_api i api s) = get k s"
begin

lemma withClient_keeps: "withClient env i f s w = (x, s1, w1) \<Longrightarrow> get k s1 = get k s"
  by (auto simp: withClient_def Let_def get_api split: if_splits sum.splits option.splits prod.splits)

lemma cached_hit: "get k s = Some r \<Longrightarrow> cached (get k) (put k) env i f s w = (Inr r, s, w)"
  by (simp add: cached_def)

lemma cached_keeps:
  assumes "cached (get j) (put j) env i f s w = (x, s1, w1)" and "get k s = Some r"
  shows "get k s1 = Some r"
proof (cases "get j s")
  case None
  then have "j \<noteq> k" using assms(2) by auto
  with None assms show ?thesis
    by (cases "withClient env i f s w")
      (auto simp: cached_def get_put withClient_keeps split: sum.splits)
qed (use assms in \<open>simp add: cached_def\<close>)

lemma cached_stores:
  assumes "cached (get k) (put k) env i f s w = (Inr r, s1, w1)"
  shows "get k s1 = Some r"
  using assms by (auto simp: cached_def get_put split: option.splits sum.splits prod.splits)

end

interpretation kinds: lookup_cache "\<lambda>k s. map_of (ma_gvrCache s) k"
  "\<lambda>k r s. s\<lparr>ma_gvrCache := AList.update k r (ma_gvrCache s)\<rparr>"
  by unfold_locales (auto simp: with_api_def)

interpretation resources: lookup_cache "\<lambda>k s. map_of (ma_gvrGvrCache s) k"
  "\<lambda>k r s. s\<lparr>ma_gvrGvrCache := AList.update k r (ma_gvrGvrCache s)\<rparr>"
  by unfold_locales (auto simp: with_api_def)

interpretation mappings: lookup_cache "\<lambda>k s. map_of (ma_gkCache s) k"
  "\<lambda>k r s. s\<lparr>ma_gkCache := AList.update k r (ma_gkCache s)\<rparr>"
  by unfold_locales (auto simp: with_api_def)

interpretation names: lookup_cache "\<lambda>k s. map_of (ma_nameCache s) k"
  "\<lambda>k r s. s\<lparr>ma_nameCache := AList.update k r (ma_nameCache s)\<rparr>"
  by unfold_locales (auto simp: with_api_def)

text \<open>Lookups of the process, by any mapper and of any sort, one after the other.\<close>

datatype lookup = LKinds nat gvr | LResources nat gvr | LMappings nat gk "gostring list" | LName nat gostring

fun run_lookup :: "('a, 'm, 'w) mapper_env \<Rightarrow> lookup \<Rightarrow> ('a, 'm) mappers \<times> 'w \<Rightarrow> ('a, 'm) mappers \<times> 'w" where
  "run_lookup env (LKinds i k) (s, w) = snd (KindsFor env i k s w)"
| "run_lookup env (LResources i k) (s, w) = snd (ResourcesFor env i k s w)"
| "run_lookup env (LMappings i g vs) (s, w) = snd (RESTMappings env i g vs s w)"
| "run_lookup env (LName i k) (s, w) = snd (map_Singularizer env i k s w)"

definition run_lookups :: "('a, 'm, 'w) mapper_env \<Rightarrow> lookup list \<Rightarrow> ('a, 'm) mappers \<times> 'w \<Rightarrow> ('a, 'm) mappers \<times> 'w" where
  "run_lookups env ls = fold (run_lookup env) ls"

lemma withClient_other_caches:
  "withClient env i f s w = (x, s1, w1) \<Longrightarrow>
     ma_gvrCache s1 = ma_gvrCache s \<and> ma_gvrGvrCache s1 = ma_gvrGvrCache s \<and> ma_gkCache s1 = ma_gkCache s \<and>
     ma_nameCache s1 = ma_nameCache s"
  by (auto simp: withClient_def Let_def with_api_def split: if_splits sum.splits option.splits prod.splits)

lemma run_lookup_keeps_kinds:
  assumes "map_of (ma_gvrCache s) k = Some r" and "run_lookup env l (s, w) = (s1, w1)"
  shows "map_of (ma_gvrCache s1) k = Some r"
  using assms
  by (cases l)
    (auto simp: KindsFor_def ResourcesFor_def RESTMappings_def map_Singularizer_def cached_def
       dest!: withClient_other_caches split: option.splits sum.splits prod.splits)

lemma run_lookup_keeps_mappings:
  assumes "map_of (ma_gkCache s) k = Some r" and "run_lookup env l (s, w) = (s1, w1)"
  shows "map_of (ma_gkCache s1) k = Some r"
  using assms
  by (cases l)
    (auto simp: KindsFor_def ResourcesFor_def RESTMappings_def map_Singularizer_def cached_def
       dest!: withClient_other_caches split: option.splits sum.splits prod.splits)

lemma run_lookups_keep:
  assumes "run_lookups env ls (s, w) = (s1, w1)" and "P s"
    and "\<And>l s w s1 w1. P s \<Longrightarrow> run_lookup env l (s, w) = (s1, w1) \<Longrightarrow> P s1"
  shows "P s1"
  using assms(1,2)
proof (induction ls arbitrary: s w)
  case (Cons l ls)
  obtain s' w' where l: "run_lookup env l (s, w) = (s', w')" by (cases "run_lookup env l (s, w)")
  from Cons.prems(1) l have "run_lookups env ls (s', w') = (s1, w1)" by (simp add: run_lookups_def)
  then show ?case using assms(3) [OF Cons.prems(2) l] by (rule Cons.IH)
qed (simp add: run_lookups_def)

section \<open>Properties\<close>

text \<open>An answer is kept for the life of the process and for every mapper. After a lookup of the
  kinds of a resource has succeeded with one mapper, and after any further lookups of any
  mappers, every mapper gives the same answer, asks no server and changes nothing, whatever the
  server it was made for has.\<close>

theorem KindsFor_kept:
  assumes "KindsFor env i resource s w = (Inr gvks, s1, w1)" and "run_lookups env ls (s1, w1) = (s2, w2)"
  shows "KindsFor env' j resource s2 w3 = (Inr gvks, s2, w3)"
proof -
  have "map_of (ma_gvrCache s1) resource = Some gvks"
    using assms(1) unfolding KindsFor_def by (rule kinds.cached_stores)
  then have "map_of (ma_gvrCache s2) resource = Some gvks"
    by (rule run_lookups_keep [OF assms(2)]) (rule run_lookup_keeps_kinds)
  then show ?thesis unfolding KindsFor_def by (rule kinds.cached_hit)
qed

text \<open>Stale resources are no reason to fail. A lookup that is not cached and gives an error has just
  asked the server, and either the server gave the error or the resources it sent do not have
  what was looked for; the server is asked at most once.\<close>

theorem withClient_fresh:
  assumes "withClient env i f s w = (Inl e, s1, w1)"
  shows "fst (me_disc env i w) = Inl e \<and> w1 = snd (me_disc env i w) \<and> s1 = s \<or>
    (\<exists>api. me_disc env i w = (Inr api, w1) \<and> s1 = with_api i api s \<and> f (me_mk env api) = Inl e)"
proof -
  have api: "ma_api (with_api i api s) i = api" for api by (simp add: with_api_def)
  show ?thesis
    using assms by (auto simp: withClient_def Let_def api split: if_splits sum.splits option.splits prod.splits)
qed

text \<open>The versions of \<open>RESTMapping\<close> are ignored. When nothing is cached for either list of versions,
  asking for the mapping of a kind in one list of versions gives the answer for any other list;
  and \<open>KindFor\<close> gives no error, but the empty kind, when the kind is not known.\<close>

theorem RESTMapping_ignores_versions:
  assumes "map_of (ma_gkCache s) (mapping_key g vs) = None" and "map_of (ma_gkCache s) (mapping_key g vs') = None"
    and "KindsFor env i resource s w = (Inl e, s2, w2)"
  shows "fst (RESTMapping env i g vs s w) = fst (RESTMapping env i g vs' s w) \<and>
    KindFor env i resource s w = (Inr (GVK [] [] []), s2, w2)"
  using assms by (auto simp: RESTMapping_def RESTMappings_def cached_def KindFor_def split: sum.splits prod.splits)

text \<open>Two servers: the first knows pods, the second knows nothing.\<close>

definition demo_mapper :: "nat list \<Rightarrow> gostring rest_mapper" where
  "demo_mapper api = \<lparr>
     rp_KindsFor = (\<lambda>r. if length api = 2 then Inr [GVK [] ''v1'' ''Pod''] else Inl (Plain ''no matches'')),
     rp_ResourcesFor = (\<lambda>r. Inl (Plain ''no matches'')),
     rp_RESTMappings = (\<lambda>g vs. Inr [if vs = [] then ''all'' else hd vs]),
     rp_ResourceSingularizer = (\<lambda>r. Inr r)\<rparr>"

definition demo_env :: "(nat, gostring, nat) mapper_env" where
  "demo_env = \<lparr>me_disc = (\<lambda>i w. (Inr (if i = 0 then [1, 2] else [3]), w + 1)), me_mk = demo_mapper\<rparr>"

definition no_caches :: "(nat, gostring) mappers" where
  "no_caches = \<lparr>ma_gvrCache = [], ma_gvrGvrCache = [], ma_gkCache = [], ma_nameCache = [], ma_api = (\<lambda>_. [])\<rparr>"

lemmas mapper_eval = demo_mapper_def demo_env_def no_caches_def KindsFor_def cached_def withClient_def with_api_def

definition pods :: gvr where
  "pods = \<lparr>gvr_group = [], gvr_version = ''v1'', gvr_resource = ''pods''\<rparr>"

lemma KindsFor_kept_witness:
  "\<exists>s2 w2. run_lookups demo_env [LName 1 ''pods'', LKinds 1 pods] (snd (KindsFor demo_env 0 pods no_caches 0)) = (s2, w2) \<and>
     KindsFor demo_env 1 pods s2 7 = (Inr [GVK [] ''v1'' ''Pod''], s2, 7)"
proof -
  obtain s1 w1 where 1: "KindsFor demo_env 0 pods no_caches 0 = (Inr [GVK [] ''v1'' ''Pod''], s1, w1)"
    by (simp add: mapper_eval)
  obtain s2 w2 where 2: "run_lookups demo_env [LName 1 ''pods'', LKinds 1 pods] (s1, w1) = (s2, w2)"
    by (cases "run_lookups demo_env [LName 1 ''pods'', LKinds 1 pods] (s1, w1)")
  from KindsFor_kept [OF 1 2, of demo_env 1 7] 1 2 show ?thesis by simp
qed

lemma withClient_fresh_witness:
  "\<exists>api w1. me_disc demo_env 1 0 = (Inr api, w1) \<and> rp_KindsFor (me_mk demo_env api) pods = Inl (Plain ''no matches'')"
proof -
  obtain s1 w1 where "withClient demo_env 1 (\<lambda>m. rp_KindsFor m pods) no_caches 0 = (Inl (Plain ''no matches''), s1, w1)"
    by (simp add: mapper_eval)
  from withClient_fresh [OF this] show ?thesis by (auto simp: demo_env_def)
qed

lemma RESTMapping_ignores_versions_witness:
  "fst (RESTMapping demo_env 1 (GroupKind (GVK [] [] ''Pod'')) [''v1''] no_caches 0) =
   fst (RESTMapping demo_env 1 (GroupKind (GVK [] [] ''Pod'')) [''v2''] no_caches 0)"
proof -
  have 1: "map_of (ma_gkCache no_caches) k = None" for k by (simp add: no_caches_def)
  obtain s1 w1 where "KindsFor demo_env 1 pods no_caches 0 = (Inl (Plain ''no matches''), s1, w1)"
    by (simp add: mapper_eval)
  from RESTMapping_ignores_versions [OF 1 1 this] show ?thesis by blast
qed

end
