(* ===== verification/Names.thy ===== *)
theory Names
  imports GoPrelude
begin

text \<open>
  Names and paths: pkg/name/name.go, pkg/urlbuilder/urlbuilder.go and pkg/version/version.go.

  The digest is an argument \<open>sha256_hex\<close> (the hexadecimal text of \<open>crypto/sha256\<close>; 64 digits). An
  expression that Go would refuse with a slice or index panic is \<^const>\<open>None\<close>.
\<close>

section \<open>Names that fit\<close>

definition name_char :: "char \<Rightarrow> bool" where
  "name_char c \<longleftrightarrow> (let n = of_char c :: nat in 97 \<le> n \<and> n \<le> 122 \<or> 48 \<le> n \<and> n \<le> 57)"

definition go_slice :: "nat \<Rightarrow> gostring \<Rightarrow> gostring option" where
  \<comment> \<open>\<open>s[:n]\<close>\<close>
  "go_slice n s = (if n \<le> length s then Some (take n s) else None)"

definition SafeConcatNameWithSeparatorAndLength ::
  "(gostring \<Rightarrow> gostring) \<Rightarrow> int \<Rightarrow> gostring \<Rightarrow> gostring list \<Rightarrow> gostring option" where
  "SafeConcatNameWithSeparatorAndLength sha256_hex len sep name =
     (let fullPath = str_join name sep
      in if int (length fullPath) < len then Some fullPath
         else if len - 8 < 0 \<or> len - 8 \<ge> int (length fullPath) then None
         else (let digest = sha256_hex fullPath; c = fullPath ! nat (len - 8)
               in if name_char c
                  then (case (go_slice (nat (len - 7)) fullPath, go_slice 5 digest) of
                          (Some a, Some d) \<Rightarrow> Some (a @ sep @ d) | _ \<Rightarrow> None)
                  else (case (go_slice (nat (len - 8)) fullPath, go_slice 6 digest) of
                          (Some a, Some d) \<Rightarrow> Some (a @ sep @ d) | _ \<Rightarrow> None)))"

definition SafeConcatName :: "(gostring \<Rightarrow> gostring) \<Rightarrow> gostring list \<Rightarrow> gostring option" where
  "SafeConcatName sha256_hex name = SafeConcatNameWithSeparatorAndLength sha256_hex 64 ''-'' name"

text \<open>Each part is written to the digest with a zero byte after it.\<close>

definition SafeHashConcatName :: "(gostring \<Rightarrow> gostring) \<Rightarrow> gostring list \<Rightarrow> gostring option" where
  "SafeHashConcatName sha256_hex name =
     (let hash = sha256_hex (concat (map (\<lambda>part. part @ [CHR 0x00]) name))
      in case go_slice 8 hash of
           None \<Rightarrow> None
         | Some suffix \<Rightarrow> SafeConcatName sha256_hex (name @ [suffix]))"

lemma go_slice_Some: "n \<le> length s \<Longrightarrow> go_slice n s = Some (take n s)"
  by (simp add: go_slice_def)

text \<open>C37: a concatenated name always fits. With a digest of at least six digits, \<open>SafeConcatName\<close> never
  panics, gives a name of at most 63 bytes, gives the plain concatenation when that fits, and
  otherwise keeps at least the first 56 bytes of it and ends in a dash and five or six digits of
  the digest, with exactly 63 bytes.\<close>

theorem SafeConcatName_fits:
  assumes "\<And>s. length (sha256_hex s) \<ge> 6" and "full = str_join name ''-''"
  shows "\<exists>r. SafeConcatName sha256_hex name = Some r \<and> length r \<le> 63 \<and>
    (if length full < 64 then r = full
     else length r = 63 \<and> (\<exists>n. (n = 5 \<or> n = 6) \<and> r = take (62 - n) full @ ''-'' @ take n (sha256_hex full)))"
proof (cases "length full < 64")
  case False
  have a: "length (sha256_hex full) \<ge> 6" by (rule assms(1))
  define c where "c = full ! 56"
  have "SafeConcatName sha256_hex name =
      (if name_char c then Some (take 57 full @ ''-'' @ take 5 (sha256_hex full))
       else Some (take 56 full @ ''-'' @ take 6 (sha256_hex full)))"
    using False a
    by (simp add: SafeConcatName_def SafeConcatNameWithSeparatorAndLength_def assms(2) [symmetric] Let_def
          go_slice_Some c_def)
  with False a show ?thesis
    by (cases "name_char c") (auto intro: exI [of _ 5] exI [of _ 6])
qed (simp add: SafeConcatName_def SafeConcatNameWithSeparatorAndLength_def assms(2) [symmetric] Let_def)

lemma SafeConcatName_fits_witness:
  "\<exists>r. SafeConcatName (\<lambda>_. ''0123456789abcdef'') [replicate 40 CHR ''a'', replicate 40 CHR ''b''] = Some r \<and> length r = 63"
proof -
  have 1: "length (str_join [replicate 40 CHR ''a'', replicate 40 CHR ''b''] ''-'') = 81" by simp
  have 2: "6 \<le> length ''0123456789abcdef''" by simp
  from SafeConcatName_fits [of "\<lambda>_. ''0123456789abcdef''", OF 2 refl, of "[replicate 40 CHR ''a'', replicate 40 CHR ''b'']"]
  show ?thesis unfolding 1 by auto
qed

text \<open>
  The character in front of the dash is looked at only when the cut is at 57 bytes: a name with two
  such characters in a row is cut between them, and a label then starts with the dash.
\<close>

lemma SafeConcatName_bad_label:
  assumes "\<And>s. length (sha256_hex s) \<ge> 6" and "length base = 55"
  shows "SafeConcatName sha256_hex [base @ ''.-'' @ replicate 10 CHR ''a''] =
    Some (base @ ''.-'' @ take 6 (sha256_hex (base @ ''.-'' @ replicate 10 CHR ''a'')))"
proof -
  let ?full = "base @ ''.-'' @ replicate 10 CHR ''a''"
  have "length ?full = 67" using assms(2) by simp
  moreover have "?full ! 56 = CHR ''-''" using assms(2) by (simp add: nth_append)
  moreover have "take 56 ?full = base @ ''.''" using assms(2) by simp
  ultimately show ?thesis
    using assms(1) [of ?full]
    by (simp add: SafeConcatName_def SafeConcatNameWithSeparatorAndLength_def Let_def go_slice_Some name_char_def
          del: take_append append_Cons)
qed

section \<open>Paths\<close>

text \<open>\<open>path.Clean\<close> and \<open>path.Join\<close> of the standard library, on the parts between slashes.\<close>

definition clean_step :: "bool \<Rightarrow> gostring \<Rightarrow> gostring list \<Rightarrow> gostring list" where
  "clean_step rooted part out =
     (if part = [] \<or> part = ''.'' then out
      else if part = ''..''
      then (if out \<noteq> [] \<and> last out \<noteq> ''..'' then butlast out
            else if rooted then out else out @ [part])
      else out @ [part])"

definition path_Clean :: "gostring \<Rightarrow> gostring" where
  "path_Clean p =
     (let rooted = has_prefix p ''/'';
          out = fold (clean_step rooted) (str_split p ''/'') []
      in if rooted then ''/'' @ str_join out ''/''
         else if out = [] then ''.'' else str_join out ''/'')"

definition path_Join :: "gostring list \<Rightarrow> gostring" where
  "path_Join elems =
     (let buf = fold (\<lambda>e buf. if buf = [] then e else buf @ ''/'' @ e) elems []
      in if buf = [] then [] else path_Clean buf)"

record PathBuilder =
  pb_Prefix :: gostring
  pb_APIGroup :: gostring
  pb_APIVersion :: gostring
  pb_Namespace :: gostring
  pb_Name :: gostring
  pb_Resource :: gostring
  pb_Subresource :: gostring
  pb_SubPath :: gostring

definition Build :: "PathBuilder \<Rightarrow> gostring" where
  "Build u =
     (let p = pb_Prefix u;
          p = (if pb_APIGroup u \<noteq> [] \<or> pb_APIVersion u \<noteq> [] then path_Join [p, pb_APIGroup u, pb_APIVersion u] else p);
          p = (if pb_Namespace u \<noteq> [] then path_Join [p, ''namespaces'', pb_Namespace u] else p);
          p = (if pb_Resource u \<noteq> [] then path_Join [p, to_lower (pb_Resource u)] else p)
      in (if pb_Name u \<noteq> [] \<or> pb_Subresource u \<noteq> [] \<or> pb_SubPath u \<noteq> []
          then path_Join [p, pb_Name u, pb_Subresource u, pb_SubPath u] else p))"

text \<open>A part is plain when cleaning a path leaves it alone; \<open>path_of\<close> is the path of some parts.\<close>

definition plain :: "gostring \<Rightarrow> bool" where
  "plain s \<longleftrightarrow> s \<noteq> [] \<and> s \<noteq> ''.'' \<and> s \<noteq> ''..'' \<and> CHR ''/'' \<notin> set s"

definition path_of :: "gostring list \<Rightarrow> gostring" where
  "path_of parts = concat (map (\<lambda>s. CHR ''/'' # s) parts)"

lemma plainD:
  "plain s \<Longrightarrow> CHR ''/'' \<notin> set s" "plain s \<Longrightarrow> s \<noteq> []" "plain s \<Longrightarrow> s \<noteq> ''.''" "plain s \<Longrightarrow> s \<noteq> ''..''"
  by (simp_all add: plain_def)

lemma clean_step_plain: "plain s \<Longrightarrow> clean_step r s out = out @ [s]" "clean_step r [] out = out"
  by (simp_all add: clean_step_def plainD)

lemma str_split_no_slash: "CHR ''/'' \<notin> set s \<Longrightarrow> str_split s ''/'' = [s]"
  by (subst str_split.simps) (simp add: str_cut_single_notin)

lemma str_split_slash: "CHR ''/'' \<notin> set s \<Longrightarrow> str_split (s @ CHR ''/'' # t) ''/'' = s # str_split t ''/''"
  by (subst str_split.simps) (simp add: str_cut_single)

lemma str_split_path_of:
  assumes "\<forall>s \<in> set parts. CHR ''/'' \<notin> set s" and "CHR ''/'' \<notin> set s0"
  shows "str_split (s0 @ path_of parts) ''/'' = s0 # parts"
  using assms
proof (induction parts arbitrary: s0)
  case (Cons s parts)
  then show ?case by (simp add: path_of_def str_split_slash)
qed (simp add: path_of_def str_split_no_slash)

lemma clean_plain: "\<forall>s \<in> set parts. plain s \<or> s = [] \<Longrightarrow> fold (clean_step r) parts out = out @ filter (\<lambda>s. s \<noteq> []) parts"
  by (induction parts arbitrary: out) (auto simp: clean_step_plain plainD)

lemma join_path_of: "parts \<noteq> [] \<Longrightarrow> ''/'' @ str_join parts ''/'' = path_of parts"
proof (induction parts)
  case (Cons s parts)
  then show ?case by (cases parts) (auto simp: path_of_def)
qed simp

lemma path_Clean_path_of:
  assumes "\<forall>s \<in> set parts. plain s \<or> s = []" and "\<exists>s \<in> set parts. s \<noteq> []"
  shows "path_Clean (path_of parts) = path_of (filter (\<lambda>s. s \<noteq> []) parts)"
proof -
  have slash: "\<forall>s \<in> set parts. CHR ''/'' \<notin> set s" using assms(1) plainD(1) by fastforce
  have "parts \<noteq> []" using assms(2) by auto
  then have rooted: "has_prefix (path_of parts) ''/''" by (cases parts) (auto simp: path_of_def)
  have "fold (clean_step True) (str_split (path_of parts) ''/'') [] = filter (\<lambda>s. s \<noteq> []) parts"
    using str_split_path_of [OF slash, of "[]"] clean_plain [of "[] # parts" True "[]"] assms(1) by simp
  moreover have "filter (\<lambda>s. s \<noteq> []) parts \<noteq> []" using assms(2) by (auto simp: filter_empty_conv)
  ultimately show ?thesis
    using rooted join_path_of by (auto simp: path_Clean_def Let_def)
qed

lemma path_Join_buf: "p \<noteq> [] \<Longrightarrow> fold (\<lambda>e buf. if buf = [] then e else buf @ ''/'' @ e) elems p = p @ path_of elems"
  by (induction elems arbitrary: p) (simp_all add: path_of_def)

lemma path_of_append: "path_of (a @ b) = path_of a @ path_of b"
  by (simp add: path_of_def)

lemma path_Join_path_of:
  assumes "\<forall>s \<in> set ps. plain s" and "ps \<noteq> []" and "\<forall>s \<in> set elems. plain s \<or> s = []"
  shows "path_Join (path_of ps # elems) = path_of (ps @ filter (\<lambda>s. s \<noteq> []) elems)"
proof -
  have ne: "path_of ps \<noteq> []" using assms(2) by (cases ps) (auto simp: path_of_def)
  have all: "filter (\<lambda>s. s \<noteq> []) ps = ps" using assms(1) plainD(2) by (auto simp: filter_id_conv)
  have "path_Join (path_of ps # elems) = path_Clean (path_of (ps @ elems))"
    using ne by (simp add: path_Join_def path_Join_buf path_of_append)
  also have "\<dots> = path_of (filter (\<lambda>s. s \<noteq> []) (ps @ elems))"
    by (rule path_Clean_path_of) (use assms plainD(2) in \<open>auto intro!: bexI [of _ "hd ps"]\<close>)
  finally show ?thesis by (simp add: all)
qed

lemma char_lower_slash: "char_lower c = CHR ''/'' \<longleftrightarrow> c = CHR ''/''"
proof -
  have "(of_char (char_lower c) :: nat) = (let n = of_char c in if 65 \<le> n \<and> n \<le> 90 then n + 32 else n)"
    by (auto simp: char_lower_def Let_def)
  then have "of_char (char_lower c) = (47 :: nat) \<longleftrightarrow> of_char c = (47 :: nat)"
    by (auto simp: Let_def)
  moreover have "of_char CHR ''/'' = (47 :: nat)" by simp
  ultimately show ?thesis by (metis of_char_eq_iff)
qed

lemma char_lower_dot: "char_lower c = CHR ''.'' \<longleftrightarrow> c = CHR ''.''"
proof -
  have "(of_char (char_lower c) :: nat) = (let n = of_char c in if 65 \<le> n \<and> n \<le> 90 then n + 32 else n)"
    by (auto simp: char_lower_def Let_def)
  then have "of_char (char_lower c) = (46 :: nat) \<longleftrightarrow> of_char c = (46 :: nat)"
    by (auto simp: Let_def)
  moreover have "of_char CHR ''.'' = (46 :: nat)" by simp
  ultimately show ?thesis by (metis of_char_eq_iff)
qed

lemma plain_to_lower: "plain s \<Longrightarrow> plain (to_lower s)"
  unfolding plain_def to_lower_def
  by (auto simp: char_lower_slash char_lower_dot map_eq_Cons_conv) (metis char_lower_slash)

text \<open>The parts of the path a builder means.\<close>

definition parts_of :: "gostring list \<Rightarrow> PathBuilder \<Rightarrow> gostring list" where
  "parts_of ps u =
     ps @ filter (\<lambda>s. s \<noteq> []) [pb_APIGroup u, pb_APIVersion u] @
     (if pb_Namespace u \<noteq> [] then [''namespaces'', pb_Namespace u] else []) @
     filter (\<lambda>s. s \<noteq> []) [to_lower (pb_Resource u)] @
     filter (\<lambda>s. s \<noteq> []) [pb_Name u, pb_Subresource u, pb_SubPath u]"

text \<open>The path has the parts it is built of. For a prefix of plain parts and fields that are empty or
  plain (not a dot or two, and without a slash), the path is the prefix, the group and the
  version, \<open>namespaces\<close> and the namespace, the resource in lower case, the name, the subresource
  and the subpath, in this order and without the empty ones.\<close>

theorem Build_parts:
  assumes "pb_Prefix u = path_of ps" and "ps \<noteq> []" and "\<forall>s \<in> set ps. plain s"
    and "\<forall>s \<in> {pb_APIGroup u, pb_APIVersion u, pb_Namespace u, pb_Resource u, pb_Name u, pb_Subresource u, pb_SubPath u}.
           plain s \<or> s = []"
  shows "Build u = path_of (parts_of ps u)"
proof -
  have step: "(if c then path_Join (path_of qs # es) else path_of qs) = path_of (qs @ filter (\<lambda>s. s \<noteq> []) es)"
    if "c \<longleftrightarrow> (\<exists>s \<in> set es. s \<noteq> [])" "qs \<noteq> []" "\<forall>s \<in> set qs. plain s" "\<forall>s \<in> set es. plain s \<or> s = []" for c qs es
    using path_Join_path_of [OF that(3,2,4)] that(1) by (auto simp: filter_empty_conv)
  define q1 where "q1 = ps @ filter (\<lambda>s. s \<noteq> []) [pb_APIGroup u, pb_APIVersion u]"
  define q2 where "q2 = q1 @ (if pb_Namespace u \<noteq> [] then [''namespaces'', pb_Namespace u] else [])"
  define q3 where "q3 = q2 @ filter (\<lambda>s. s \<noteq> []) [to_lower (pb_Resource u)]"
  have ns: "plain ''namespaces''" by (simp add: plain_def)
  have p1: "q1 \<noteq> []" "\<forall>s \<in> set q1. plain s" using assms(2-4) by (auto simp: q1_def)
  have p2: "q2 \<noteq> []" "\<forall>s \<in> set q2. plain s" using p1 ns assms(4) by (auto simp: q2_def)
  have low: "plain (to_lower (pb_Resource u)) \<or> to_lower (pb_Resource u) = []"
    using assms(4) plain_to_lower by (auto simp: to_lower_def)
  have p3: "q3 \<noteq> []" "\<forall>s \<in> set q3. plain s" using p2 low by (auto simp: q3_def)
  have b1: "(if pb_APIGroup u \<noteq> [] \<or> pb_APIVersion u \<noteq> [] then path_Join [path_of ps, pb_APIGroup u, pb_APIVersion u]
      else path_of ps) = path_of q1"
    unfolding q1_def by (rule step) (use assms in auto)
  have b2: "(if pb_Namespace u \<noteq> [] then path_Join [path_of q1, ''namespaces'', pb_Namespace u] else path_of q1) = path_of q2"
    using path_Join_path_of [OF p1(2,1), of "[''namespaces'', pb_Namespace u]"] ns assms(4) by (auto simp: q2_def)
  have b3: "(if pb_Resource u \<noteq> [] then path_Join [path_of q2, to_lower (pb_Resource u)] else path_of q2) = path_of q3"
    unfolding q3_def by (rule step) (use p2 low in \<open>auto simp: to_lower_def\<close>)
  have b4: "(if pb_Name u \<noteq> [] \<or> pb_Subresource u \<noteq> [] \<or> pb_SubPath u \<noteq> []
      then path_Join [path_of q3, pb_Name u, pb_Subresource u, pb_SubPath u] else path_of q3) =
      path_of (q3 @ filter (\<lambda>s. s \<noteq> []) [pb_Name u, pb_Subresource u, pb_SubPath u])"
    by (rule step) (use p3 assms in auto)
  show ?thesis
    unfolding Build_def Let_def assms(1) b1 b2 b3 b4 by (simp add: parts_of_def q3_def q2_def q1_def)
qed

lemma Build_parts_witness:
  "Build \<lparr>pb_Prefix = ''/apis'', pb_APIGroup = ''apps'', pb_APIVersion = ''v1'', pb_Namespace = ''shop'', pb_Name = ''web'',
      pb_Resource = ''Deployments'', pb_Subresource = ''status'', pb_SubPath = []\<rparr> =
    ''/apis/apps/v1/namespaces/shop/deployments/web/status''"
proof -
  let ?u = "\<lparr>pb_Prefix = ''/apis'', pb_APIGroup = ''apps'', pb_APIVersion = ''v1'', pb_Namespace = ''shop'', pb_Name = ''web'',
      pb_Resource = ''Deployments'', pb_Subresource = ''status'', pb_SubPath = []\<rparr>"
  have "to_lower ''Deployments'' = ''deployments''" by code_simp
  moreover have "Build ?u = path_of (parts_of [''apis''] ?u)"
    by (rule Build_parts) (simp_all add: path_of_def plain_def)
  ultimately show ?thesis by (simp add: parts_of_def path_of_def)
qed

section \<open>Versions\<close>

record Version =
  ve_Tag :: gostring
  ve_Commit :: gostring
  ve_Dirty :: bool

definition Version_String :: "Version \<Rightarrow> gostring" where
  "Version_String v =
     (if length (ve_Commit v) < 12 then ve_Tag v
      else if ve_Dirty v then ve_Tag v @ ''-'' @ take 8 (ve_Commit v) @ ''-dirty''
      else ve_Tag v @ ''+'' @ take 8 (ve_Commit v))"

text \<open>\<open>GitCommit\<close> on the build settings (\<^const>\<open>None\<close> when there is no build information).\<close>

definition GitCommit :: "(gostring \<times> gostring) list option \<Rightarrow> gostring \<times> bool" where
  "GitCommit settings =
     (case settings of
        None \<Rightarrow> ([], False)
      | Some ss \<Rightarrow>
        fold (\<lambda>(k, v) (commit, dirty).
          if k = ''vcs.modified'' then (commit, v = ''true'')
          else if k = ''vcs.revision'' then (v, dirty) else (commit, dirty)) ss ([], False))"

definition NewVersion :: "(gostring \<times> gostring) list option \<Rightarrow> gostring \<Rightarrow> Version" where
  "NewVersion settings tag =
     (case GitCommit settings of (commit, dirty) \<Rightarrow> \<lparr>ve_Tag = tag, ve_Commit = commit, ve_Dirty = dirty\<rparr>)"

end
