(* ===== verification/Data.thy ===== *)
theory Data
  imports JsonValues
begin

text \<open>
  Maps, slices and generic data: pkg/typed/map.go and slice.go, \<open>GenericMap\<close> of pkg/data/generic.go,
  and the field selectors of pkg/fields/fields.go.

  A \<open>*GenericMap\<close> is an option, and so is its map, because a nil map is told from an empty one. The
  JSON codec and the conversion of numbers are arguments.
\<close>

section \<open>Maps and slices\<close>

definition Concat :: "('k, 'v) gomap list \<Rightarrow> ('k, 'v) gomap" where
  "Concat maps = fold (\<lambda>m result. gm_merge result m) maps []"

definition SortedKeys :: "('k::linorder, 'v) gomap \<Rightarrow> 'k list" where
  "SortedKeys data = sort (gm_keys data)"

definition SortedValuesByKey :: "('k::linorder, 'v) gomap \<Rightarrow> 'v list" where
  "SortedValuesByKey data = map (\<lambda>k. the (map_of data k)) (SortedKeys data)"

record ('k, 'v) Entry =
  en_Key :: 'k
  en_Value :: 'v

definition Sorted :: "('k::linorder, 'v) gomap \<Rightarrow> ('k, 'v) Entry list" where
  "Sorted data = map (\<lambda>key. \<lparr>en_Key = key, en_Value = the (map_of data key)\<rparr>) (SortedKeys data)"

definition SortedValues :: "('k::linorder, 'v) gomap \<Rightarrow> 'v list" where
  "SortedValues data = map en_Value (Sorted data)"

definition MapSlice :: "('t \<Rightarrow> 'k) \<Rightarrow> 't list \<Rightarrow> 'k list" where
  "MapSlice mapper values = foldl (\<lambda>result v. result @ [mapper v]) [] values"

lemma MapSlice_map: "MapSlice f xs = map f xs"
proof -
  have "foldl (\<lambda>result v. result @ [f v]) acc xs = acc @ map f xs" for acc
    by (induction xs arbitrary: acc) auto
  then show ?thesis by (simp add: MapSlice_def)
qed

lemma gm_ok_Concat: "gm_ok (Concat ms)"
proof -
  have "gm_ok r \<Longrightarrow> gm_ok (fold (\<lambda>m result. gm_merge result m) ms r)" for r
    by (induction ms arbitrary: r) auto
  then show ?thesis by (simp add: Concat_def)
qed

lemma map_of_Concat:
  assumes "\<forall>m \<in> set ms. gm_ok m"
  shows "map_of (Concat ms) k = fold (\<lambda>m r. case map_of m k of Some v \<Rightarrow> Some v | None \<Rightarrow> r) ms None"
proof -
  have "map_of (fold (\<lambda>m result. gm_merge result m) ms acc) k =
      fold (\<lambda>m r. case map_of m k of Some v \<Rightarrow> Some v | None \<Rightarrow> r) ms (map_of acc k)" for acc
    using assms by (induction ms arbitrary: acc) (auto simp: map_of_gm_merge split: option.splits)
  then show ?thesis by (simp add: Concat_def)
qed

lemma set_SortedKeys [simp]: "set (SortedKeys m) = fst ` set m"
  by (simp add: SortedKeys_def)

lemma strict_sorted_SortedKeys: "gm_ok m \<Longrightarrow> sorted_wrt (<) (SortedKeys m)"
  by (simp add: SortedKeys_def gm_ok_def strict_sorted_iff)

lemma SortedValues_eq: "SortedValues m = SortedValuesByKey m"
  by (simp add: SortedValues_def Sorted_def SortedValuesByKey_def)

section \<open>Generic maps\<close>

datatype GenericMap = GenericMap (gm_Data: "jmap option")

definition GetData :: "GenericMap option \<Rightarrow> jmap option" where
  "GetData g = (case g of None \<Rightarrow> None | Some x \<Rightarrow> gm_Data x)"

text \<open>Ranging over a nil map visits nothing; \<open>Concat\<close> answers a map that is never nil.\<close>

definition Merge :: "GenericMap option \<Rightarrow> GenericMap option \<Rightarrow> GenericMap option" where
  "Merge g from =
     (let elems = (\<lambda>d. case d of None \<Rightarrow> [] | Some m \<Rightarrow> m);
          merged = Some (Concat [elems (GetData g), elems (GetData from)])
      in case merged of None \<Rightarrow> None | Some m \<Rightarrow> Some (GenericMap (Some m)))"

record number_codec =
  nc_decode :: "gostring \<Rightarrow> err + jmap"
  nc_marshal :: "jmap option \<Rightarrow> err + gostring"
  nc_int64 :: "gostring \<Rightarrow> int option"
  nc_float64 :: "gostring \<Rightarrow> err + gostring"

definition UnmarshalJSON :: "number_codec \<Rightarrow> gostring \<Rightarrow> GenericMap option \<Rightarrow> err option \<times> GenericMap option" where
  "UnmarshalJSON nc bytes g =
     (case g of
        None \<Rightarrow> (Some (Plain ''*data.GenericMap: UnmarshalJSON on nil pointer''), None)
      | Some x \<Rightarrow>
        (case nc_decode nc bytes of
           Inl e \<Rightarrow> (Some (Wrap ''*data.GenericMap: Failed to decode data: '' e), g)
         | Inr d \<Rightarrow>
           (case translateObject (nc_int64 nc) (nc_float64 nc) (JObject d) of
              Inl e \<Rightarrow> (Some (Wrap ''*data.GenericMap: Failed to translate object: '' e), g)
            | Inr v \<Rightarrow> (None, if length (json_as_map v) > 0 then Some (GenericMap (Some (json_as_map v))) else g))))"

definition MarshalJSON :: "number_codec \<Rightarrow> GenericMap option \<Rightarrow> err + gostring" where
  "MarshalJSON nc g = nc_marshal nc (GetData g)"

definition NewGenericMap :: "jmap option \<Rightarrow> GenericMap option" where
  "NewGenericMap data = (case data of None \<Rightarrow> None | Some m \<Rightarrow> Some (GenericMap (Some m)))"

definition Mapify :: "number_codec \<Rightarrow> jmap option \<Rightarrow> err option \<times> GenericMap" where
  "Mapify nc data =
     (case nc_marshal nc data of
        Inl e \<Rightarrow> (Some e, GenericMap None)
      | Inr marshaled \<Rightarrow>
        (case UnmarshalJSON nc marshaled (Some (GenericMap None)) of
           (Some e, _) \<Rightarrow> (Some e, GenericMap None)
         | (None, Some g) \<Rightarrow> (None, g)
         | (None, None) \<Rightarrow> (None, GenericMap None)))"

text \<open>A failing copy is logged; the copy is empty then.\<close>

definition gm_DeepCopy :: "number_codec \<Rightarrow> GenericMap option \<Rightarrow> GenericMap" where
  "gm_DeepCopy nc g = snd (Mapify nc (GetData g))"

section \<open>Field selectors\<close>

definition ValidSelectors ::
  "(gostring \<Rightarrow> gostring \<Rightarrow> err + gostring \<times> gostring) \<Rightarrow> gostring list \<Rightarrow> gostring \<Rightarrow> gostring \<Rightarrow> err + gostring \<times> gostring" where
  "ValidSelectors fallback labels label value =
     (if list_ex (\<lambda>checkLabel. label = checkLabel) labels then Inr (label, value) else fallback label value)"

text \<open>
  A type that can be registered: the kind the scheme finds and, when it implements \<open>Fields\<close>, the
  names of its fields. \<open>add_conv\<close> and \<open>add_types\<close> are the methods of the scheme.
\<close>

definition AddFieldConversion ::
  "(gostring \<Rightarrow> gostring \<Rightarrow> err + gostring \<times> gostring) \<Rightarrow> (kobject \<Rightarrow> gostring list option) \<Rightarrow>
     (gvk \<Rightarrow> (gostring \<Rightarrow> gostring \<Rightarrow> err + gostring \<times> gostring) \<Rightarrow> 's \<Rightarrow> err option \<times> 's) \<Rightarrow> kscheme \<Rightarrow> kobject \<Rightarrow> 's \<Rightarrow> err option \<times> 's" where
  "AddFieldConversion fallback names add_conv sch obj s =
     (case gvk_for sch obj of
        Inl e \<Rightarrow> (None, s)
      | Inr g \<Rightarrow>
        (case names obj of
           None \<Rightarrow> (None, s)
         | Some ns \<Rightarrow> add_conv g (ValidSelectors fallback ns) s))"

fun AddKnownTypesWithFieldConversion ::
  "(gostring \<Rightarrow> gostring \<Rightarrow> err + gostring \<times> gostring) \<Rightarrow> (kobject \<Rightarrow> gostring list option) \<Rightarrow>
     (gvk \<Rightarrow> (gostring \<Rightarrow> gostring \<Rightarrow> err + gostring \<times> gostring) \<Rightarrow> 's \<Rightarrow> err option \<times> 's) \<Rightarrow> (kobject \<Rightarrow> 's \<Rightarrow> 's) \<Rightarrow>
     kscheme \<Rightarrow> kobject list \<Rightarrow> 's \<Rightarrow> err option \<times> 's" where
  "AddKnownTypesWithFieldConversion fallback names add_conv add_types sch [] s = (None, s)"
| "AddKnownTypesWithFieldConversion fallback names add_conv add_types sch (obj # types) s =
     (case AddFieldConversion fallback names add_conv sch obj (add_types obj s) of
        (Some e, s1) \<Rightarrow> (Some e, s1)
      | (None, s1) \<Rightarrow> AddKnownTypesWithFieldConversion fallback names add_conv add_types sch types s1)"

section \<open>Lemmas\<close>

text \<open>Data without a number that is still text.\<close>

fun no_numbers :: "json \<Rightarrow> bool" where
  "no_numbers (JNumber t) = False"
| "no_numbers (JArray vs) = (\<forall>v \<in> set vs. no_numbers v)"
| "no_numbers (JObject m) = (\<forall>p \<in> set m. no_numbers (snd p))"
| "no_numbers _ = True"

text \<open>\<open>renders i64 v v'\<close>: \<open>v'\<close> is \<open>v\<close> with every number read, as an integer where that is possible.\<close>

fun renders :: "(gostring \<Rightarrow> int option) \<Rightarrow> (gostring \<Rightarrow> err + gostring) \<Rightarrow> json \<Rightarrow> json \<Rightarrow> bool" where
  "renders i64 f64 (JNumber t) v =
     (case i64 t of Some i \<Rightarrow> v = JInt i | None \<Rightarrow> (\<exists>f. f64 t = Inr f \<and> v = JFloat f))"
| "renders i64 f64 (JArray vs) v = (\<exists>ws. v = JArray ws \<and> list_all2 (renders i64 f64) vs ws)"
| "renders i64 f64 (JObject m) v =
     (\<exists>m'. v = JObject m' \<and> list_all2 (\<lambda>p q. fst p = fst q \<and> renders i64 f64 (snd p) (snd q)) m m')"
| "renders i64 f64 x v = (v = x)"

lemma list_all2_no_numbers:
  "list_all2 (renders i64 f64) vs ws \<Longrightarrow> (\<And>v w. v \<in> set vs \<Longrightarrow> renders i64 f64 v w \<Longrightarrow> no_numbers w) \<Longrightarrow>
     \<forall>w \<in> set ws. no_numbers w"
  by (induction rule: list_all2_induct) auto

lemma renders_no_numbers: "renders i64 f64 v w \<Longrightarrow> no_numbers w"
proof (induction v arbitrary: w)
  case (JArray vs)
  then show ?case using list_all2_no_numbers by fastforce
next
  case (JObject m)
  then obtain m' where m': "w = JObject m'"
    "list_all2 (\<lambda>p q. fst p = fst q \<and> renders i64 f64 (snd p) (snd q)) m m'" by auto
  have "no_numbers (snd q)" if q: "q \<in> set m'" for q
  proof -
    obtain p where p: "p \<in> set m" "renders i64 f64 (snd p) (snd q)"
      using m'(2) q unfolding list_all2_conv_all_nth in_set_conv_nth by metis
    from p(1) have "snd p \<in> Basic_BNFs.snds p" by (metis snds.intros)
    with JObject.IH p show ?thesis by blast
  qed
  with m'(1) show ?case by simp
qed (auto split: option.splits)

lemma translate_renders:
  "translateObject i64 f64 v = Inr w \<Longrightarrow> renders i64 f64 v w"
  "translate_fields i64 f64 m = Inr m' \<Longrightarrow> list_all2 (\<lambda>p q. fst p = fst q \<and> renders i64 f64 (snd p) (snd q)) m m'"
  "translate_elems i64 f64 vs = Inr ws \<Longrightarrow> list_all2 (renders i64 f64) vs ws"
  by (induction i64 f64 v and i64 f64 m and i64 f64 vs arbitrary: w and m' and ws
      rule: translateObject_translate_fields_translate_elems.induct)
    (auto split: sum.splits option.splits)

section \<open>Properties\<close>

text \<open>C36: decoded generic data has no textual numbers. When \<open>UnmarshalJSON\<close> succeeds on a document that is
  not empty, the data of the map is the document with every number, at whatever depth, replaced by
  an integer where it reads as one and by a float otherwise; nothing else changes and no
  \<open>json.Number\<close> is left. An empty document leaves what the map had before.\<close>

theorem UnmarshalJSON_numbers:
  assumes "nc_decode nc bytes = Inr d" and "UnmarshalJSON nc bytes (Some g) = (None, Some g')"
  shows "if d = [] then g' = g
    else \<exists>m. g' = GenericMap (Some m) \<and> renders (nc_int64 nc) (nc_float64 nc) (JObject d) (JObject m) \<and>
      no_numbers (JObject m)"
proof -
  from assms obtain v where v: "translateObject (nc_int64 nc) (nc_float64 nc) (JObject d) = Inr v"
    "g' = (if length (json_as_map v) > 0 then GenericMap (Some (json_as_map v)) else g)"
    by (auto simp: UnmarshalJSON_def split: sum.splits if_splits)
  from translate_renders(1) [OF v(1)] obtain m where m: "v = JObject m"
    "renders (nc_int64 nc) (nc_float64 nc) (JObject d) (JObject m)" by auto
  then have len: "length m = length d" by (auto dest: list_all2_lengthD)
  show ?thesis
    using v(2) m len renders_no_numbers [OF m(2)] by (auto simp del: renders.simps no_numbers.simps)
qed

definition demo_codec :: number_codec where
  "demo_codec = \<lparr>nc_decode = (\<lambda>_. Inr [(''n'', JArray [JNumber ''7'', JNumber ''0.5''])]), nc_marshal = (\<lambda>_. Inr []),
     nc_int64 = (\<lambda>t. if t = ''7'' then Some 7 else None), nc_float64 = Inr\<rparr>"

lemma UnmarshalJSON_numbers_witness:
  "\<exists>m. snd (UnmarshalJSON demo_codec [] (Some (GenericMap None))) = Some (GenericMap (Some m)) \<and> no_numbers (JObject m)"
proof -
  have 1: "nc_decode demo_codec [] = Inr [(''n'', JArray [JNumber ''7'', JNumber ''0.5''])]" by (simp add: demo_codec_def)
  have 2: "UnmarshalJSON demo_codec [] (Some (GenericMap None)) =
      (None, Some (GenericMap (Some [(''n'', JArray [JInt 7, JFloat ''0.5''])])))"
    by (simp add: UnmarshalJSON_def demo_codec_def)
  from UnmarshalJSON_numbers [OF 1 2] show ?thesis unfolding 2 by auto
qed

text \<open>Merging and sorting maps. In the merge of two generic maps the second one wins, and neither is
  changed; the sorted entries of a map are exactly its entries, in strictly increasing order of
  the keys, whatever the order in which the map is visited.\<close>

theorem Merge_Sorted:
  assumes "gm_ok m1" and "gm_ok m2"
  shows "(\<exists>m. Merge (Some (GenericMap (Some m1))) (Some (GenericMap (Some m2))) = Some (GenericMap (Some m)) \<and> gm_ok m \<and>
      (\<forall>k. map_of m k = (case map_of m2 k of Some v \<Rightarrow> Some v | None \<Rightarrow> map_of m1 k)) \<and>
      sorted_wrt (\<lambda>a b. en_Key a < en_Key b) (Sorted m) \<and>
      (\<lambda>e. (en_Key e, en_Value e)) ` set (Sorted m) = set m)"
proof -
  define m where "m = Concat [m1, m2]"
  have ok: "gm_ok m" by (simp add: m_def gm_ok_Concat)
  have "sorted_wrt (\<lambda>a b. en_Key a < en_Key b) (Sorted m)"
    using strict_sorted_SortedKeys [OF ok] by (simp add: Sorted_def sorted_wrt_map)
  moreover have "(\<lambda>e. (en_Key e, en_Value e)) ` set (Sorted m) = set m"
  proof -
    have "(k, v) \<in> (\<lambda>e. (en_Key e, en_Value e)) ` set (Sorted m) \<longleftrightarrow> (k, v) \<in> set m" for k v
    proof
      assume "(k, v) \<in> (\<lambda>e. (en_Key e, en_Value e)) ` set (Sorted m)"
      then have "k \<in> fst ` set m" and v: "v = the (map_of m k)" by (force simp: Sorted_def)+
      then obtain u where "map_of m k = Some u" by (auto simp: fst_image_iff)
      with v show "(k, v) \<in> set m" by (simp add: gm_mem_iff [OF ok])
    next
      assume kv: "(k, v) \<in> set m"
      then have "map_of m k = Some v" by (simp add: gm_mem_iff [OF ok])
      then show "(k, v) \<in> (\<lambda>e. (en_Key e, en_Value e)) ` set (Sorted m)"
        using kv by (force simp: Sorted_def image_iff)
    qed
    then show ?thesis by auto
  qed
  moreover have "map_of m k = (case map_of m2 k of Some v \<Rightarrow> Some v | None \<Rightarrow> map_of m1 k)" for k
    using map_of_Concat [of "[m1, m2]" k] assms by (auto simp: m_def split: option.splits)
  moreover have "Merge (Some (GenericMap (Some m1))) (Some (GenericMap (Some m2))) = Some (GenericMap (Some m))"
    by (simp add: Merge_def GetData_def m_def)
  ultimately show ?thesis using ok by blast
qed

lemma Merge_Sorted_witness:
  "\<exists>m. Merge (Some (GenericMap (Some [(''b'', JInt 1), (''a'', JInt 2)]))) (Some (GenericMap (Some [(''b'', JInt 3)]))) =
      Some (GenericMap (Some m)) \<and> map_of m ''b'' = Some (JInt 3)"
proof -
  have "gm_ok [(''b'', JInt 1), (''a'', JInt 2)]" and "gm_ok [(''b'', JInt 3)]" by (simp_all add: gm_ok_def)
  from Merge_Sorted [OF this] show ?thesis by auto
qed

end
