(* ===== verification/Yaml.thy ===== *)
theory Yaml
  imports ApplyPatch ApplyExample
begin

text \<open>
  Reading and exporting objects: pkg/yaml/yaml.go.

  An unstructured object is its map. The YAML reader and encoder, the decoder of unstructured objects
  and the getters of \<open>Unstructured\<close> belong to libraries and are the fields of \<open>yaml_lib\<close>; a reader gives
  the documents of a text and the error that ended it, or \<^const>\<open>None\<close> at its end.
\<close>

datatype decoded = UObject jmap | UList "jmap list"

record yaml_lib =
  yl_read :: "gostring \<Rightarrow> gostring list \<times> err option"
  yl_ToJSON :: "gostring \<Rightarrow> err + gostring"
  yl_check :: "gostring \<Rightarrow> err + jmap"
  yl_Decode :: "gostring \<Rightarrow> err + decoded"
  yl_Marshal :: "jmap \<Rightarrow> err + gostring"
  yl_GetName :: "jmap \<Rightarrow> gostring"
  yl_GetGenerateName :: "jmap \<Rightarrow> gostring"
  yl_GetNamespace :: "jmap \<Rightarrow> gostring"
  yl_GetAnnotations :: "jmap \<Rightarrow> (gostring, gostring) gomap"
  yl_GetLabels :: "jmap \<Rightarrow> (gostring, gostring) gomap"

section \<open>Reading\<close>

definition toObjects :: "yaml_lib \<Rightarrow> gostring \<Rightarrow> err + jmap list" where
  "toObjects yl raw =
     (case yl_ToJSON yl raw of
        Inl e \<Rightarrow> Inl e
      | Inr bytes \<Rightarrow>
        (case yl_check yl bytes of
           Inl e \<Rightarrow> Inl e
         | Inr check \<Rightarrow>
           if length check = 0 then Inr []
           else (case yl_Decode yl bytes of
                   Inl e \<Rightarrow> Inl e
                 | Inr (UList items) \<Rightarrow> Inr items
                 | Inr (UObject obj) \<Rightarrow> Inr [obj])))"

fun ToObjects_loop :: "yaml_lib \<Rightarrow> gostring list \<Rightarrow> err option \<Rightarrow> jmap list \<Rightarrow> err + jmap list" where
  "ToObjects_loop yl [] end_err result = (case end_err of None \<Rightarrow> Inr result | Some e \<Rightarrow> Inl e)"
| "ToObjects_loop yl (raw # docs) end_err result =
     (case toObjects yl raw of
        Inl e \<Rightarrow> Inl e
      | Inr obj \<Rightarrow> ToObjects_loop yl docs end_err (result @ obj))"

definition ToObjects :: "yaml_lib \<Rightarrow> gostring \<Rightarrow> err + jmap list" where
  "ToObjects yl input = (case yl_read yl input of (docs, e) \<Rightarrow> ToObjects_loop yl docs e [])"

section \<open>Cleaning\<close>

definition cleanPrefix :: "gostring list" where "cleanPrefix = [''kubectl.kubernetes.io/'']"
definition cleanContains :: "gostring list" where "cleanContains = [''cattle.io/'']"

definition cleanMap :: "(gostring, gostring) gomap \<Rightarrow> (gostring, gostring) gomap" where
  "cleanMap m = filter (\<lambda>(k, v). \<not> list_ex (\<lambda>prefix. has_prefix k prefix) cleanPrefix) m"

definition CleanAnnotationsForExport :: "(gostring, gostring) gomap \<Rightarrow> (gostring, gostring) gomap" where
  "CleanAnnotationsForExport annotations =
     filter (\<lambda>(k, v). \<not> list_ex (\<lambda>prefix. has_prefix k prefix) cleanPrefix \<and>
                      \<not> list_ex (\<lambda>contains. str_contains k contains) cleanContains) annotations"

definition json_strings :: "(gostring, gostring) gomap \<Rightarrow> json" where
  "json_strings m = JObject (map (\<lambda>(k, v). (k, JString v)) m)"

text \<open>The metadata that is kept; an object without a name of either sort cannot be exported.\<close>

definition put_clean :: "gostring \<Rightarrow> (gostring, gostring) gomap \<Rightarrow> jmap \<Rightarrow> jmap" where
  "put_clean key values metadata =
     (if length values > 0
      then (let values = cleanMap values
            in if length values > 0 then AList.update key (json_strings values) metadata
               else AList.delete key metadata)
      else metadata)"

definition clean_metadata :: "yaml_lib \<Rightarrow> jmap \<Rightarrow> err + jmap" where
  "clean_metadata yl data =
     (case (if length (yl_GetName yl data) > 0 then Some [(''name'', JString (yl_GetName yl data))]
            else if length (yl_GetGenerateName yl data) > 0
            then Some [(''generateName'', JString (yl_GetGenerateName yl data))]
            else None) of
        None \<Rightarrow> Inl (Plain ''either name or generateName must be set on obj'')
      | Some metadata \<Rightarrow>
        (let metadata = (if yl_GetNamespace yl data \<noteq> []
                         then AList.update ''namespace'' (JString (yl_GetNamespace yl data)) metadata else metadata);
             metadata = put_clean ''annotations'' (yl_GetAnnotations yl data) metadata
         in Inr (put_clean ''labels'' (yl_GetLabels yl data) metadata)))"

definition drop_empty_spec :: "jmap \<Rightarrow> jmap" where
  "drop_empty_spec data =
     (case map_of data ''spec'' of
        Some JNull \<Rightarrow> AList.delete ''spec'' data
      | Some (JObject []) \<Rightarrow> AList.delete ''spec'' data
      | _ \<Rightarrow> data)"

definition clean_data :: "yaml_lib \<Rightarrow> jmap \<Rightarrow> err + jmap" where
  "clean_data yl data =
     (case clean_metadata yl data of
        Inl e \<Rightarrow> Inl e
      | Inr metadata \<Rightarrow>
        Inr (AList.delete ''status'' (AList.update ''metadata'' (JObject metadata) (drop_empty_spec data))))"

definition CleanObjectForExport :: "yaml_lib \<Rightarrow> apply_env \<Rightarrow> kscheme \<Rightarrow> kobject \<Rightarrow> err + jmap" where
  "CleanObjectForExport yl env sch obj =
     (case (if gvk_kind (k_gvk obj) = []
            then (case gvk_for sch obj of
                    Inl e \<Rightarrow> Inl (Wrap ''kind and/or apiVersion is not set on input object: '' e)
                  | Inr g \<Rightarrow> Inr (obj\<lparr>k_gvk := g\<rparr>))
            else Inr obj) of
        Inl e \<Rightarrow> Inl e
      | Inr obj1 \<Rightarrow>
        (case ToMapInterface env obj1 of
           Inl e \<Rightarrow> Inl e
         | Inr data \<Rightarrow> clean_data yl data))"

section \<open>Writing\<close>

definition doc_separator :: gostring where "doc_separator = CHR 0x0A # ''---'' @ [CHR 0x0A]"

text \<open>\<open>ToBytes\<close> on the maps of the objects; an error is given without what was written.\<close>

fun write_docs :: "yaml_lib \<Rightarrow> bool \<Rightarrow> (err + jmap) list \<Rightarrow> gostring \<Rightarrow> err + gostring" where
  "write_docs yl is_first [] buffer = Inr buffer"
| "write_docs yl is_first (obj # objs) buffer =
     (let buffer = (if is_first then buffer else buffer @ doc_separator)
      in case obj of
           Inl e \<Rightarrow> Inl e
         | Inr data \<Rightarrow>
           (case yl_Marshal yl data of
              Inl e \<Rightarrow> Inl (Wrap ''failed to encode: '' e)
            | Inr bytes \<Rightarrow> write_docs yl False objs (buffer @ bytes)))"

definition yaml_ToBytes :: "yaml_lib \<Rightarrow> jmap list \<Rightarrow> err + gostring" where
  "yaml_ToBytes yl objects = (if length objects = 0 then Inr [] else write_docs yl True (map Inr objects) [])"

definition Export :: "yaml_lib \<Rightarrow> apply_env \<Rightarrow> kscheme \<Rightarrow> kobject list \<Rightarrow> err + gostring" where
  "Export yl env sch objects =
     (if length objects = 0 then Inr []
      else write_docs yl True (map (CleanObjectForExport yl env sch) objects) [])"

section \<open>Lemmas\<close>

lemma write_docs_Inr:
  "write_docs yl is_first objs buffer = Inr out \<Longrightarrow>
     \<exists>datas bytes. objs = map Inr datas \<and> list_all2 (\<lambda>d b. yl_Marshal yl d = Inr b) datas bytes \<and>
       out = buffer @ (if is_first \<or> objs = [] then [] else doc_separator) @ str_join bytes doc_separator"
proof (induction objs arbitrary: is_first buffer)
  case (Cons obj objs)
  obtain data where d: "obj = Inr data" using Cons.prems by (cases obj) (auto simp: Let_def)
  obtain b where b: "yl_Marshal yl data = Inr b" using Cons.prems d by (cases "yl_Marshal yl data") (auto simp: Let_def)
  have "write_docs yl False objs ((if is_first then buffer else buffer @ doc_separator) @ b) = Inr out"
    using Cons.prems d b by (simp add: Let_def)
  from Cons.IH [OF this] obtain datas bytes where
    r: "objs = map Inr datas" "list_all2 (\<lambda>d b. yl_Marshal yl d = Inr b) datas bytes"
      "out = ((if is_first then buffer else buffer @ doc_separator) @ b) @
         (if objs = [] then [] else doc_separator) @ str_join bytes doc_separator"
    by auto
  have "bytes = [] \<longleftrightarrow> objs = []" using r(1,2) by (cases bytes) auto
  then have "str_join (b # bytes) doc_separator = b @ (if objs = [] then [] else doc_separator) @ str_join bytes doc_separator"
    by (cases bytes) auto
  then have "out = buffer @ (if is_first \<or> obj # objs = [] then [] else doc_separator) @ str_join (b # bytes) doc_separator"
    using r(3) by simp
  moreover have "list_all2 (\<lambda>d b. yl_Marshal yl d = Inr b) (data # datas) (b # bytes)" using r(2) b by simp
  moreover have "obj # objs = map Inr (data # datas)" using r(1) d by simp
  ultimately show ?case by (intro exI [of _ "data # datas"] exI [of _ "b # bytes"]) simp
qed simp

lemma ToObjects_loop_Inr:
  "list_all2 (\<lambda>raw obj. toObjects yl raw = Inr [obj]) docs objs \<Longrightarrow> ToObjects_loop yl docs None result = Inr (result @ objs)"
  by (induction docs objs arbitrary: result rule: list_all2_induct) auto

lemma cleanMap_prefix: "(k, v) \<in> set (cleanMap m) \<Longrightarrow> \<not> has_prefix k ''kubectl.kubernetes.io/''"
  by (auto simp: cleanMap_def cleanPrefix_def)

lemma cleanMap_idem [simp]: "cleanMap (cleanMap m) = cleanMap m"
  by (simp add: cleanMap_def)

lemma map_of_drop_empty_spec: "k \<noteq> ''spec'' \<Longrightarrow> map_of (drop_empty_spec d) k = map_of d k"
  by (auto simp: drop_empty_spec_def split: option.splits json.splits list.splits)

lemma drop_empty_spec_spec:
  "map_of (drop_empty_spec d) ''spec'' =
     (if map_of d ''spec'' \<in> {Some JNull, Some (JObject [])} then None else map_of d ''spec'')"
  by (auto simp: drop_empty_spec_def split: option.splits json.splits list.splits)

lemma map_of_put_clean:
  "map_of (put_clean key vs md) k =
     (if k = key \<and> vs \<noteq> [] then (if cleanMap vs \<noteq> [] then Some (json_strings (cleanMap vs)) else None)
      else map_of md k)"
  by (auto simp: put_clean_def Let_def)

lemma clean_data_fields:
  assumes "clean_data yl d = Inr d'"
  shows "\<exists>md. clean_metadata yl d = Inr md \<and> map_of d' ''metadata'' = Some (JObject md) \<and> map_of d' ''status'' = None \<and>
    (\<forall>k. k \<noteq> ''metadata'' \<and> k \<noteq> ''status'' \<longrightarrow> map_of d' k = map_of (drop_empty_spec d) k)"
  using assms by (auto simp: clean_data_def split: sum.splits)

lemma clean_metadata_keys:
  assumes "clean_metadata yl d = Inr md"
  shows "dom (map_of md) \<subseteq> {''name'', ''generateName'', ''namespace'', ''annotations'', ''labels''}"
  using assms by (auto simp: clean_metadata_def Let_def map_of_put_clean split: option.splits if_splits)

lemma clean_metadata_values:
  assumes "clean_metadata yl d = Inr md" and "key = ''annotations'' \<or> key = ''labels''"
  shows "map_of md key =
    (let vs = cleanMap (if key = ''annotations'' then yl_GetAnnotations yl d else yl_GetLabels yl d)
     in if vs = [] then None else Some (json_strings vs))"
  using assms by (auto simp: clean_metadata_def Let_def map_of_put_clean cleanMap_def split: option.splits if_splits)

section \<open>Properties\<close>

text \<open>what is exported can be imported elsewhere. A cleaned object has no status; its metadata has at
  most a name or a name to generate, a namespace, annotations and labels, and none of
  these two has a key that kubectl owns; a spec that is null or empty is gone, and every other
  field is as it was.\<close>

theorem clean_data_exportable:
  assumes "clean_data yl d = Inr d'"
  shows "\<exists>md. map_of d' ''metadata'' = Some (JObject md) \<and> map_of d' ''status'' = None \<and>
    dom (map_of md) \<subseteq> {''name'', ''generateName'', ''namespace'', ''annotations'', ''labels''} \<and>
    (\<forall>key \<in> {''annotations'', ''labels''}. \<forall>m. map_of md key = Some (JObject m) \<longrightarrow>
       m \<noteq> [] \<and> (\<forall>k \<in> set (gm_keys m). \<not> has_prefix k ''kubectl.kubernetes.io/'')) \<and>
    map_of d' ''spec'' \<noteq> Some JNull \<and> map_of d' ''spec'' \<noteq> Some (JObject []) \<and>
    (\<forall>k. k \<notin> {''metadata'', ''status'', ''spec''} \<longrightarrow> map_of d' k = map_of d k)"
proof -
  obtain md where md: "clean_metadata yl d = Inr md" "map_of d' ''metadata'' = Some (JObject md)" "map_of d' ''status'' = None"
    "\<forall>k. k \<noteq> ''metadata'' \<and> k \<noteq> ''status'' \<longrightarrow> map_of d' k = map_of (drop_empty_spec d) k"
    using clean_data_fields [OF assms] by blast
  have clean: "m \<noteq> [] \<and> (\<forall>k \<in> set (gm_keys m). \<not> has_prefix k ''kubectl.kubernetes.io/'')"
    if k: "key = ''annotations'' \<or> key = ''labels''" and m: "map_of md key = Some (JObject m)" for key m
  proof -
    obtain vs where vs: "m = map (\<lambda>(k, v). (k, JString v)) (cleanMap vs)" "cleanMap vs \<noteq> []"
      using clean_metadata_values [OF md(1) k] m
      by (auto simp: Let_def json_strings_def split: if_splits)
    then show ?thesis using cleanMap_prefix by fastforce
  qed
  have spec: "map_of d' ''spec'' \<noteq> Some JNull \<and> map_of d' ''spec'' \<noteq> Some (JObject [])"
    using md(4) drop_empty_spec_spec [of d] by auto
  have rest: "\<forall>k. k \<notin> {''metadata'', ''status'', ''spec''} \<longrightarrow> map_of d' k = map_of d k"
    using md(4) map_of_drop_empty_spec by auto
  show ?thesis
    using md(2,3) clean_metadata_keys [OF md(1)] clean spec rest by blast
qed

text \<open>A library whose reader and decoder undo the separator and the encoder.\<close>

definition reads_back :: "yaml_lib \<Rightarrow> bool" where
  "reads_back yl \<longleftrightarrow>
     (\<forall>ds bs. list_all2 (\<lambda>d b. yl_Marshal yl d = Inr b) ds bs \<longrightarrow> yl_read yl (str_join bs doc_separator) = (bs, None)) \<and>
     (\<forall>d b. d \<noteq> [] \<and> yl_Marshal yl d = Inr b \<longrightarrow>
        (\<exists>j. yl_ToJSON yl b = Inr j \<and> yl_check yl j = Inr d \<and> yl_Decode yl j = Inr (UObject d)))"

lemma clean_data_not_empty: "clean_data yl d = Inr d' \<Longrightarrow> d' \<noteq> []"
  using clean_data_fields by fastforce

lemma CleanObjectForExport_data:
  assumes "CleanObjectForExport yl env sch ob = Inr d"
  obtains x where "clean_data yl x = Inr d"
proof -
  have "\<exists>x. clean_data yl x = Inr d"
    using assms unfolding CleanObjectForExport_def by (auto split: sum.splits)
  with that show thesis by blast
qed



text \<open>A library for one document, and a service that was applied with kubectl.\<close>

lemma str_split_join:
  assumes "sep = c # rest" and "bs \<noteq> []" and "\<forall>b \<in> set bs. c \<notin> set b"
  shows "str_split (str_join bs sep) sep = bs"
  using assms(2,3)
proof (induction bs)
  case (Cons b bs)
  show ?case
  proof (cases bs)
    case Nil
    then show ?thesis using Cons.prems assms(1) by (subst str_split.simps) (simp add: str_cut_fresh)
  next
    case (Cons b2 bs2)
    then have "str_cut (str_join (b # bs) sep) sep = (b, str_join bs sep, True)"
      using Cons.prems assms(1) str_cut_append_fresh [of sep c rest b "str_join bs sep"] by simp
    then show ?thesis
      using Cons.IH Cons.prems Cons assms(1) by (subst str_split.simps) simp
  qed
qed simp

definition svc_data :: jmap where
  "svc_data = [(''kind'', JString ''Service''),
     (''metadata'', JObject [(''name'', JString ''web''), (''uid'', JString ''77'')]),
     (''spec'', JObject []), (''status'', JObject [(''ready'', JBool True)])]"

definition svc_clean :: jmap where
  "svc_clean = [(''kind'', JString ''Service''), (''metadata'', JObject [(''name'', JString ''web''),
     (''annotations'', JObject [(''team'', JString ''a'')])])]"

definition demo_lib :: yaml_lib where
  "demo_lib = \<lparr>
     yl_read = (\<lambda>s. (if s = [] then [] else str_split s doc_separator, None)),
     yl_ToJSON = Inr, yl_check = (\<lambda>_. Inr svc_clean), yl_Decode = (\<lambda>_. Inr (UObject svc_clean)),
     yl_Marshal = (\<lambda>d. if d = svc_clean then Inr ''kind: Service'' else Inl (Plain ''no text'')),
     yl_GetName = (\<lambda>d. ''web''), yl_GetGenerateName = (\<lambda>d. []), yl_GetNamespace = (\<lambda>d. []),
     yl_GetAnnotations = (\<lambda>d. [(''kubectl.kubernetes.io/last'', ''x''), (''team'', ''a'')]),
     yl_GetLabels = (\<lambda>d. [])\<rparr>"

definition svc_object :: kobject where
  "svc_object = (zero_object ''*unstructured.Unstructured'' (GVK [] ''v1'' ''Service''))\<lparr>k_body := JObject svc_data\<rparr>"

lemma demo_lib_reads_back: "reads_back demo_lib"
proof -
  have "yl_read demo_lib (str_join bs doc_separator) = (bs, None)"
    if "list_all2 (\<lambda>d b. yl_Marshal demo_lib d = Inr b) ds bs" for ds bs
  proof (cases "bs = []")
    case False
    have all: "\<forall>b \<in> set bs. b = ''kind: Service''"
      using that by (induction rule: list_all2_induct) (auto simp: demo_lib_def split: if_splits)
    have "CHR 0x0A \<notin> set ''kind: Service''" by simp
    with all have "\<forall>b \<in> set bs. CHR 0x0A \<notin> set b" by metis
    from str_split_join [OF doc_separator_def False this]
    have split: "str_split (str_join bs doc_separator) doc_separator = bs" .
    obtain b bs' where "bs = b # bs'" "b \<noteq> []" using False all by (cases bs) auto
    then have "str_join bs doc_separator \<noteq> []" by (cases bs') auto
    with split show ?thesis by (simp add: demo_lib_def)
  qed (simp add: demo_lib_def)
  then show ?thesis by (auto simp: reads_back_def demo_lib_def split: if_splits)
qed

lemma clean_svc: "clean_data demo_lib svc_data = Inr svc_clean"
  by (simp add: clean_data_def clean_metadata_def demo_lib_def put_clean_def cleanMap_def cleanPrefix_def
        drop_empty_spec_def svc_data_def svc_clean_def json_strings_def has_prefix_def)

lemma clean_data_exportable_witness:
  "map_of svc_clean ''status'' = None \<and> map_of svc_clean ''spec'' \<noteq> Some (JObject []) \<and>
   map_of svc_clean ''kind'' = map_of svc_data ''kind''"
  using clean_data_exportable [OF clean_svc] by auto


end
