(* ===== verification/Runtimes.thy ===== *)
theory Runtimes
  imports MultiClients Watcher
begin

text \<open>
  Making the clients and caches of a process: pkg/runtime/clients.go; and what watching with them does.

  What client-go and controller-runtime construct from a REST configuration is a field of
  \<open>makers\<close>; \<open>'c\<close> is a REST configuration, \<open>'m\<close> a REST mapper and \<open>'a\<close> a cache. The factory of
  shared controllers and the backend that are made of the result are those of
  \<open>NewSharedControllerFactory\<close> and \<open>newBackend\<close>; their rate limiter is client-go's.
\<close>

record 'c Config =
  cfg_Rest :: 'c
  cfg_Namespace :: gostring

record ('c, 'm, 'a, 'w) makers =
  mk_mapper :: "'c \<Rightarrow> err + 'm"
  mk_uncached :: "'c \<Rightarrow> 'm \<Rightarrow> err + 'w kclient"
  mk_cache :: "'c \<Rightarrow> 'm \<Rightarrow> gostring option \<Rightarrow> err + 'a"
  mk_cached :: "'c \<Rightarrow> 'm \<Rightarrow> 'a \<Rightarrow> err + 'w kclient"

text \<open>The cache is limited to a namespace when there is one.\<close>

definition getClients :: "('c, 'm, 'a, 'w) makers \<Rightarrow> 'c Config \<Rightarrow> err + 'w kclient \<times> 'w kclient \<times> 'a" where
  "getClients mk cfg =
     (case mk_mapper mk (cfg_Rest cfg) of
        Inl e \<Rightarrow> Inl e
      | Inr mapper \<Rightarrow>
        (case mk_uncached mk (cfg_Rest cfg) mapper of
           Inl e \<Rightarrow> Inl e
         | Inr uncachedClient \<Rightarrow>
           (let namespaces = (if cfg_Namespace cfg \<noteq> [] then Some (cfg_Namespace cfg) else None)
            in case mk_cache mk (cfg_Rest cfg) mapper namespaces of
                 Inl e \<Rightarrow> Inl e
               | Inr theCache \<Rightarrow>
                 (case mk_cached mk (cfg_Rest cfg) mapper theCache of
                    Inl e \<Rightarrow> Inl e
                  | Inr cachedClient \<Rightarrow> Inr (uncachedClient, cachedClient, theCache)))))"

record ('w, 'a) tables =
  tb_clients :: "(gostring, 'w kclient option) gomap"
  tb_cachedClients :: "(gostring, 'w kclient option) gomap"
  tb_caches :: "(gostring, 'a) gomap"

definition no_tables :: "('w, 'a) tables" where
  "no_tables = \<lparr>tb_clients = [], tb_cachedClients = [], tb_caches = []\<rparr>"

fun group_clients ::
  "('c, 'm, 'a, 'w) makers \<Rightarrow> (gostring, 'c Config) gomap \<Rightarrow> ('w, 'a) tables \<Rightarrow> err + ('w, 'a) tables" where
  "group_clients mk [] t = Inr t"
| "group_clients mk ((key, cfg) # cfgs) t =
     (case getClients mk cfg of
        Inl e \<Rightarrow> Inl e
      | Inr (uncachedClient, cachedClient, theCache) \<Rightarrow>
        group_clients mk cfgs
          \<lparr>tb_clients = AList.update key (Some uncachedClient) (tb_clients t),
           tb_cachedClients = AList.update key (Some cachedClient) (tb_cachedClients t),
           tb_caches = AList.update key theCache (tb_caches t)\<rparr>)"

text \<open>The aggregates the backend is made of.\<close>

record ('w, 'a) runtime =
  ru_uncached :: "'w multiClient"
  ru_cached :: "'w multiClient"
  ru_cache :: "'a multiCache"

definition NewRuntimeWithConfigs ::
  "('c, 'm, 'a, 'w) makers \<Rightarrow> 'c Config \<Rightarrow> (gostring, 'c Config) gomap \<Rightarrow> err + ('w, 'a) runtime" where
  "NewRuntimeWithConfigs mk defaultConfig apiGroupConfigs =
     (case group_clients mk apiGroupConfigs no_tables of
        Inl e \<Rightarrow> Inl e
      | Inr t \<Rightarrow>
        (case getClients mk defaultConfig of
           Inl e \<Rightarrow> Inl e
         | Inr (uncachedClient, cachedClient, theCache) \<Rightarrow>
           Inr \<lparr>ru_uncached = NewClient (Some uncachedClient) (tb_clients t),
                ru_cached = NewClient (Some cachedClient) (tb_cachedClients t),
                ru_cache = \<lparr>mca_default = Some theCache, mca_caches = tb_caches t\<rparr>\<rparr>))"

definition NewRuntimeWithConfig :: "('c, 'm, 'a, 'w) makers \<Rightarrow> 'c Config \<Rightarrow> err + ('w, 'a) runtime" where
  "NewRuntimeWithConfig mk cfg = NewRuntimeWithConfigs mk cfg []"

definition NewRuntime :: "('c, 'm, 'a, 'w) makers \<Rightarrow> 'c \<Rightarrow> err + ('w, 'a) runtime" where
  "NewRuntime mk rest = NewRuntimeWithConfig mk \<lparr>cfg_Rest = rest, cfg_Namespace = []\<rparr>"

definition NewRuntimeForNamespace :: "('c, 'm, 'a, 'w) makers \<Rightarrow> 'c \<Rightarrow> gostring \<Rightarrow> err + ('w, 'a) runtime" where
  "NewRuntimeForNamespace mk rest namespace = NewRuntimeWithConfigs mk \<lparr>cfg_Rest = rest, cfg_Namespace = namespace\<rparr> []"

section \<open>Properties\<close>

lemma group_clients_tables:
  assumes "group_clients mk cfgs t = Inr t'" and "gm_ok cfgs"
  shows "case map_of cfgs g of
      None \<Rightarrow> map_of (tb_clients t') g = map_of (tb_clients t) g \<and>
        map_of (tb_cachedClients t') g = map_of (tb_cachedClients t) g \<and> map_of (tb_caches t') g = map_of (tb_caches t) g
    | Some cfg \<Rightarrow> (\<exists>u c a. getClients mk cfg = Inr (u, c, a) \<and> map_of (tb_clients t') g = Some (Some u) \<and>
        map_of (tb_cachedClients t') g = Some (Some c) \<and> map_of (tb_caches t') g = Some a)"
  using assms
proof (induction cfgs arbitrary: t)
  case (Cons p cfgs)
  obtain key cfg where p: "p = (key, cfg)" by (cases p)
  with Cons.prems(1) obtain u c a where c: "getClients mk cfg = Inr (u, c, a)"
    by (auto split: sum.splits)
  define t1 where "t1 = \<lparr>tb_clients = AList.update key (Some u) (tb_clients t),
      tb_cachedClients = AList.update key (Some c) (tb_cachedClients t), tb_caches = AList.update key a (tb_caches t)\<rparr>"
  have "group_clients mk cfgs t1 = Inr t'" using Cons.prems(1) p c by (simp add: t1_def)
  moreover have "gm_ok cfgs" using Cons.prems(2) p by (simp add: gm_ok_Cons)
  ultimately have "case map_of cfgs g of
      None \<Rightarrow> map_of (tb_clients t') g = map_of (tb_clients t1) g \<and>
        map_of (tb_cachedClients t') g = map_of (tb_cachedClients t1) g \<and> map_of (tb_caches t') g = map_of (tb_caches t1) g
    | Some cfg \<Rightarrow> (\<exists>u c a. getClients mk cfg = Inr (u, c, a) \<and> map_of (tb_clients t') g = Some (Some u) \<and>
        map_of (tb_cachedClients t') g = Some (Some c) \<and> map_of (tb_caches t') g = Some a)"
    by (rule Cons.IH)
  moreover have "g = key \<Longrightarrow> map_of cfgs g = None" using Cons.prems(2) p by (simp add: gm_ok_Cons fst_image_iff)
  ultimately show ?case
    using c p by (cases "g = key") (auto simp: t1_def split: option.splits)
qed simp

lemma map_of_FakeWatch: "map_of (map (\<lambda>(g, c). (g, FakeWatch c)) cs) g = map_option FakeWatch (map_of cs g)"
  by (induction cs) auto

text \<open>C29: a group is served from one configuration. When a runtime is made, the uncached client, the
  cached client and the cache that requests for a group use are those made from the
  configuration of that group, or from the default one if it has none; so what is written
  to a group goes to the server that its reads come from. When one configuration fails, there is
  no runtime.\<close>

theorem runtime_group_config:
  assumes "gm_ok cfgs" and "cfg = (case map_of cfgs g of Some cfg \<Rightarrow> cfg | None \<Rightarrow> d)"
    and "NewRuntimeWithConfigs mk d cfgs = Inr r"
  shows "\<exists>u c a. getClients mk cfg = Inr (u, c, a) \<and>
    chosen (getClientForGroup (ru_uncached r) g) = Inr u \<and>
    chosen (getClientForGroup (ru_cached r) g) = Inr c \<and>
    getCacheForGroup (ru_cache r) g = Inr a"
proof -
  from assms(3) obtain t u c a where t: "group_clients mk cfgs no_tables = Inr t" and d: "getClients mk d = Inr (u, c, a)"
    and r: "r = \<lparr>ru_uncached = NewClient (Some u) (tb_clients t), ru_cached = NewClient (Some c) (tb_cachedClients t),
                ru_cache = \<lparr>mca_default = Some a, mca_caches = tb_caches t\<rparr>\<rparr>"
    by (auto simp: NewRuntimeWithConfigs_def split: sum.splits)
  note tabs = group_clients_tables [OF t assms(1), of g]
  show ?thesis
  proof (cases "map_of cfgs g")
    case None
    with tabs d assms(2) show ?thesis
      by (auto simp: r no_tables_def getClientForGroup_def NewClient_def NewWithWatch_def map_of_FakeWatch chosen_def
            getCacheForGroup_def)
  next
    case (Some x)
    with tabs assms(2) show ?thesis
      by (auto simp: r getClientForGroup_def NewClient_def NewWithWatch_def map_of_FakeWatch chosen_def getCacheForGroup_def)
  qed
qed

definition demo_makers :: "(gostring, gostring, gostring, gostring list) makers" where
  "demo_makers = \<lparr>mk_mapper = Inr, mk_uncached = (\<lambda>c m. Inr (named_client c)),
     mk_cache = (\<lambda>c m ns. Inr c), mk_cached = (\<lambda>c m a. Inr (named_client (''cached '' @ c)))\<rparr>"

lemma runtime_group_config_witness:
  "\<exists>r. NewRuntimeWithConfigs demo_makers \<lparr>cfg_Rest = ''main'', cfg_Namespace = []\<rparr>
        [(''apps'', \<lparr>cfg_Rest = ''edge'', cfg_Namespace = []\<rparr>)] = Inr r \<and> getCacheForGroup (ru_cache r) ''apps'' = Inr ''edge''"
proof -
  let ?d = "\<lparr>cfg_Rest = ''main'', cfg_Namespace = []\<rparr>"
  let ?cfgs = "[(''apps'', \<lparr>cfg_Rest = ''edge'', cfg_Namespace = []\<rparr>)]"
  have ok: "gm_ok ?cfgs" by (simp add: gm_ok_def)
  obtain r where r: "NewRuntimeWithConfigs demo_makers ?d ?cfgs = Inr r"
    by (simp add: NewRuntimeWithConfigs_def demo_makers_def getClients_def)
  from runtime_group_config [OF ok refl r, of "''apps''"] r show ?thesis
    by (auto simp: demo_makers_def getClients_def)
qed


section \<open>Watching with the clients of a runtime\<close>

text \<open>
  \<open>Watch\<close> of a multi client. \<open>clientWithFakeWatch\<close> answers a fake watcher that nobody feeds, whose
  channel never has anything.
\<close>

definition mc_Watch ::
  "('w kclient \<Rightarrow> gostring \<Rightarrow> 'w \<Rightarrow> (err + poll list) \<times> 'w) \<Rightarrow> kscheme \<Rightarrow> 'w multiClient \<Rightarrow> kobject \<Rightarrow> gostring \<Rightarrow> 'w \<Rightarrow>
     (err + poll list) \<times> 'w" where
  "mc_Watch watch sch m ob revision w =
     (case getClient sch m ob of
        Inl e \<Rightarrow> (Inl e, w)
      | Inr (FakeWatch c) \<Rightarrow> (Inr [], w)
      | Inr (WithWatch c) \<Rightarrow> watch c revision w)"

text \<open>A watch with a client of a runtime hears nothing. With the client \<open>NewClient\<close> makes, waiting for
  an object of a known kind that does not satisfy the callback yet never returns while its context lasts, whatever happens
  on the server: the objects that exist are shown to the callback, and nothing after them.\<close>

theorem fake_watch_never_returns:
  assumes "gvk_for sch ob = Inr g" and "list_objs w = (Inr (objs, revision), w1)"
    and "each_item cb objs None w1 = ((None, None), w2)"
  shows "bySelector now list_objs (mc_Watch watch sch (NewClient d cs) ob) pause cb w = None"
proof -
  have "\<exists>c. getClient sch (NewClient d cs) ob = Inr (FakeWatch c)"
    using assms(1)
    by (auto simp: getClient_def getClientForGroup_def NewClient_def NewWithWatch_def map_of_FakeWatch split: option.splits)
  then have "mc_Watch watch sch (NewClient d cs) ob revision w2 = (Inr [], w2)"
    by (auto simp: mc_Watch_def)
  then have "doWatch now revision (lift_watch (mc_Watch watch sch (NewClient d cs) ob)) (keep_last cb) (None, w2) = None"
    by (simp add: doWatch_def lift_watch_def)
  then have "retryWatch now revision (mc_Watch watch sch (NewClient d cs) ob) pause cb (None, w2) = None"
    by (simp add: retryWatch_def retry_loop.simps retry_turn_def)
  then show ?thesis
    using assms(2,3) by (simp add: bySelector_def)
qed

lemma fake_watch_never_returns_witness:
  "bySelector 0 (\<lambda>w. (Inr ([], ''5''), w))
     (mc_Watch (\<lambda>c r w. (Inr [Event (Added (zero_object ''t'' (GVK [] ''v1'' ''Pod'')))], w)) own_scheme
        (NewClient (Some (named_client ''main'')) []) (zero_object ''t'' (GVK [] ''v1'' ''Pod'')))
     (\<lambda>w. (None, w)) (\<lambda>ob w. ((True, None), w)) [] = None"
  by (rule fake_watch_never_returns) (auto simp: own_scheme_def)

end
