(* ===== verification/Channels.thy ===== *)
theory Channels
  imports GoPrelude "HOL-Library.Sublist"
begin

text \<open>
  Goroutines between channels: \<open>Debounce\<close>, \<open>Every\<close> and \<open>Tee\<close> of pkg/typed/chan.go.

  A state has the point the goroutine has reached, the buffers of the channels it made, and, as a
  record of what happened, what it received and what was taken from it. An event is one step of the
  goroutine or of a reader; \<^const>\<open>None\<close> is an event that cannot happen, such as sending into a full
  buffer, which is where the goroutine blocks. A channel with a buffer of one is a list of at
  most one element.
\<close>

section \<open>Tee\<close>

datatype 'a tee_pc = Ranging | SendingOne 'a | SendingTwo 'a | TeeClosed

record 'a tee =
  te_pc :: "'a tee_pc"
  te_one :: "'a list"
  te_two :: "'a list"
  te_in :: "'a list"
  te_out1 :: "'a list"
  te_out2 :: "'a list"

datatype 'a tee_event = Arrive 'a | SendOne | SendTwo | InClosed | ReadOne | ReadTwo

definition tee_start :: "'a tee" where
  "tee_start = \<lparr>te_pc = Ranging, te_one = [], te_two = [], te_in = [], te_out1 = [], te_out2 = []\<rparr>"

fun tee_step :: "'a tee_event \<Rightarrow> 'a tee \<Rightarrow> 'a tee option" where
  "tee_step (Arrive x) s =
     (case te_pc s of Ranging \<Rightarrow> Some (s\<lparr>te_pc := SendingOne x, te_in := te_in s @ [x]\<rparr>) | _ \<Rightarrow> None)"
| "tee_step SendOne s =
     (case te_pc s of
        SendingOne x \<Rightarrow> if te_one s = [] then Some (s\<lparr>te_pc := SendingTwo x, te_one := [x]\<rparr>) else None
      | _ \<Rightarrow> None)"
| "tee_step SendTwo s =
     (case te_pc s of
        SendingTwo x \<Rightarrow> if te_two s = [] then Some (s\<lparr>te_pc := Ranging, te_two := [x]\<rparr>) else None
      | _ \<Rightarrow> None)"
| "tee_step InClosed s = (case te_pc s of Ranging \<Rightarrow> Some (s\<lparr>te_pc := TeeClosed\<rparr>) | _ \<Rightarrow> None)"
| "tee_step ReadOne s =
     (case te_one s of [] \<Rightarrow> None | x # xs \<Rightarrow> Some (s\<lparr>te_one := xs, te_out1 := te_out1 s @ [x]\<rparr>))"
| "tee_step ReadTwo s =
     (case te_two s of [] \<Rightarrow> None | x # xs \<Rightarrow> Some (s\<lparr>te_two := xs, te_out2 := te_out2 s @ [x]\<rparr>))"

inductive tee_reach :: "'a tee \<Rightarrow> bool" where
  tee_init: "tee_reach tee_start"
| tee_next: "tee_reach s \<Longrightarrow> tee_step ev s = Some s' \<Longrightarrow> tee_reach s'"

text \<open>What is still to be sent into each channel.\<close>

fun pending1 :: "'a tee_pc \<Rightarrow> 'a list" where
  "pending1 (SendingOne x) = [x]"
| "pending1 _ = []"

fun pending2 :: "'a tee_pc \<Rightarrow> 'a list" where
  "pending2 (SendingOne x) = [x]"
| "pending2 (SendingTwo x) = [x]"
| "pending2 _ = []"

definition tee_inv :: "'a tee \<Rightarrow> bool" where
  "tee_inv s \<longleftrightarrow>
     te_in s = te_out1 s @ te_one s @ pending1 (te_pc s) \<and> te_in s = te_out2 s @ te_two s @ pending2 (te_pc s) \<and>
     length (te_one s) \<le> 1 \<and> length (te_two s) \<le> 1"

lemma tee_step_inv: "tee_inv s \<Longrightarrow> tee_step ev s = Some s' \<Longrightarrow> tee_inv s'"
  by (cases ev) (auto simp: tee_inv_def split: tee_pc.splits list.splits if_splits)

lemma tee_reach_inv: "tee_reach s \<Longrightarrow> tee_inv s"
proof (induction rule: tee_reach.induct)
  case tee_init
  show ?case by (simp add: tee_inv_def tee_start_def)
next
  case (tee_next s ev s')
  then show ?case by (blast intro: tee_step_inv)
qed

lemma pending_length: "length (pending1 p) \<le> 1" "length (pending2 p) \<le> 1"
  by (cases p; simp)+

text \<open>C39: both readers of a tee see the same. In every reachable state what each reader has taken is a
  prefix of what came in, neither reader is more than two elements behind what came in (so a
  reader that stops holds the other one up after two more elements), and once the tee is closed
  each reader has taken, or finds in its buffer, all of it.\<close>

theorem tee_same:
  assumes "tee_reach s"
  shows "prefix (te_out1 s) (te_in s) \<and> prefix (te_out2 s) (te_in s) \<and>
    length (te_in s) \<le> length (te_out1 s) + 2 \<and> length (te_in s) \<le> length (te_out2 s) + 2 \<and>
    (te_pc s = TeeClosed \<longrightarrow> te_out1 s @ te_one s = te_in s \<and> te_out2 s @ te_two s = te_in s)"
proof -
  from tee_reach_inv [OF assms]
  have i: "te_in s = te_out1 s @ te_one s @ pending1 (te_pc s)" "te_in s = te_out2 s @ te_two s @ pending2 (te_pc s)"
    and l: "length (te_one s) \<le> 1" "length (te_two s) \<le> 1"
    by (auto simp: tee_inv_def)
  have "length (te_in s) \<le> length (te_out1 s) + 2"
    using l(1) pending_length(1) [of "te_pc s"] by (subst i(1)) simp
  moreover have "length (te_in s) \<le> length (te_out2 s) + 2"
    using l(2) pending_length(2) [of "te_pc s"] by (subst i(2)) simp
  moreover have "prefix (te_out1 s) (te_in s)" using i(1) by (metis prefixI)
  moreover have "prefix (te_out2 s) (te_in s)" using i(2) by (metis prefixI)
  moreover have "te_pc s = TeeClosed \<longrightarrow> te_out1 s @ te_one s = te_in s \<and> te_out2 s @ te_two s = te_in s"
    using i by (metis append_Nil2 pending1.simps(4) pending2.simps(4))
  ultimately show ?thesis by blast
qed

fun tee_run :: "'a tee_event list \<Rightarrow> 'a tee \<Rightarrow> 'a tee option" where
  "tee_run [] s = Some s"
| "tee_run (ev # evs) s = (case tee_step ev s of None \<Rightarrow> None | Some s' \<Rightarrow> tee_run evs s')"

lemma tee_run_reach: "tee_reach s \<Longrightarrow> tee_run evs s = Some s' \<Longrightarrow> tee_reach s'"
  by (induction evs arbitrary: s) (auto split: option.splits intro: tee_next)

text \<open>The second reader takes nothing: the tee stops with the second element in hand.\<close>

lemma tee_same_witness:
  "\<exists>s. tee_run [Arrive 1, SendOne, SendTwo, ReadOne, Arrive (2::nat), SendOne, ReadOne] tee_start = Some s \<and>
     te_out1 s = [1, 2] \<and> prefix (te_out1 s) (te_in s) \<and> tee_step SendTwo s = None"
proof -
  obtain s where s: "tee_run [Arrive 1, SendOne, SendTwo, ReadOne, Arrive (2::nat), SendOne, ReadOne] tee_start = Some s"
      "te_out1 s = [1, 2]" "tee_step SendTwo s = None"
    by (simp add: tee_start_def)
  have "tee_reach s" using s(1) by (rule tee_run_reach [OF tee_init])
  from tee_same [OF this] s show ?thesis by blast
qed

section \<open>Debounce\<close>

text \<open>The goroutine drops a message when the buffer is full; when its input ends it ends without closing.\<close>

record 'a debounce =
  de_buffer :: "'a list"
  de_ended :: bool
  de_in :: "'a list"
  de_out :: "'a list"

datatype 'a debounce_event = Message 'a | EndOfInput | Take

definition debounce_start :: "'a debounce" where
  "debounce_start = \<lparr>de_buffer = [], de_ended = False, de_in = [], de_out = []\<rparr>"

fun debounce_step :: "'a debounce_event \<Rightarrow> 'a debounce \<Rightarrow> 'a debounce option" where
  "debounce_step (Message x) s =
     (if de_ended s then None
      else Some (s\<lparr>de_in := de_in s @ [x], de_buffer := (if de_buffer s = [] then [x] else de_buffer s)\<rparr>))"
| "debounce_step EndOfInput s = (if de_ended s then None else Some (s\<lparr>de_ended := True\<rparr>))"
| "debounce_step Take s =
     (case de_buffer s of [] \<Rightarrow> None | x # xs \<Rightarrow> Some (s\<lparr>de_buffer := xs, de_out := de_out s @ [x]\<rparr>))"

fun debounce_run :: "'a debounce_event list \<Rightarrow> 'a debounce \<Rightarrow> 'a debounce option" where
  "debounce_run [] s = Some s"
| "debounce_run (ev # evs) s = (case debounce_step ev s of None \<Rightarrow> None | Some s' \<Rightarrow> debounce_run evs s')"

inductive debounce_reach :: "'a debounce \<Rightarrow> bool" where
  debounce_init: "debounce_reach debounce_start"
| debounce_next: "debounce_reach s \<Longrightarrow> debounce_step ev s = Some s' \<Longrightarrow> debounce_reach s'"

lemma debounce_messages:
  "\<not> de_ended s \<Longrightarrow>
     debounce_run (map Message xs) s =
       Some (s\<lparr>de_in := de_in s @ xs, de_buffer := (if de_buffer s = [] then take 1 xs else de_buffer s)\<rparr>)"
  by (induction xs arbitrary: s) (auto simp: take_Cons')

text \<open>What is delivered is what came in without some messages, and nothing that came in makes it wait.\<close>

lemma debounce_subseq: "debounce_reach s \<Longrightarrow> subseq (de_out s @ de_buffer s) (de_in s) \<and> length (de_buffer s) \<le> 1"
proof (induction rule: debounce_reach.induct)
  case debounce_init
  show ?case by (simp add: debounce_start_def)
next
  case (debounce_next s ev s')
  then show ?case
    by (cases ev) (auto split: if_splits list.splits intro: subseq_append subseq_rev_drop_many subseq_order.trans)
qed

text \<open>Of several messages that arrive before one is taken the first is kept, not the latest.\<close>

lemma debounce_keeps_oldest:
  "debounce_reach s \<Longrightarrow> \<not> de_ended s \<Longrightarrow> de_buffer s = [] \<Longrightarrow>
     \<exists>s'. debounce_run (map Message (x # xs) @ [Take]) s = Some s' \<and> de_out s' = de_out s @ [x] \<and> de_buffer s' = []"
proof -
  assume a: "\<not> de_ended s" "de_buffer s = []"
  have app: "debounce_run (as @ bs) s = (case debounce_run as s of None \<Rightarrow> None | Some s' \<Rightarrow> debounce_run bs s')"
    for as bs and s :: "'a debounce"
    by (induction as arbitrary: s) (auto split: option.splits)
  show ?thesis using a debounce_messages [of s "x # xs"] by (simp only: app) simp
qed

section \<open>Every\<close>

text \<open>\<open>zero\<close> is the zero value of the type, which \<open>lastUpdate\<close> has before the first update.\<close>

datatype every_pc = Selecting | Sending bool | EveryClosed

record 'a every =
  ev_pc :: every_pc
  ev_last :: 'a
  ev_in :: "'a list"
  ev_out :: "'a list"

datatype 'a every_event = Update 'a | Tick | NoMoreUpdates | Deliver

definition every_start :: "'a \<Rightarrow> 'a every" where
  "every_start zero = \<lparr>ev_pc = Selecting, ev_last = zero, ev_in = [], ev_out = []\<rparr>"

fun every_step :: "'a every_event \<Rightarrow> 'a every \<Rightarrow> 'a every option" where
  "every_step (Update u) s = (case ev_pc s of Selecting \<Rightarrow> Some (s\<lparr>ev_last := u, ev_in := ev_in s @ [u]\<rparr>) | _ \<Rightarrow> None)"
| "every_step Tick s = (case ev_pc s of Selecting \<Rightarrow> Some (s\<lparr>ev_pc := Sending False\<rparr>) | _ \<Rightarrow> None)"
| "every_step NoMoreUpdates s = (case ev_pc s of Selecting \<Rightarrow> Some (s\<lparr>ev_pc := Sending True\<rparr>) | _ \<Rightarrow> None)"
| "every_step Deliver s =
     (case ev_pc s of
        Sending final \<Rightarrow> Some (s\<lparr>ev_pc := (if final then EveryClosed else Selecting), ev_out := ev_out s @ [ev_last s]\<rparr>)
      | _ \<Rightarrow> None)"

inductive every_reach :: "'a \<Rightarrow> 'a every \<Rightarrow> bool" for zero where
  every_init: "every_reach zero (every_start zero)"
| every_next: "every_reach zero s \<Longrightarrow> every_step ev s = Some s' \<Longrightarrow> every_reach zero s'"

lemma every_inv:
  "every_reach zero s \<Longrightarrow>
     ev_last s = last (zero # ev_in s) \<and> set (ev_out s) \<subseteq> insert zero (set (ev_in s)) \<and>
     (ev_pc s = EveryClosed \<longrightarrow> ev_out s \<noteq> [] \<and> last (ev_out s) = ev_last s)"
proof (induction rule: every_reach.induct)
  case every_init
  show ?case by (simp add: every_start_def)
next
  case (every_next s ev s')
  have "ev_last s \<in> insert zero (set (ev_in s))"
    using every_next.IH by (metis last_in_set list.discI list.simps(15))
  with every_next show ?case
    by (cases ev) (auto split: every_pc.splits if_splits)
qed

text \<open>The last update is delivered before the channel is closed, and nothing but updates and the zero
  value is delivered.\<close>

lemma every_final:
  assumes "every_reach zero s" and "ev_pc s = EveryClosed"
  shows "last (ev_out s) = last (zero # ev_in s)"
  using every_inv [OF assms(1)] assms(2) by auto

text \<open>A tick before the first update delivers the zero value.\<close>

lemma every_early_tick:
  "\<exists>s1 s2. every_step Tick (every_start zero) = Some s1 \<and> every_step Deliver s1 = Some s2 \<and> ev_out s2 = [zero]"
  by (simp add: every_start_def)

end
