(* ===== verification/Setup.thy ===== *)
theory Setup
  imports Tester
begin

text \<open>
  What a process is set up with: REST configurations and schemes (pkg/restconfig), waiting for the
  API server (pkg/restconfig/wait.go), and random tokens (pkg/randomtoken/token.go and
  pkg/router/tester/generate.go).

  A serializer is given by the scheme it was made of. Random numbers, the parser of URLs and the
  answers of the server are arguments. \<open>errors.Join\<close> of several errors is their list.
\<close>

section \<open>Configurations\<close>

text \<open>
  \<open>ratelimit.None\<close>: a limiter that accepts at once, waits for nothing and never fails. Its \<open>Accept\<close> and
  \<open>Stop\<close> return without an effect.
\<close>

record rate_limiter =
  rl_TryAccept :: bool
  rl_QPS :: int
  rl_Wait :: "err option"

definition ratelimit_None :: rate_limiter where
  "ratelimit_None = \<lparr>rl_TryAccept = True, rl_QPS = 1, rl_Wait = None\<rparr>"

record 's rest_config =
  rc_Host :: gostring
  rc_Insecure :: bool
  rc_BearerToken :: gostring
  rc_RateLimiter :: "rate_limiter option"
  rc_Serializer :: "'s option"
  rc_UserAgent :: gostring

definition SetScheme :: "gostring \<Rightarrow> 's rest_config \<Rightarrow> 's \<Rightarrow> 's rest_config" where
  "SetScheme user_agent cfg scheme = cfg\<lparr>rc_Serializer := Some scheme, rc_UserAgent := user_agent\<rparr>"

text \<open>\<open>load\<close> is \<open>config.GetConfigWithContext\<close>, given the environment variable \<open>CONTEXT\<close>.\<close>

definition rest_New ::
  "(gostring \<Rightarrow> err + 's rest_config) \<Rightarrow> gostring \<Rightarrow> gostring \<Rightarrow> 's \<Rightarrow> err + 's rest_config" where
  "rest_New load env_CONTEXT user_agent scheme =
     (case load env_CONTEXT of
        Inl e \<Rightarrow> Inl e
      | Inr cfg \<Rightarrow> Inr (SetScheme user_agent (cfg\<lparr>rc_RateLimiter := Some ratelimit_None\<rparr>) scheme))"

text \<open>\<open>default_scheme\<close> is \<open>scheme.Scheme\<close> of client-go.\<close>

definition rest_Default ::
  "(gostring \<Rightarrow> err + 's rest_config) \<Rightarrow> gostring \<Rightarrow> gostring \<Rightarrow> 's \<Rightarrow> err + 's rest_config" where
  "rest_Default load env_CONTEXT user_agent default_scheme = rest_New load env_CONTEXT user_agent default_scheme"

text \<open>
  The loading rules and the overrides of clientcmd, as far as this code sets them. \<open>default_rules\<close> is
  \<open>NewDefaultClientConfigLoadingRules\<close>, and \<open>client_config\<close> what the deferred loading reads at last.
\<close>

record loading_rules =
  lr_ExplicitPath :: gostring
  lr_Precedence :: "gostring list"

record client_config =
  cl_loader :: loading_rules
  cl_CurrentContext :: gostring

definition ClientConfigFromFile :: "loading_rules \<Rightarrow> gostring \<Rightarrow> gostring \<Rightarrow> client_config" where
  "ClientConfigFromFile default_rules file ctx =
     \<lparr>cl_loader = default_rules\<lparr>lr_ExplicitPath := file\<rparr>, cl_CurrentContext = ctx\<rparr>"

definition FromFile ::
  "loading_rules \<Rightarrow> (client_config \<Rightarrow> err + 's rest_config) \<Rightarrow> gostring \<Rightarrow> gostring \<Rightarrow> err + 's rest_config" where
  "FromFile default_rules client_config file ctx = client_config (ClientConfigFromFile default_rules file ctx)"

record url =
  url_Scheme :: gostring
  url_Host :: gostring

definition FromURLTokenAndScheme ::
  "(gostring \<Rightarrow> err + url) \<Rightarrow> gostring \<Rightarrow> gostring \<Rightarrow> gostring \<Rightarrow> 's \<Rightarrow> err + 's rest_config" where
  "FromURLTokenAndScheme parse user_agent serverURL token scheme =
     (case parse serverURL of
        Inl e \<Rightarrow> Inl e
      | Inr u \<Rightarrow>
        (let insecure = (url_Scheme u = ''https'' \<and> url_Host u = ''localhost'');
             cfg = \<lparr>rc_Host = serverURL, rc_Insecure = insecure, rc_BearerToken = token,
                    rc_RateLimiter = Some ratelimit_None, rc_Serializer = None, rc_UserAgent = []\<rparr>
         in Inr (SetScheme user_agent cfg scheme)))"

text \<open>The host of a URL has the port in it, so a local server on a port is not taken as local.\<close>

lemma localhost_port_is_secure:
  assumes "parse serverURL = Inr \<lparr>url_Scheme = ''https'', url_Host = ''localhost:6443''\<rparr>"
  shows "\<exists>cfg. FromURLTokenAndScheme parse ua serverURL token scheme = Inr cfg \<and> \<not> rc_Insecure cfg"
  using assms by (simp add: FromURLTokenAndScheme_def SetScheme_def)

text \<open>\<open>MustBuildScheme\<close>: every function is run, whatever the others answered; the errors of all are joined.\<close>

fun add_to_scheme :: "('s \<Rightarrow> err option \<times> 's) list \<Rightarrow> 's \<Rightarrow> err list \<times> 's" where
  "add_to_scheme [] s = ([], s)"
| "add_to_scheme (f # fs) s =
     (case f s of (e, s1) \<Rightarrow>
       (case add_to_scheme fs s1 of (errs, s2) \<Rightarrow> ((case e of None \<Rightarrow> errs | Some x \<Rightarrow> x # errs), s2)))"

text \<open>
  The codecs are given by the scheme they are made of: the results are the scheme, its codec factory,
  its parameter codec, and the function that adds the same types to another scheme.
\<close>

definition MustBuildScheme ::
  "('s \<Rightarrow> 's) \<Rightarrow> 's \<Rightarrow> ('s \<Rightarrow> err option \<times> 's) list \<Rightarrow> ('s \<times> 's \<times> 's \<times> ('s \<Rightarrow> err list \<times> 's)) option" where
  \<comment> \<open>\<open>add_v1\<close> is \<open>metav1.AddToGroupVersion\<close>; \<^const>\<open>None\<close> is the panic\<close>
  "MustBuildScheme add_v1 newScheme fs =
     (let addToScheme = (\<lambda>s. add_to_scheme fs (add_v1 s))
      in case addToScheme newScheme of (errs, s) \<Rightarrow> if errs = [] then Some (s, s, s, addToScheme) else None)"

lemma MustBuildScheme_all:
  assumes "MustBuildScheme add_v1 newScheme fs = Some (s, factory, codec, addToScheme)"
  shows "s = fold (\<lambda>f s. snd (f s)) fs (add_v1 newScheme) \<and> factory = s \<and> codec = s \<and>
    addToScheme newScheme = ([], s)"
proof -
  have all: "snd (add_to_scheme fs s0) = fold (\<lambda>f s. snd (f s)) fs s0" for s0
  proof (induction fs arbitrary: s0)
    case (Cons f fs)
    show ?case using Cons [of "snd (f s0)"] by (auto split: prod.splits)
  qed simp
  show ?thesis
    using assms all [of "add_v1 newScheme"] by (auto simp: MustBuildScheme_def Let_def split: prod.splits if_splits)
qed

section \<open>Waiting for the server\<close>

text \<open>
  A turn of the loop of \<open>WaitFor\<close>: whether the context has ended, and what the server answers. The
  context ends after two minutes at the latest. \<^const>\<open>None\<close> is a wait that has not ended; the other
  results are the joined errors.
\<close>

record turn =
  tn_ctx :: "err option"
  tn_ready :: "err option"

fun WaitFor_loop :: "gostring \<Rightarrow> err option \<Rightarrow> turn list \<Rightarrow> err list option" where
  "WaitFor_loop host err [] = None"
| "WaitFor_loop host err (t # ts) =
     (case tn_ctx t of
        Some ce \<Rightarrow>
          Some (Wrap (''context closed before '' @ host @ '' was ready: '') ce # (case err of None \<Rightarrow> [] | Some e \<Rightarrow> [e]))
      | None \<Rightarrow> (case tn_ready t of None \<Rightarrow> Some [] | Some e \<Rightarrow> WaitFor_loop host (Some e) ts))"

definition WaitFor :: "err option \<Rightarrow> gostring \<Rightarrow> turn list \<Rightarrow> err list option" where
  "WaitFor client_err host turns =
     (case client_err of Some e \<Rightarrow> Some [e] | None \<Rightarrow> WaitFor_loop host None turns)"

text \<open>Waiting for the server ends, with success exactly when the server was ready in time. Some turn
  at which the context has ended or the server is ready ends the wait; it is a success when the
  first such turn finds the context alive, and otherwise the error has the last answer of the
  server, if it gave one.\<close>

theorem WaitFor_ends:
  assumes "i < length turns" and "tn_ctx (turns ! i) \<noteq> None \<or> tn_ready (turns ! i) = None"
    and "\<And>j. j < i \<Longrightarrow> tn_ctx (turns ! j) = None \<and> tn_ready (turns ! j) \<noteq> None"
  shows "WaitFor None host turns =
    Some (case tn_ctx (turns ! i) of
            None \<Rightarrow> []
          | Some ce \<Rightarrow> Wrap (''context closed before '' @ host @ '' was ready: '') ce #
              (if i = 0 then [] else [the (tn_ready (turns ! (i - 1)))]))"
proof -
  have "WaitFor_loop host err turns =
    Some (case tn_ctx (turns ! i) of
            None \<Rightarrow> []
          | Some ce \<Rightarrow> Wrap (''context closed before '' @ host @ '' was ready: '') ce #
              (if i = 0 then (case err of None \<Rightarrow> [] | Some e \<Rightarrow> [e]) else [the (tn_ready (turns ! (i - 1)))]))" for err
    using assms
  proof (induction turns arbitrary: i err)
    case (Cons t ts)
    show ?case
    proof (cases i)
      case 0
      with Cons.prems(2) show ?thesis by (auto split: option.splits)
    next
      case (Suc k)
      from Cons.prems(3) [of 0] Suc obtain e where t: "tn_ctx t = None" "tn_ready t = Some e" by auto
      have "\<And>j. j < k \<Longrightarrow> tn_ctx (ts ! j) = None \<and> tn_ready (ts ! j) \<noteq> None"
        using Cons.prems(3) [of "Suc j" for j] Suc by simp
      from Cons.IH [where i = k and err = "Some e", OF _ _ this] Cons.prems(1,2) Suc
      have "WaitFor_loop host (Some e) ts =
        Some (case tn_ctx (ts ! k) of
            None \<Rightarrow> []
          | Some ce \<Rightarrow> Wrap (''context closed before '' @ host @ '' was ready: '') ce #
              (if k = 0 then [e] else [the (tn_ready (ts ! (k - 1)))]))"
        by (auto split: option.splits)
      moreover have "k \<noteq> 0 \<Longrightarrow> (t # ts) ! k = ts ! (k - 1)" by (cases k) auto
      ultimately show ?thesis
        using t Suc by (cases "k = 0") (auto split: option.splits)
    qed
  qed simp
  then show ?thesis by (auto simp: WaitFor_def split: option.splits)
qed

lemma WaitFor_ends_witness:
  "WaitFor None ''api'' [\<lparr>tn_ctx = None, tn_ready = Some (Plain ''refused'')\<rparr>,
      \<lparr>tn_ctx = Some (Plain ''deadline''), tn_ready = None\<rparr>] =
    Some [Wrap ''context closed before api was ready: '' (Plain ''deadline''), Plain ''refused'']"
proof -
  let ?ts = "[\<lparr>tn_ctx = None, tn_ready = Some (Plain ''refused'')\<rparr>, \<lparr>tn_ctx = Some (Plain ''deadline''), tn_ready = None\<rparr>]"
  have "WaitFor None ''api'' ?ts =
    Some (case tn_ctx (?ts ! 1) of None \<Rightarrow> []
          | Some ce \<Rightarrow> Wrap (''context closed before '' @ ''api'' @ '' was ready: '') ce #
              (if (1::nat) = 0 then [] else [the (tn_ready (?ts ! (1 - 1)))]))"
    by (rule WaitFor_ends) auto
  then show ?thesis by simp
qed

section \<open>Tokens\<close>

definition characters :: gostring where "characters = ''bcdfghjklmnpqrstvwxz2456789''"
definition tokenLength :: nat where "tokenLength = 54"

text \<open>\<open>Generate\<close> draws a number below 27 for each character; \<open>draws\<close> are the answers of the source.\<close>

fun draw_token :: "nat \<Rightarrow> (err + nat) list \<Rightarrow> gostring \<Rightarrow> err + gostring" where
  "draw_token 0 draws token = Inr token"
| "draw_token (Suc n) [] token = Inl (Plain ''no random numbers'')"
| "draw_token (Suc n) (d # draws) token =
     (case d of Inl e \<Rightarrow> Inl e | Inr r \<Rightarrow> draw_token n draws (token @ [characters ! r]))"

definition Generate :: "(err + nat) list \<Rightarrow> err + gostring" where
  "Generate draws = draw_token tokenLength draws []"

lemma draw_token_bounds:
  "draw_token n draws token = Inr t \<Longrightarrow> (\<And>r. Inr r \<in> set draws \<Longrightarrow> r < length characters) \<Longrightarrow>
     length t = length token + n \<and> set t \<subseteq> set token \<union> set characters"
proof (induction n draws token arbitrary: t rule: draw_token.induct)
  case (3 n d draws token)
  then show ?case by (cases d) fastforce+
qed auto

lemma Generate_bounds:
  assumes "Generate draws = Inr t" and "\<And>r. Inr r \<in> set draws \<Longrightarrow> r < 27"
  shows "length t = 54 \<and> set t \<subseteq> set characters"
proof -
  have "length characters = 27" by (simp add: characters_def)
  with draw_token_bounds [OF assms(1) [unfolded Generate_def]] assms(2) show ?thesis
    by (simp add: tokenLength_def)
qed

text \<open>
  The token of the test harness: the source is seeded with the length of the encoded object, and
  \<open>seeded\<close> is the sequence of a seed.
\<close>

definition tester_generate :: "('o \<Rightarrow> err + gostring) \<Rightarrow> (nat \<Rightarrow> nat \<Rightarrow> nat) \<Rightarrow> 'o \<Rightarrow> err + gostring" where
  "tester_generate marshal seeded obj =
     (case marshal obj of
        Inl e \<Rightarrow> Inl e
      | Inr d \<Rightarrow> Inr (map (\<lambda>i. characters ! seeded (length d) i) [0..<tokenLength]))"

text \<open>Objects whose texts are equally long get the same token, so the second of two objects that are created
  with the same name to generate gets the name of the first.\<close>

lemma generated_names_collide:
  assumes "\<And>ob. marshal ob = Inr (txt_of ob)" and "length (txt_of (s1\<lparr>k_uid := u1\<rparr>)) = length (txt_of (s2\<lparr>k_uid := u2\<rparr>))"
    and "ts_heap s x = s1" and "ts_heap s y = s2" and "x \<noteq> y"
    and "k_name s1 = []" and "k_name s2 = []" and "k_generateName s1 = g" and "k_generateName s2 = g" and "g \<noteq> []"
    and "tc_Create u1 (tester_generate marshal seeded) x s = (None, s')"
    and "tc_Create u2 (tester_generate marshal seeded) y s' = (None, s'')"
  shows "k_name (ts_heap s'' x) = k_name (ts_heap s'' y)"
  using assms by (auto simp: tc_Create_def tester_generate_def Let_def split: if_splits)

end
