(* ===== verification/TesterFiles.thy ===== *)
theory TesterFiles
  imports TesterProperties Yaml
begin

text \<open>
  Test cases of the harness: reading them from a directory (\<open>genericToTyped\<close>, \<open>readFile\<close>,
  \<open>FromDir\<close>), the request a handler is given (\<open>NewRequestWithContext\<close>), the whole of
  \<open>InvokeWithContext\<close> and the comparison of texts without transition times, all of
  pkg/router/tester/tester.go.

  A directory is the list of its entries in the order \<open>os.ReadDir\<close> gives them. The JSON encoder, the
  YAML reader and the golden files of autogold are parameters.
\<close>

section \<open>Reading files\<close>

datatype fs_node =
    Regular gostring
  | Unreadable err
  | Directory "(gostring \<times> fs_node) list"
  | ClosedDirectory err

fun IsDir :: "fs_node \<Rightarrow> bool" where
  "IsDir (Directory _) = True"
| "IsDir (ClosedDirectory _) = True"
| "IsDir _ = False"

text \<open>\<open>os.ReadDir\<close> and \<open>os.ReadFile\<close> of a name; \<^const>\<open>None\<close> is \<open>os.IsNotExist\<close>.\<close>

definition os_ReadDir :: "(gostring \<times> fs_node) list \<Rightarrow> gostring \<Rightarrow> (err + (gostring \<times> fs_node) list) option" where
  "os_ReadDir ls name =
     (case map_of ls name of
        None \<Rightarrow> None
      | Some (Directory sub) \<Rightarrow> Some (Inr sub)
      | Some (ClosedDirectory e) \<Rightarrow> Some (Inl e)
      | Some _ \<Rightarrow> Some (Inl (Plain ''not a directory'')))"

definition os_ReadFile :: "(gostring \<times> fs_node) list \<Rightarrow> gostring \<Rightarrow> (err + gostring) option" where
  "os_ReadFile ls name =
     (case map_of ls name of
        None \<Rightarrow> None
      | Some (Regular data) \<Rightarrow> Some (Inr data)
      | Some (Unreadable e) \<Rightarrow> Some (Inl e)
      | Some _ \<Rightarrow> Some (Inl (Plain ''is a directory'')))"

lemma os_ReadDir_smaller [termination_simp]:
  "os_ReadDir ls name = Some (Inr sub) \<Longrightarrow> size_list (size_prod (\<lambda>_. 0) size) sub < size_list (size_prod (\<lambda>_. 0) size) ls"
proof -
  assume "os_ReadDir ls name = Some (Inr sub)"
  then have "(name, Directory sub) \<in> set ls"
    by (auto simp: os_ReadDir_def split: option.splits fs_node.splits dest: map_of_SomeD)
  then have "size_prod (\<lambda>_. 0) size (name, Directory sub) < size_list (size_prod (\<lambda>_. 0) size) ls"
    by (induction ls) auto
  then show ?thesis by simp
qed

text \<open>
  \<open>genericToTyped\<close>: an object is made for the kind of the data and filled with it. \<open>kind_of\<close> reads the
  kind of an unstructured object, \<open>marshal\<close> and \<open>unmarshal\<close> are those of encoding/json.
\<close>

record typed_lib =
  ty_kind :: "jmap \<Rightarrow> gvk"
  ty_Marshal :: "jmap \<Rightarrow> err + gostring"
  ty_Unmarshal :: "gostring \<Rightarrow> kobject \<Rightarrow> err + kobject"

fun genericToTyped :: "typed_lib \<Rightarrow> kscheme \<Rightarrow> jmap list \<Rightarrow> err + kobject list" where
  "genericToTyped cod sch [] = Inr []"
| "genericToTyped cod sch (ob # obs) =
     (case scheme_new sch (ty_kind cod ob) of
        NotRegistered \<Rightarrow> Inl (Plain ''no kind is registered'')
      | NewFailed e \<Rightarrow> Inl e
      | NewObject zero \<Rightarrow>
        (case ty_Marshal cod ob of
           Inl e \<Rightarrow> Inl e
         | Inr bytes \<Rightarrow>
           (case ty_Unmarshal cod bytes zero of
              Inl e \<Rightarrow> Inl e
            | Inr typed \<Rightarrow>
              (case genericToTyped cod sch obs of Inl e \<Rightarrow> Inl e | Inr rest \<Rightarrow> Inr (typed # rest)))))"

text \<open>What is done with the data of one file.\<close>

definition decode_file :: "yaml_lib \<Rightarrow> typed_lib \<Rightarrow> kscheme \<Rightarrow> gostring \<Rightarrow> gostring \<Rightarrow> err + kobject list" where
  "decode_file yl cod sch path data =
     (case ToObjects yl data of
        Inl e \<Rightarrow> Inl (Wrap (''unmarshalling '' @ path @ '': '') e)
      | Inr newObjects \<Rightarrow> genericToTyped cod sch newObjects)"

text \<open>
  \<open>readFile\<close> and its loop over the nested files. \<open>decode\<close> is \<^const>\<open>decode_file\<close>; \<open>ls\<close> are the entries of
  the directory \<open>dir\<close>.
\<close>

function readFile ::
    "(gostring \<Rightarrow> gostring \<Rightarrow> err + kobject list) \<Rightarrow> gostring \<Rightarrow> (gostring \<times> fs_node) list \<Rightarrow> gostring \<Rightarrow> err + kobject list"
  and readFile_nested ::
    "(gostring \<Rightarrow> gostring \<Rightarrow> err + kobject list) \<Rightarrow> gostring \<Rightarrow> (gostring \<times> fs_node) list \<Rightarrow> (gostring \<times> fs_node) list \<Rightarrow>
       err + kobject list" where
  "readFile decode dir ls file =
     (let path = dir @ ''/'' @ file
      in case (case os_ReadDir ls (file @ ''.d'') of
                 None \<Rightarrow> Inr []
               | Some (Inl e) \<Rightarrow> Inl e
               | Some (Inr files) \<Rightarrow> readFile_nested decode (path @ ''.d'') files files) of
           Inl e \<Rightarrow> Inl e
         | Inr objs \<Rightarrow>
           (case os_ReadFile ls file of
              None \<Rightarrow> Inr objs
            | Some (Inl e) \<Rightarrow> Inl (Wrap (''reading '' @ path @ '': '') e)
            | Some (Inr data) \<Rightarrow> (case decode path data of Inl e \<Rightarrow> Inl e | Inr typed \<Rightarrow> Inr (objs @ typed))))"
| "readFile_nested decode dir ls [] = Inr []"
| "readFile_nested decode dir ls ((name, node) # files) =
     (if IsDir node \<or> \<not> has_suffix name ''.yaml'' then readFile_nested decode dir ls files
      else (case readFile decode dir ls name of
              Inl e \<Rightarrow> Inl e
            | Inr nested \<Rightarrow>
              (case readFile_nested decode dir ls files of Inl e \<Rightarrow> Inl e | Inr rest \<Rightarrow> Inr (nested @ rest))))"
  by pat_completeness auto
termination
  by (relation "measures [case_sum (\<lambda>(_, _, ls, _). size_list (size_prod (\<lambda>_. 0) size) ls)
                                   (\<lambda>(_, _, ls, _). size_list (size_prod (\<lambda>_. 0) size) ls),
                          case_sum (\<lambda>_. 0) (\<lambda>(_, _, _, files). Suc (length files))]")
     (auto simp: os_ReadDir_smaller)

declare readFile.simps [simp del]

record harness =
  hn_Existing :: "kobject list"
  hn_ExpectedOutput :: "kobject list"
  hn_ExpectedGoldenPath :: gostring
  hn_ExpectedDelay :: int

text \<open>\<open>golden\<close> is the answer of \<open>os.Stat\<close> to expected.golden: whether it exists, or an error.\<close>

definition FromDir ::
  "(gostring \<Rightarrow> gostring \<Rightarrow> err + kobject list) \<Rightarrow> gostring \<Rightarrow> (gostring \<times> fs_node) list \<Rightarrow> err + bool \<Rightarrow>
     err + harness \<times> kobject" where
  "FromDir decode path ls golden =
     (case readFile decode path ls ''input.yaml'' of
        Inl e \<Rightarrow> Inl e
      | Inr input \<Rightarrow>
        if length input \<noteq> 1 then Inl (Plain (path @ ''/input.yaml does not include one input object''))
        else (case readFile decode path ls ''existing.yaml'' of
                Inl e \<Rightarrow> Inl e
              | Inr existing \<Rightarrow>
                (case readFile decode path ls ''expected.yaml'' of
                   Inl e \<Rightarrow> Inl e
                 | Inr expected \<Rightarrow>
                   (case golden of
                      Inl e \<Rightarrow> Inl e
                    | Inr found \<Rightarrow>
                      Inr (\<lparr>hn_Existing = existing, hn_ExpectedOutput = expected,
                            hn_ExpectedGoldenPath = (if \<not> found \<and> length expected > 0 then [] else path),
                            hn_ExpectedDelay = 0\<rparr>, input ! 0)))))"

section \<open>Texts without transition times\<close>

text \<open>
  The lines of \<open>bufio.Scanner\<close>: without their ends, a final empty line dropped. The scanner gives up
  at a line that does not fit into its buffer of 64 KiB.
\<close>

definition MaxScanTokenSize :: nat where "MaxScanTokenSize = 64 * 1024"

definition dropCR :: "gostring \<Rightarrow> gostring" where
  "dropCR l = (if l \<noteq> [] \<and> List.last l = CHR 0x0D then butlast l else l)"

fun scan_lines :: "gostring \<Rightarrow> gostring \<Rightarrow> gostring list" where
  "scan_lines line [] = (if line = [] \<or> length line \<ge> MaxScanTokenSize then [] else [dropCR line])"
| "scan_lines line (c # cs) =
     (if c = CHR 0x0A
      then (if length line \<ge> MaxScanTokenSize then [] else dropCR line # scan_lines [] cs)
      else scan_lines (line @ [c]) cs)"

definition stripLastTransition :: "gostring \<Rightarrow> gostring" where
  "stripLastTransition buf =
     foldl (\<lambda>result line. if str_contains line ''lastTransitionTime:'' then result else result @ line @ [CHR 0x0A])
       [] (scan_lines [] buf)"

definition same_output :: "(kobject option \<Rightarrow> gostring) \<Rightarrow> kobject option \<Rightarrow> kobject option \<Rightarrow> bool" where
  \<comment> \<open>\<open>marshal\<close> is \<open>yaml.Marshal\<close>, whose error is ignored\<close>
  "same_output marshal expected collected \<longleftrightarrow>
     expected = collected \<or> stripLastTransition (marshal expected) = stripLastTransition (marshal collected)"

fun SanitizedYAML_texts :: "kscheme \<Rightarrow> (kobject option \<Rightarrow> gostring) \<Rightarrow> kobject list \<Rightarrow> err + gostring list" where
  "SanitizedYAML_texts sch marshal [] = Inr []"
| "SanitizedYAML_texts sch marshal (ob # objs) =
     (case gvk_for sch ob of
        Inl e \<Rightarrow> Inl e
      | Inr g \<Rightarrow>
        (case SanitizedYAML_texts sch marshal objs of
           Inl e \<Rightarrow> Inl e
         | Inr yamls \<Rightarrow> Inr (stripLastTransition (marshal (Some (ob\<lparr>k_gvk := g\<rparr>))) # yamls)))"

definition SanitizedYAML :: "kscheme \<Rightarrow> (kobject option \<Rightarrow> gostring) \<Rightarrow> kobject list \<Rightarrow> err + gostring" where
  "SanitizedYAML sch marshal objs =
     (case SanitizedYAML_texts sch marshal objs of
        Inl e \<Rightarrow> Inl e
      | Inr yamls \<Rightarrow> Inr (str_join yamls (CHR 0x0A # ''---'' @ [CHR 0x0A])))"

section \<open>Running a handler\<close>

text \<open>
  The request of a test. The input is at reference 0, the existing objects at the next ones, and
  the copy of the input that the client is given after them. An error is \<open>t.Fatal\<close>.
\<close>

definition harness_heap :: "kobject \<Rightarrow> kobject list \<Rightarrow> oref \<Rightarrow> kobject" where
  "harness_heap input existing r =
     (if 0 < r \<and> r \<le> length existing then existing ! (r - 1) else input)"

definition NewRequestWithContext :: "kscheme \<Rightarrow> kobject \<Rightarrow> kobject list \<Rightarrow> err + request \<times> tstate" where
  "NewRequestWithContext sch input existing =
     (case gvk_for sch input of
        Inl e \<Rightarrow> Inl e
      | Inr g \<Rightarrow>
        Inr (\<lparr>rq_object = Some 0, rq_gvk = g, rq_namespace = k_namespace input, rq_name = k_name input,
              rq_key = toKey (k_namespace input) (k_name input), rq_fromTrigger = False\<rparr>,
             \<lparr>ts_heap = harness_heap input existing,
              ts_client = \<lparr>tc_Objects = map Suc [0..<length existing] @ [length existing + 1],
                           tc_Created = [], tc_Updated = []\<rparr>\<rparr>))"

definition new_test_response :: testResponse where
  "new_test_response = \<lparr>tr_Delay = 0, tr_Collected = [], tr_NoPrune = False\<rparr>"

definition golden_check ::
  "kscheme \<Rightarrow> (kobject option \<Rightarrow> gostring) \<Rightarrow> (gostring \<Rightarrow> gostring \<Rightarrow> bool) \<Rightarrow> gostring \<Rightarrow> kobject list \<Rightarrow> err + failure list" where
  "golden_check sch marshal expect_file dir collected =
     (if dir = [] then Inr []
      else (case SanitizedYAML sch marshal collected of
              Inl e \<Rightarrow> Inl e
            | Inr yamls \<Rightarrow> Inr (if expect_file dir yamls then [] else [WrongGolden])))"

definition InvokeWithContext ::
  "kscheme \<Rightarrow> (kobject option \<Rightarrow> gostring) \<Rightarrow> (gostring \<Rightarrow> gostring \<Rightarrow> bool) \<Rightarrow> harness \<Rightarrow> kobject \<Rightarrow>
     (request \<Rightarrow> testResponse \<Rightarrow> tstate \<Rightarrow> err option \<times> testResponse \<times> tstate) \<Rightarrow> err + failure list" where
  "InvokeWithContext sch marshal expect_file b input handler =
     (case NewRequestWithContext sch input (hn_Existing b) of
        Inl e \<Rightarrow> Inl e
      | Inr (req, s) \<Rightarrow>
        (case handler req new_test_response s of
           (Some e, _) \<Rightarrow> Inl e
         | (None, resp, s1) \<Rightarrow>
           check_output sch (same_output marshal) (golden_check sch marshal expect_file (hn_ExpectedGoldenPath b))
             (hn_ExpectedDelay b) (hn_ExpectedOutput b) (tr_Delay resp) (map (ts_heap s1) (tr_Collected resp))))"

definition DefaultTest ::
  "kscheme \<Rightarrow> (kobject option \<Rightarrow> gostring) \<Rightarrow> (gostring \<Rightarrow> gostring \<Rightarrow> bool) \<Rightarrow>
     (gostring \<Rightarrow> gostring \<Rightarrow> err + kobject list) \<Rightarrow> gostring \<Rightarrow> (gostring \<times> fs_node) list \<Rightarrow> err + bool \<Rightarrow>
     (request \<Rightarrow> testResponse \<Rightarrow> tstate \<Rightarrow> err option \<times> testResponse \<times> tstate) \<Rightarrow> err + failure list" where
  "DefaultTest sch marshal expect_file decode path ls golden handler =
     (case FromDir decode path ls golden of
        Inl e \<Rightarrow> Inl e
      | Inr (b, input) \<Rightarrow> InvokeWithContext sch marshal expect_file b input handler)"

section \<open>What a test case is read from\<close>

text \<open>
  The files that belong to a file: itself, and those with the ending of YAML in the directory
  beside it, with theirs. \<open>reads dir ls file path data\<close> says that \<open>data\<close> at \<open>path\<close> belongs to \<open>file\<close>.
\<close>

inductive reads :: "gostring \<Rightarrow> (gostring \<times> fs_node) list \<Rightarrow> gostring \<Rightarrow> gostring \<Rightarrow> gostring \<Rightarrow> bool" where
  reads_own: "os_ReadFile ls file = Some (Inr data) \<Longrightarrow> reads dir ls file (dir @ ''/'' @ file) data"
| reads_nested: "os_ReadDir ls (file @ ''.d'') = Some (Inr sub) \<Longrightarrow> (name, node) \<in> set sub \<Longrightarrow> \<not> IsDir node \<Longrightarrow>
    has_suffix name ''.yaml'' \<Longrightarrow> reads ((dir @ ''/'' @ file) @ ''.d'') sub name path data \<Longrightarrow> reads dir ls file path data"

definition gathers ::
  "(gostring \<Rightarrow> gostring \<Rightarrow> err + kobject list) \<Rightarrow> (gostring \<Rightarrow> gostring \<Rightarrow> bool) \<Rightarrow> kobject list \<Rightarrow> bool" where
  "gathers decode P objs \<longleftrightarrow>
     (\<forall>path data. P path data \<longrightarrow> (\<exists>obs. decode path data = Inr obs \<and> set obs \<subseteq> set objs)) \<and>
     (\<forall>ob \<in> set objs. \<exists>path data obs. P path data \<and> decode path data = Inr obs \<and> ob \<in> set obs)"

lemma gathers_none: "(\<And>path data. \<not> P path data) \<Longrightarrow> gathers decode P []"
  by (simp add: gathers_def)

lemma gathers_one: "decode path data = Inr obs \<Longrightarrow> gathers decode (\<lambda>p d. p = path \<and> d = data) obs"
  by (auto simp: gathers_def)

lemma gathers_append:
  "gathers decode P xs \<Longrightarrow> gathers decode Q ys \<Longrightarrow> (\<And>p d. R p d \<longleftrightarrow> P p d \<or> Q p d) \<Longrightarrow> gathers decode R (xs @ ys)"
  unfolding gathers_def by (metis Un_iff le_supI1 le_supI2 set_append)

lemma readFile_gathers:
  "readFile decode dir ls f = Inr objs \<Longrightarrow> gathers decode (reads dir ls f) objs"
  "readFile_nested decode dir ls files = Inr objs \<Longrightarrow>
     gathers decode (\<lambda>path data. \<exists>name node. (name, node) \<in> set files \<and> \<not> IsDir node \<and> has_suffix name ''.yaml'' \<and>
       reads dir ls name path data) objs"
proof (induction decode dir ls f and decode dir ls files arbitrary: objs and objs rule: readFile_readFile_nested.induct)
  case (1 decode dir ls f)
  define path where "path = dir @ ''/'' @ f"
  note eq = readFile.simps [of decode dir ls f, unfolded Let_def, folded path_def]
  let ?nest = "\<lambda>p d. \<exists>sub name node. os_ReadDir ls (f @ ''.d'') = Some (Inr sub) \<and> (name, node) \<in> set sub \<and>
    \<not> IsDir node \<and> has_suffix name ''.yaml'' \<and> reads (path @ ''.d'') sub name p d"
  obtain nested where n: "(case os_ReadDir ls (f @ ''.d'') of None \<Rightarrow> Inr []
      | Some (Inl e) \<Rightarrow> Inl e
      | Some (Inr files) \<Rightarrow> readFile_nested decode (path @ ''.d'') files files) = Inr nested"
    using "1.prems" unfolding eq by (auto split: sum.splits)
  have nest: "gathers decode ?nest nested"
  proof (cases "os_ReadDir ls (f @ ''.d'')")
    case None
    with n show ?thesis by (auto intro: gathers_none)
  next
    case (Some r)
    with n obtain sub where sub: "r = Inr sub" "readFile_nested decode (path @ ''.d'') sub sub = Inr nested"
      by (cases r) auto
    from "1.IH" [OF path_def Some sub(1) sub(2)] Some sub(1) show ?thesis by simp
  qed
  have split: "reads dir ls f p d \<longleftrightarrow> ?nest p d \<or> (p = path \<and> os_ReadFile ls f = Some (Inr d))" for p d
  proof
    assume "reads dir ls f p d"
    then show "?nest p d \<or> (p = path \<and> os_ReadFile ls f = Some (Inr d))"
      by (cases rule: reads.cases) (simp_all add: path_def, blast)
  next
    assume "?nest p d \<or> (p = path \<and> os_ReadFile ls f = Some (Inr d))"
    then show "reads dir ls f p d"
      unfolding path_def by (blast intro: reads_own reads_nested)
  qed
  show ?case
  proof (cases "os_ReadFile ls f")
    case None
    with "1.prems" n have "objs = nested" by (simp add: eq)
    with nest None split show ?thesis by (simp add: gathers_def)
  next
    case (Some r)
    with "1.prems" n obtain data obs where d: "r = Inr data" "decode path data = Inr obs" "objs = nested @ obs"
      by (auto simp: eq split: sum.splits)
    have "gathers decode (reads dir ls f) (nested @ obs)"
      by (rule gathers_append [OF nest gathers_one [of _ path data]]) (use d Some split in auto)
    with d(3) show ?thesis by simp
  qed
next
  case (2 decode dir ls)
  then show ?case by (simp add: gathers_none)
next
  case (3 decode dir ls name node files)
  show ?case
  proof (cases "IsDir node \<or> \<not> has_suffix name ''.yaml''")
    case True
    with "3.prems" have "readFile_nested decode dir ls files = Inr objs" by simp
    from "3.IH"(1) [OF True this] True show ?thesis
      by (elim back_subst [where P = "\<lambda>P. gathers decode P objs"]) auto
  next
    case False
    with "3.prems" obtain xs ys where x: "readFile decode dir ls name = Inr xs"
        "readFile_nested decode dir ls files = Inr ys" "objs = xs @ ys"
      by (auto split: sum.splits)
    show ?thesis
      unfolding x(3) by (rule gathers_append [OF "3.IH"(2) [OF False x(1)] "3.IH"(3) [OF False x(1,2)]]) (use False in auto)
  qed
qed

text \<open>C35: reading a test case misses nothing. Reading always ends; when it succeeds, every file that belongs
  to the given one, at any depth of nested directories, was read and decoded, all its objects are
  in the result, and nothing else is.\<close>

theorem readFile_misses_nothing:
  assumes "readFile (decode_file yl cod sch) dir ls f = Inr objs"
  shows "(\<forall>path data. reads dir ls f path data \<longrightarrow>
      (\<exists>obs. decode_file yl cod sch path data = Inr obs \<and> set obs \<subseteq> set objs)) \<and>
    set objs = {ob. \<exists>path data obs. reads dir ls f path data \<and> decode_file yl cod sch path data = Inr obs \<and> ob \<in> set obs}"
proof -
  from readFile_gathers(1) [OF assms] have g: "gathers (decode_file yl cod sch) (reads dir ls f) objs" .
  then have "\<And>path data obs ob. reads dir ls f path data \<Longrightarrow> decode_file yl cod sch path data = Inr obs \<Longrightarrow>
      ob \<in> set obs \<Longrightarrow> ob \<in> set objs"
    unfolding gathers_def by (metis Inr_inject subsetD)
  with g show ?thesis unfolding gathers_def by blast
qed

definition case_lib :: yaml_lib where
  "case_lib = \<lparr>yl_read = (\<lambda>t. ([t], None)), yl_ToJSON = (\<lambda>t. Inr t), yl_check = (\<lambda>t. Inr [(t, JNull)]),
     yl_Decode = (\<lambda>t. Inr (UObject [(t, JNull)])), yl_Marshal = (\<lambda>m. Inr []), yl_GetName = (\<lambda>m. []),
     yl_GetGenerateName = (\<lambda>m. []), yl_GetNamespace = (\<lambda>m. []), yl_GetAnnotations = (\<lambda>m. []), yl_GetLabels = (\<lambda>m. [])\<rparr>"

definition case_typed :: typed_lib where
  "case_typed = \<lparr>ty_kind = (\<lambda>m. GVK [] ''v1'' ''Secret''), ty_Marshal = (\<lambda>m. Inr (fst (hd m))),
     ty_Unmarshal = (\<lambda>t ob. Inr (ob\<lparr>k_name := t\<rparr>))\<rparr>"

definition case_scheme :: kscheme where
  "case_scheme = own_kinds\<lparr>scheme_new := (\<lambda>g. NewObject (zero_object ''Secret'' g))\<rparr>"

definition case_dir :: "(gostring \<times> fs_node) list" where
  "case_dir = [(''existing.yaml'', Regular ''b''),
     (''existing.yaml.d'', Directory [(''README'', Regular ''x''), (''a.yaml'', Regular ''a'')])]"

lemma readFile_misses_nothing_witness:
  "\<exists>objs. readFile (decode_file case_lib case_typed case_scheme) ''t'' case_dir ''existing.yaml'' = Inr objs \<and>
     map k_name objs = [''a'', ''b''] \<and>
     (\<exists>obs. decode_file case_lib case_typed case_scheme ''t/existing.yaml'' ''b'' = Inr obs \<and> set obs \<subseteq> set objs)"
proof -
  let ?dec = "decode_file case_lib case_typed case_scheme"
  have dec: "?dec p d = Inr [(zero_object ''Secret'' (GVK [] ''v1'' ''Secret''))\<lparr>k_name := d\<rparr>]" for p d
    by (simp add: decode_file_def case_lib_def case_typed_def case_scheme_def ToObjects_def toObjects_def)
  have r: "readFile ?dec ''t'' case_dir ''existing.yaml'' =
      Inr [(zero_object ''Secret'' (GVK [] ''v1'' ''Secret''))\<lparr>k_name := ''a''\<rparr>,
           (zero_object ''Secret'' (GVK [] ''v1'' ''Secret''))\<lparr>k_name := ''b''\<rparr>]"
    by (simp add: readFile.simps case_dir_def os_ReadDir_def os_ReadFile_def dec has_suffix_def has_prefix_def Let_def)
  have "reads ''t'' case_dir ''existing.yaml'' ''t/existing.yaml'' ''b''"
    using reads_own [of case_dir "''existing.yaml''" "''b''" "''t''"] by (simp add: case_dir_def os_ReadFile_def)
  with readFile_misses_nothing [OF r] r show ?thesis by fastforce
qed

section \<open>What a handler under test sees\<close>

text \<open>
  The client of a request gives the input under the key of the request, whatever else exists under
  this key, and goes on giving it when the handler changes the object of the request in place.
\<close>

lemma request_reads_input:
  assumes "NewRequestWithContext sch input existing = Inr (req, s)" and "out \<noteq> length existing + 1"
    and "k_type (ts_heap s' out) = k_type input" and "s' = s\<lparr>ts_heap := (ts_heap s)(0 := changed, out := ob)\<rparr>"
  shows "tc_Get out (rq_namespace req) (rq_name req) s' = (None, s'\<lparr>ts_heap := (ts_heap s')(out := input)\<rparr>)"
  using assms
  by (auto simp: NewRequestWithContext_def tc_Get_def tc_objects_def same_object_def harness_heap_def split: sum.splits)

text \<open>C40: the harness accepts exactly what the case expects. For a case with expected objects, a handler
  that returns no error and whose collected objects have known kinds passes exactly when its
  delay is the expected one, the golden file, if the case has one, agrees, the kinds, namespaces
  and names of the collected objects are those expected, and the objects under each of them are
  equal up to lines with transition times.\<close>

theorem InvokeWithContext_accepts:
  assumes "NewRequestWithContext sch input (hn_Existing b) = Inr (req, s)"
    and "handler req new_test_response s = (None, resp, s1)" and "hn_ExpectedOutput b \<noteq> []"
    and "collected = map (ts_heap s1) (tr_Collected resp)"
    and "toObjectMap sch (hn_ExpectedOutput b) = Inr e" and "toObjectMap sch collected = Inr c"
    and "golden_check sch marshal expect_file (hn_ExpectedGoldenPath b) (map (set_kind sch) collected) = Inr wrong"
  shows "InvokeWithContext sch marshal expect_file b input handler = Inr [] \<longleftrightarrow>
    hn_ExpectedDelay b = tr_Delay resp \<and> wrong = [] \<and>
    {(g, k_namespace ob, k_name ob) |g ob. ob \<in> set (hn_ExpectedOutput b) \<and> gvk_for sch ob = Inr g} =
    {(g, k_namespace ob, k_name ob) |g ob. ob \<in> set collected \<and> gvk_for sch ob = Inr g} \<and>
    (\<forall>k \<in> dom (map_of e). map_of e k = map_of c k \<or>
       stripLastTransition (marshal (map_of e k)) = stripLastTransition (marshal (map_of c k)))"
  using check_output_accepts [where same = "same_output marshal" and expectedDelay = "hn_ExpectedDelay b" and
      delay = "tr_Delay resp" and golden = "golden_check sch marshal expect_file (hn_ExpectedGoldenPath b)",
      OF assms(3,5,6,7)]
  by (simp add: InvokeWithContext_def assms(1,2) assms(4) [symmetric] same_output_def)

definition input_object :: kobject where
  "input_object = (zero_object ''Secret'' (GVK [] ''v1'' ''Secret''))\<lparr>k_name := ''in''\<rparr>"

text \<open>A handler that gives its input out.\<close>

lemma InvokeWithContext_accepts_witness:
  "InvokeWithContext own_kinds (\<lambda>_. []) (\<lambda>d t. False)
     \<lparr>hn_Existing = [], hn_ExpectedOutput = [input_object], hn_ExpectedGoldenPath = [], hn_ExpectedDelay = 0\<rparr>
     input_object (\<lambda>req resp s. (None, tr_Objects [0] resp, s)) = Inr []"
proof -
  let ?b = "\<lparr>hn_Existing = [], hn_ExpectedOutput = [input_object], hn_ExpectedGoldenPath = [], hn_ExpectedDelay = 0\<rparr>"
  let ?h = "\<lambda>req resp s. (None :: err option, tr_Objects [0] resp, s :: tstate)"
  obtain req s where r: "NewRequestWithContext own_kinds input_object (hn_Existing ?b) = Inr (req, s)"
      and s: "ts_heap s 0 = input_object"
    by (simp add: NewRequestWithContext_def own_kinds_def harness_heap_def)
  have m: "toObjectMap own_kinds [input_object] =
      Inr [(\<lparr>tk_GVK = GVK [] ''v1'' ''Secret'', tk_Namespace = [], tk_Name = ''in''\<rparr>, input_object)]"
    by (simp add: toObjectMap_def own_kinds_def input_object_def zero_object_def)
  have c: "[input_object] = map (ts_heap s) (tr_Collected (tr_Objects [0] new_test_response))"
    by (simp add: s tr_Objects_def new_test_response_def)
  have g: "golden_check own_kinds (\<lambda>_. []) (\<lambda>d t. False) (hn_ExpectedGoldenPath ?b) (map (set_kind own_kinds) [input_object]) = Inr []"
    by (simp add: golden_check_def)
  show ?thesis
    by (rule InvokeWithContext_accepts [where b = ?b and handler = ?h, THEN iffD2, OF r refl _ c _ m g])
       (simp_all add: m tr_Objects_def new_test_response_def)
qed

text \<open>
  The comparison ends at the first line of 64 KiB: whatever follows, objects with the same text up to
  there are taken as the same.
\<close>

lemma scan_lines_line:
  "CHR 0x0A \<notin> set l \<Longrightarrow>
     scan_lines cur (l @ CHR 0x0A # t) = (if MaxScanTokenSize \<le> length cur + length l then [] else dropCR (cur @ l) # scan_lines [] t)"
  by (induction l arbitrary: cur) auto

lemma scan_lines_lines:
  "\<forall>l \<in> set ls. CHR 0x0A \<notin> set l \<and> length l < MaxScanTokenSize \<Longrightarrow>
     scan_lines [] (concat (map (\<lambda>l. l @ [CHR 0x0A]) ls) @ t) = map dropCR ls @ scan_lines [] t"
  by (induction ls) (simp_all add: scan_lines_line)

lemma stripLastTransition_lines:
  "stripLastTransition buf =
     concat (map (\<lambda>l. l @ [CHR 0x0A]) (filter (\<lambda>l. \<not> str_contains l ''lastTransitionTime:'') (scan_lines [] buf)))"
proof -
  have "foldl (\<lambda>result line. if str_contains line ''lastTransitionTime:'' then result else result @ line @ [CHR 0x0A]) acc ls =
      acc @ concat (map (\<lambda>l. l @ [CHR 0x0A]) (filter (\<lambda>l. \<not> str_contains l ''lastTransitionTime:'') ls))" for acc ls
    by (induction ls arbitrary: acc) simp_all
  then show ?thesis by (simp add: stripLastTransition_def)
qed

lemma strip_forgets_after_long_line:
  assumes "\<forall>l \<in> set ls. CHR 0x0A \<notin> set l \<and> length l < MaxScanTokenSize"
    and "CHR 0x0A \<notin> set long" and "MaxScanTokenSize \<le> length long"
    and "CHR 0x0A \<notin> set long'" and "MaxScanTokenSize \<le> length long'"
    and "marshal a = concat (map (\<lambda>l. l @ [CHR 0x0A]) ls) @ long @ CHR 0x0A # t"
    and "marshal b = concat (map (\<lambda>l. l @ [CHR 0x0A]) ls) @ long' @ CHR 0x0A # t'"
  shows "same_output marshal a b"
  using assms(2-5)
  by (simp add: same_output_def assms(6,7) stripLastTransition_lines scan_lines_lines [OF assms(1)] scan_lines_line)

end
