(* ===== verification/Builders.thy ===== *)
theory Builders
  imports RouteProperties TesterFiles ApplyConfig
begin

text \<open>
  Slices that share their arrays. A Go slice is a window on an array, and \<open>append\<close> writes into the array
  when the window does not reach its end. The builders of this repository are values with a slice in
  them: \<open>RouteBuilder.Middleware\<close> (pkg/router/router.go), \<open>WithPruneTypes\<close> (pkg/apply/desiredset.go) and
  the objects of a test harness (pkg/router/tester/tester.go) are copied and appended to. Elsewhere
  these are modelled by lists; here it is shown when that is right, and what happens when two
  values are made from one. The last section is about the builder inside a \<open>Router\<close>, which all its
  routes are made from, and the ways to register a route with it.
\<close>

section \<open>Arrays and slices\<close>

text \<open>The arrays by address, with the next free address; a slice starts at the start of its array.\<close>

record 'a arrays =
  ar_at :: "nat \<Rightarrow> 'a list"
  ar_next :: nat

record slice =
  sl_array :: nat
  sl_len :: nat

definition sl_value :: "'a arrays \<Rightarrow> slice \<Rightarrow> 'a list" where
  "sl_value m s = take (sl_len s) (ar_at m (sl_array s))"

definition sl_ok :: "'a arrays \<Rightarrow> slice \<Rightarrow> bool" where
  "sl_ok m s \<longleftrightarrow> sl_array s < ar_next m \<and> sl_len s \<le> length (ar_at m (sl_array s))"

text \<open>\<open>spare\<close> are the elements a new array has behind those that are needed.\<close>

definition go_append :: "'a list \<Rightarrow> slice \<Rightarrow> 'a list \<Rightarrow> 'a arrays \<Rightarrow> slice \<times> 'a arrays" where
  "go_append spare s xs m =
     (let arr = ar_at m (sl_array s); n = sl_len s + length xs
      in if n \<le> length arr
         then (s\<lparr>sl_len := n\<rparr>,
               m\<lparr>ar_at := (ar_at m)(sl_array s := take (sl_len s) arr @ xs @ drop n arr)\<rparr>)
         else (\<lparr>sl_array = ar_next m, sl_len = n\<rparr>,
               m\<lparr>ar_at := (ar_at m)(ar_next m := take (sl_len s) arr @ xs @ spare), ar_next := ar_next m + 1\<rparr>))"

text \<open>The slice that is returned has the elements it should have.\<close>

lemma append_value:
  "sl_ok m s \<Longrightarrow> go_append spare s xs m = (s', m') \<Longrightarrow> sl_value m' s' = sl_value m s @ xs \<and> sl_ok m' s'"
  by (auto simp: go_append_def sl_value_def sl_ok_def Let_def split: if_splits)

text \<open>The slice it was made from, and any other whose window does not reach behind it, keep theirs.\<close>

lemma append_keeps:
  assumes "sl_ok m s" and "sl_ok m t" and "go_append spare s xs m = (s', m')"
    and "sl_array t = sl_array s \<longrightarrow> sl_len t \<le> sl_len s"
  shows "sl_value m' t = sl_value m t \<and> sl_ok m' t"
  using assms by (auto simp: go_append_def sl_value_def sl_ok_def Let_def split: if_splits)

section \<open>Chains of calls\<close>

text \<open>
  A builder that is made by a chain of calls, each on the result of the one before, has everything
  that was appended: for chains a slice is its list, whatever room the arrays have.
\<close>

fun append_chain :: "slice \<Rightarrow> ('a list \<times> 'a list) list \<Rightarrow> 'a arrays \<Rightarrow> slice \<times> 'a arrays" where
  "append_chain s [] m = (s, m)"
| "append_chain s ((spare, xs) # calls) m =
     (case go_append spare s xs m of (s1, m1) \<Rightarrow> append_chain s1 calls m1)"

lemma append_chain_value:
  "sl_ok m s \<Longrightarrow> append_chain s calls m = (s', m') \<Longrightarrow> sl_value m' s' = sl_value m s @ concat (map snd calls)"
proof (induction calls arbitrary: s m)
  case (Cons c calls)
  obtain spare xs where c: "c = (spare, xs)" by (cases c)
  obtain s1 m1 where a: "go_append spare s xs m = (s1, m1)" by fastforce
  from append_value [OF Cons.prems(1) a] have "sl_value m1 s1 = sl_value m s @ xs" and "sl_ok m1 s1" by simp_all
  with Cons.IH [of m1 s1] Cons.prems(2) c a show ?case by simp
qed simp

text \<open>Two slices that are made from one with room behind it share the room: the later one wins.\<close>

lemma append_shared:
  assumes "sl_ok m s" and "sl_len s < length (ar_at m (sl_array s))"
    and "go_append sp1 s [d] m = (s1, m1)" and "go_append sp2 s [e] m1 = (s2, m2)"
  shows "sl_value m2 s1 = sl_value m s @ [e] \<and> sl_value m2 s2 = sl_value m s @ [e]"
proof -
  let ?arr = "ar_at m (sl_array s)" and ?n = "sl_len s"
  have s1: "s1 = s\<lparr>sl_len := Suc ?n\<rparr>" and m1: "ar_at m1 (sl_array s) = take ?n ?arr @ d # drop (Suc ?n) ?arr"
    using assms(2,3) by (auto simp: go_append_def Let_def)
  have "Suc ?n \<le> length (ar_at m1 (sl_array s))" using assms(2) by (simp add: m1)
  then have s2: "s2 = s\<lparr>sl_len := Suc ?n\<rparr>" and m2: "ar_at m2 (sl_array s) = take ?n ?arr @ e # drop (Suc ?n) ?arr"
    using assms(2,4) by (auto simp: go_append_def Let_def m1)
  show ?thesis using assms(2) by (simp add: s1 s2 m2 sl_value_def)
qed

section \<open>Builders of routes\<close>

text \<open>
  A builder whose middleware is a slice; \<open>mb_builder\<close> is the builder it stands for in a state of the
  arrays. \<open>Handler\<close> reads the slice when it is called.
\<close>

record 'w mem_builder =
  mb_route :: "'w route_builder"
  mb_middleware :: slice

definition mb_builder :: "('w handler \<Rightarrow> 'w handler) arrays \<Rightarrow> 'w mem_builder \<Rightarrow> 'w route_builder" where
  "mb_builder m r = (mb_route r)\<lparr>rb_middleware := sl_value m (mb_middleware r)\<rparr>"

definition mb_Middleware ::
  "('w handler \<Rightarrow> 'w handler) list \<Rightarrow> ('w handler \<Rightarrow> 'w handler) list \<Rightarrow> 'w mem_builder \<Rightarrow>
     ('w handler \<Rightarrow> 'w handler) arrays \<Rightarrow> 'w mem_builder \<times> ('w handler \<Rightarrow> 'w handler) arrays" where
  "mb_Middleware spare ms r m =
     (case go_append spare (mb_middleware r) ms m of (s, m') \<Rightarrow> (r\<lparr>mb_middleware := s\<rparr>, m'))"

text \<open>Adding middleware refines adding to the list.\<close>

lemma mb_Middleware_refines:
  "sl_ok m (mb_middleware r) \<Longrightarrow> mb_Middleware spare ms r m = (r', m') \<Longrightarrow>
     mb_builder m' r' = rb_Middleware ms (mb_builder m r) \<and> sl_ok m' (mb_middleware r')"
  using append_value [of m "mb_middleware r" spare ms]
  by (auto simp: mb_Middleware_def mb_builder_def rb_Middleware_def split: prod.splits)

text \<open>C33: builders made from one can share their middleware. Adding to a builder gives the builder with the
  list of middleware extended, but it is not a value: when the array of the first builder has room,
  two builders that are made from it write to the same place, so that a route registered with the
  first of them runs the middleware of the second and not its own. With an array that is full both
  have their own.\<close>

theorem Middleware_siblings:
  assumes "sl_ok m (mb_middleware r)"
    and "mb_Middleware sp1 [d] r m = (r1, m1)" and "mb_Middleware sp2 [e] r m1 = (r2, m2)"
  shows "mb_builder m1 r1 = rb_Middleware [d] (mb_builder m r) \<and>
    mb_builder m2 r2 = rb_Middleware [e] (mb_builder m r) \<and>
    mb_builder m2 r1 =
      rb_Middleware [if sl_len (mb_middleware r) < length (ar_at m (sl_array (mb_middleware r))) then e else d] (mb_builder m r)"
proof -
  let ?s = "mb_middleware r"
  obtain s1 where a1: "go_append sp1 ?s [d] m = (s1, m1)" and r1: "r1 = r\<lparr>mb_middleware := s1\<rparr>"
    using assms(2) by (auto simp: mb_Middleware_def split: prod.splits)
  obtain s2 where a2: "go_append sp2 ?s [e] m1 = (s2, m2)" and r2: "r2 = r\<lparr>mb_middleware := s2\<rparr>"
    using assms(3) by (auto simp: mb_Middleware_def split: prod.splits)
  note v1 = append_value [OF assms(1) a1]
  note k = append_keeps [OF assms(1) assms(1) a1]
  have k': "sl_value m1 ?s = sl_value m ?s" "sl_ok m1 ?s" using k by simp_all
  note v2 = append_value [OF k'(2) a2]
  have "sl_value m2 s1 = sl_value m ?s @ [if sl_len ?s < length (ar_at m (sl_array ?s)) then e else d]"
  proof (cases "sl_len ?s < length (ar_at m (sl_array ?s))")
    case True
    with append_shared [OF assms(1) True a1 a2] show ?thesis by simp
  next
    case False
    then have "sl_array s1 \<noteq> sl_array ?s"
      using a1 assms(1) by (auto simp: go_append_def sl_ok_def Let_def)
    with append_keeps [OF k'(2) v1 [THEN conjunct2] a2] v1 False show ?thesis by simp
  qed
  with v1 v2 k' show ?thesis by (simp add: mb_builder_def rb_Middleware_def r1 r2)
qed

text \<open>Three calls with one middleware each leave room for one more.\<close>

definition first_arrays :: "('w handler \<Rightarrow> 'w handler) arrays" where
  "first_arrays = \<lparr>ar_at = (\<lambda>_. []), ar_next = 1\<rparr>"

definition no_middleware :: "kobject \<Rightarrow> 'w mem_builder" where
  "no_middleware ob = \<lparr>mb_route = \<lparr>rb_includeRemove = False, rb_includeFinalizing = False, rb_finalizeID = [],
     rb_objType = ob, rb_name = [], rb_namespace = [], rb_routeName = [], rb_middleware = [], rb_sel = None,
     rb_fieldSelector = None\<rparr>, mb_middleware = \<lparr>sl_array = 0, sl_len = 0\<rparr>\<rparr>"

lemma Middleware_siblings_witness:
  "\<forall>a b c d e z :: 'w handler \<Rightarrow> 'w handler. \<exists>r m r1 m1 r2 m2.
     mb_middleware r = fst (append_chain \<lparr>sl_array = 0, sl_len = 0\<rparr> [([], [a]), ([], [b]), ([z], [c])] first_arrays) \<and>
     mb_Middleware [] [d] r m = (r1, m1) \<and> mb_Middleware [] [e] r m1 = (r2, m2) \<and>
     rb_middleware (mb_builder m1 r1) = [a, b, c, d] \<and> rb_middleware (mb_builder m2 r1) = [a, b, c, e]"
proof (intro allI)
  fix a b c d e z :: "'w handler \<Rightarrow> 'w handler"
  obtain s m where chain: "append_chain \<lparr>sl_array = 0, sl_len = 0\<rparr> [([], [a]), ([], [b]), ([z], [c])] first_arrays = (s, m)"
    by fastforce
  have s: "s = \<lparr>sl_array = 3, sl_len = 3\<rparr>" "ar_at m 3 = [a, b, c, z]" "ar_next m = 4"
    using chain by (auto simp: first_arrays_def go_append_def Let_def)
  let ?r = "(no_middleware input_object)\<lparr>mb_middleware := s\<rparr>"
  obtain r1 m1 where 1: "mb_Middleware [] [d] ?r m = (r1, m1)" by fastforce
  obtain r2 m2 where 2: "mb_Middleware [] [e] ?r m1 = (r2, m2)" by fastforce
  have ok: "sl_ok m (mb_middleware ?r)" by (simp add: sl_ok_def s)
  from Middleware_siblings [OF ok 1 2]
  have "rb_middleware (mb_builder m1 r1) = [a, b, c, d] \<and> rb_middleware (mb_builder m2 r1) = [a, b, c, e]"
    by (simp add: mb_builder_def rb_Middleware_def sl_value_def s)
  with 1 2 chain show "\<exists>r m r1 m1 r2 m2.
     mb_middleware r = fst (append_chain \<lparr>sl_array = 0, sl_len = 0\<rparr> [([], [a]), ([], [b]), ([z], [c])] first_arrays) \<and>
     mb_Middleware [] [d] r m = (r1, m1) \<and> mb_Middleware [] [e] r m1 = (r2, m2) \<and>
     rb_middleware (mb_builder m1 r1) = [a, b, c, d] \<and> rb_middleware (mb_builder m2 r1) = [a, b, c, e]"
    by (intro exI [of _ ?r] exI) auto
qed

section \<open>The other builders\<close>

text \<open>\<open>WithPruneTypes\<close> and the objects of a request of the harness.\<close>

definition mem_WithPruneTypes ::
  "kobject list \<Rightarrow> kobject list \<Rightarrow> apply_cfg \<times> slice \<Rightarrow> kobject arrays \<Rightarrow> (apply_cfg \<times> slice) \<times> kobject arrays" where
  "mem_WithPruneTypes spare objs = (\<lambda>(a, s) m.
     case go_append spare s objs m of (s', m') \<Rightarrow> ((a\<lparr>a_pruneObjects := sl_value m' s'\<rparr>, s'), m'))"

lemma mem_WithPruneTypes_refines:
  assumes "sl_ok m s" and "a_pruneObjects a = sl_value m s" and "mem_WithPruneTypes spare objs (a, s) m = ((a', s'), m')"
  shows "a' = WithPruneTypes objs a \<and> a_pruneObjects a' = sl_value m' s'"
  using append_value [OF assms(1), of spare objs] assms
  by (auto simp: mem_WithPruneTypes_def WithPruneTypes_def split: prod.splits)

text \<open>
  A harness whose list of existing objects has room gives two requests one array: the client of the
  first has the input of the second in place of its own.
\<close>

lemma harness_requests_share:
  assumes "sl_ok m existing" and "sl_len existing < length (ar_at m (sl_array existing))"
    and "go_append sp1 existing [input1] m = (objects1, m1)" and "go_append sp2 existing [input2] m1 = (objects2, m2)"
  shows "sl_value m1 objects1 = sl_value m existing @ [input1] \<and> sl_value m2 objects1 = sl_value m existing @ [input2]"
  using append_value [OF assms(1,3)] append_shared [OF assms] by blast

section \<open>Registering routes\<close>

text \<open>
  The short forms of registering. \<open>callerName\<close> is the file and line of the call, which \<open>name()\<close> finds on
  the stack. A \<open>HandlerFunc\<close> is the handler that calls it. A \<open>Router\<close> holds a builder, \<open>base\<close>; its
  methods \<open>Type\<close>, \<open>Namespace\<close> and so on are those of the builder and work on a copy, but \<open>Handle\<close> and
  \<open>HandleFunc\<close> assign the name of the route to the router's own.
\<close>

definition rb_HandlerFunc ::
  "'w backend \<Rightarrow> (json option \<Rightarrow> json option \<Rightarrow> bool) \<Rightarrow> gostring \<Rightarrow> 'w route_builder \<Rightarrow> 'w handler \<Rightarrow>
     'w handler_table \<Rightarrow> 'w handler_table option" where
  "rb_HandlerFunc b sem_eq callerName r h t = route_Handler b sem_eq callerName (r\<lparr>rb_routeName := callerName\<rparr>) h t"

definition rb_FinalizeFunc ::
  "'w backend \<Rightarrow> (json option \<Rightarrow> json option \<Rightarrow> bool) \<Rightarrow> gostring \<Rightarrow> gostring \<Rightarrow> 'w route_builder \<Rightarrow> 'w handler \<Rightarrow>
     'w handler_table \<Rightarrow> 'w handler_table option" where
  "rb_FinalizeFunc b sem_eq callerName finalizerID r h t =
     route_Handler b sem_eq callerName (r\<lparr>rb_finalizeID := finalizerID, rb_routeName := callerName\<rparr>) h t"

definition router_Handle ::
  "'w backend \<Rightarrow> (json option \<Rightarrow> json option \<Rightarrow> bool) \<Rightarrow> gostring \<Rightarrow> kobject \<Rightarrow> 'w handler \<Rightarrow>
     'w route_builder \<times> 'w handler_table \<Rightarrow> 'w route_builder \<times> 'w handler_table option" where
  "router_Handle b sem_eq callerName objType h = (\<lambda>(base, t).
     let base = base\<lparr>rb_routeName := callerName\<rparr>
     in (base, route_Handler b sem_eq callerName (rb_Type objType base) h t))"

definition router_HandleFunc ::
  "'w backend \<Rightarrow> (json option \<Rightarrow> json option \<Rightarrow> bool) \<Rightarrow> gostring \<Rightarrow> kobject \<Rightarrow> 'w handler \<Rightarrow>
     'w route_builder \<times> 'w handler_table \<Rightarrow> 'w route_builder \<times> 'w handler_table option" where
  "router_HandleFunc b sem_eq callerName objType h = (\<lambda>(base, t).
     let base = base\<lparr>rb_routeName := callerName\<rparr>
     in (base, route_Handler b sem_eq callerName (rb_Type objType base) h t))"

text \<open>The short forms name a route after the place of their call, whatever name the builder had before.\<close>

lemma route_handler_own_name:
  "route_handler b sem_eq c (r\<lparr>rb_routeName := c\<rparr>) h = route_handler b sem_eq c (r\<lparr>rb_routeName := []\<rparr>) h"
  by (cases r) (simp add: route_handler_def Let_def cong: if_cong)

lemma route_handler_named:
  assumes "n \<noteq> []"
  shows "route_handler b sem_eq c (r\<lparr>rb_routeName := n\<rparr>) h = route_handler b sem_eq n (r\<lparr>rb_routeName := []\<rparr>) h"
  using assms by (cases r) (simp add: route_handler_def Let_def cong: if_cong)

lemma short_forms_named:
  assumes "gvk_for (b_scheme b) (rb_objType r) = Inr g"
  shows "rb_HandlerFunc b sem_eq c r h t = Some (AddHandler g (route_handler b sem_eq c (r\<lparr>rb_routeName := []\<rparr>) h) t)"
    and "rb_FinalizeFunc b sem_eq c fid r h t =
      Some (AddHandler g (route_handler b sem_eq c (r\<lparr>rb_finalizeID := fid, rb_routeName := []\<rparr>) h) t)"
    and "route_Finalize b sem_eq c fid r h t = rb_FinalizeFunc b sem_eq c fid r h t"
proof -
  show "rb_HandlerFunc b sem_eq c r h t = Some (AddHandler g (route_handler b sem_eq c (r\<lparr>rb_routeName := []\<rparr>) h) t)"
    using assms by (simp add: rb_HandlerFunc_def route_Handler_def route_handler_own_name)
  show "rb_FinalizeFunc b sem_eq c fid r h t =
      Some (AddHandler g (route_handler b sem_eq c (r\<lparr>rb_finalizeID := fid, rb_routeName := []\<rparr>) h) t)"
    unfolding rb_FinalizeFunc_def route_Handler_def route_handler_own_name using assms by simp
  show "route_Finalize b sem_eq c fid r h t = rb_FinalizeFunc b sem_eq c fid r h t"
    by (simp add: route_Finalize_def rb_FinalizeFunc_def)
qed

lemma builders_keep_name:
  "rb_routeName (rb_Type ob r) = rb_routeName r" "rb_routeName (rb_Namespace ns r) = rb_routeName r"
  "rb_routeName (rb_Name n r) = rb_routeName r" "rb_routeName (rb_Selector sel r) = rb_routeName r"
  "rb_routeName (rb_FieldSelector fsel r) = rb_routeName r" "rb_routeName (rb_Middleware ms r) = rb_routeName r"
  "rb_routeName (rb_IncludeRemoved r) = rb_routeName r" "rb_routeName (rb_IncludeFinalizing r) = rb_routeName r"
  by (simp_all add: rb_Type_def rb_Namespace_def rb_Name_def rb_Selector_def rb_FieldSelector_def rb_Middleware_def
      rb_IncludeRemoved_def rb_IncludeFinalizing_def)

text \<open>
  After \<open>Handle\<close> or \<open>HandleFunc\<close> was called on a router, a route that is built from the router and
  registered with \<open>Handler\<close> has the name of that earlier call: its errors are reported with the
  wrong place. Without an earlier call it has its own.
\<close>

lemma Handler_after_Handle:
  assumes "router_Handle b sem_eq c1 ob1 h1 (base, t) = (base1, Some t1)" and "c1 \<noteq> []"
    and "rb_routeName r = rb_routeName base1" and "gvk_for (b_scheme b) (rb_objType r) = Inr g"
  shows "route_Handler b sem_eq c2 r h t1 =
    Some (AddHandler g (route_handler b sem_eq c1 (r\<lparr>rb_routeName := []\<rparr>) h) t1)"
proof -
  have "rb_routeName base1 = c1" using assms(1) by (auto simp: router_Handle_def Let_def)
  then have r: "r = r\<lparr>rb_routeName := c1\<rparr>" using assms(3) by simp
  have "route_handler b sem_eq c2 r h = route_handler b sem_eq c1 (r\<lparr>rb_routeName := []\<rparr>) h"
    by (subst r) (rule route_handler_named [OF assms(2)])
  with assms(4) show ?thesis by (simp add: route_Handler_def)
qed

text \<open>the place that is reported with an error is that of the last \<open>Handle\<close> of the router. The first
  route of a router that is built with \<open>Type\<close> and the other methods and registered with \<open>Handler\<close> prefixes
  the errors of its handler with the place of that call; the same route registered after \<open>Handle\<close> or
  \<open>HandleFunc\<close> was called on the router prefixes them with the place of that other call. Nothing
  else about the route depends on it: it runs its handler for the same requests and to the same
  effect.\<close>

theorem route_name_sticks:
  assumes "router_Handle b sem_eq c1 ob1 h1 (base, t) = (base1, t1)" and "c1 \<noteq> []" and "c2 \<noteq> []"
    and "rb_routeName base = []" and "\<forall>r. rb_routeName (build r) = rb_routeName r"
    and "\<forall>r n. build (r\<lparr>rb_routeName := n\<rparr>) = (build r)\<lparr>rb_routeName := n\<rparr>"
  shows "route_handler b sem_eq c2 (build base) h req p s =
      (if \<not> route_accepts (build base) req s then (None, p, s)
       else (case route_core b sem_eq (build base) h req p s of (e, q, s') \<Rightarrow>
               (map_option (PrefixError (''['' @ c2 @ ''] '')) e, q, s'))) \<and>
    route_handler b sem_eq c2 (build base1) h req p s =
      (if \<not> route_accepts (build base) req s then (None, p, s)
       else (case route_core b sem_eq (build base) h req p s of (e, q, s') \<Rightarrow>
               (map_option (PrefixError (''['' @ c1 @ ''] '')) e, q, s')))"
proof -
  have b1: "base1 = base\<lparr>rb_routeName := c1\<rparr>" using assms(1) by (auto simp: router_Handle_def Let_def)
  have n: "rb_routeName (build base) = []" "rb_routeName (build base1) = c1" using assms(4,5) b1 by simp_all
  have same: "build base1 = (build base)\<lparr>rb_routeName := c1\<rparr>" using assms(6) b1 by simp
  have acc: "route_accepts (build base1) req s = route_accepts (build base) req s"
    by (simp add: same route_accepts_def)
  have core: "route_core b sem_eq (build base1) h = route_core b sem_eq (build base) h"
    by (simp add: same route_core_def)
  show ?thesis using assms(2,3) by (simp add: route_filters n acc core Let_def split: prod.split)
qed

lemma route_name_sticks_witness:
  fixes b :: "unit backend" and h :: "unit handler"
  shows "\<exists>(base :: unit route_builder) base1 t1. router_Handle b sem_eq ''main.go:9'' ob (\<lambda>req p s. (None, p, s)) (base, []) = (base1, t1) \<and>
    route_handler b sem_eq ''main.go:12'' (rb_Name ''x'' (rb_Type ob (rb_IncludeRemoved base1)))
      (\<lambda>req p s. (Some ErrReplace, p, s)) \<lparr>rq_object = None, rq_gvk = g, rq_namespace = [], rq_name = ''x'', rq_key = ''x'',
         rq_fromTrigger = False\<rparr> p s = (Some (PrefixError ''[main.go:9] '' ErrReplace), p, s)"
proof -
  let ?h = "\<lambda>req p s. (Some ErrReplace, p, s)"
  let ?req = "\<lparr>rq_object = None, rq_gvk = g, rq_namespace = [], rq_name = ''x'', rq_key = ''x'', rq_fromTrigger = False\<rparr>"
  let ?base = "mb_route (no_middleware ob) :: unit route_builder"
  obtain base1 t1 where r: "router_Handle b sem_eq ''main.go:9'' ob (\<lambda>req p s. (None, p, s)) (?base, []) = (base1, t1)" by fastforce
  let ?build = "\<lambda>r :: unit route_builder. rb_Name ''x'' (rb_Type ob (rb_IncludeRemoved r))"
  have 1: "rb_routeName ?base = []" by (simp add: no_middleware_def)
  have 2: "\<forall>r. rb_routeName (?build r) = rb_routeName r" by (simp add: builders_keep_name)
  have 3: "\<forall>r n. ?build (r\<lparr>rb_routeName := n\<rparr>) = (?build r)\<lparr>rb_routeName := n\<rparr>"
    by (simp add: rb_Name_def rb_Type_def rb_IncludeRemoved_def)
  have acc: "route_accepts (?build ?base) ?req s"
    by (simp add: route_accepts_def no_middleware_def rb_Name_def rb_Type_def rb_IncludeRemoved_def)
  have core: "route_core b sem_eq (?build ?base) ?h = ?h"
    by (simp add: route_core_def no_middleware_def rb_Name_def rb_Type_def rb_IncludeRemoved_def)
  from route_name_sticks [OF r _ _ 1 2 3, of "''main.go:12''" ?h ?req p s] r show ?thesis
    unfolding core using acc by auto
qed

end
