(* ===== verification/ApplyReconcile.thy ===== *)
theory ApplyReconcile
  imports ApplyProperties
begin

text \<open>
  What an apply achieves: with a client whose server does what the Kubernetes API promises, an apply that
  reports no error leaves every wanted object there, every object it may prune gone or being
  deleted, and everything else as it was.

  A server is seen through \<open>view\<close>: the object of a kind under a key, in a state of the world. An object
  that is deleted while it has finalizers stays, marked with the time of its deletion.
\<close>

section \<open>What the server promises\<close>

type_synonym cluster = "gvk \<Rightarrow> objkey \<Rightarrow> kobject option"

abbreviation terminating :: "kobject \<Rightarrow> bool" where
  "terminating x \<equiv> k_deletionTimestamp x \<noteq> None"

definition alive :: "cluster \<Rightarrow> gvk \<Rightarrow> objkey \<Rightarrow> bool" where
  "alive V g k \<longleftrightarrow> (\<exists>x. V g k = Some x \<and> \<not> terminating x)"

definition gone :: "cluster \<Rightarrow> gvk \<Rightarrow> objkey \<Rightarrow> bool" where
  "gone V g k \<longleftrightarrow> (\<forall>x. V g k = Some x \<longrightarrow> terminating x)"

definition only_at :: "gvk \<Rightarrow> objkey \<Rightarrow> cluster \<Rightarrow> cluster \<Rightarrow> bool" where
  "only_at g k V V' \<longleftrightarrow> (\<forall>g' k'. (g', k') \<noteq> (g, k) \<longrightarrow> V' g' k' = V g' k')"

lemma only_at_refl [simp]: "only_at g k V V"
  by (simp add: only_at_def)

lemma only_at_other: "only_at g k V V' \<Longrightarrow> k' \<noteq> k \<Longrightarrow> V' g k' = V g k'"
  by (simp add: only_at_def)

lemma alive_other: "only_at g k V V' \<Longrightarrow> k' \<noteq> k \<Longrightarrow> alive V' g k' = alive V g k'"
  by (simp add: alive_def only_at_other)

lemma gone_other: "only_at g k V V' \<Longrightarrow> k' \<noteq> k \<Longrightarrow> gone V' g k' = gone V g k'"
  by (simp add: gone_def only_at_other)

text \<open>The kind an object is sent under: that of the scheme, or the one an unstructured object carries.\<close>

definition sent_as :: "kscheme \<Rightarrow> kobject \<Rightarrow> gvk \<Rightarrow> bool" where
  "sent_as sch ob g \<longleftrightarrow> gvk_for sch ob = Inr g \<or> k_type ob = ''*unstructured.Unstructured'' \<and> k_gvk ob = g"

text \<open>
  The kind of an object depends on its Go type and the kind written in it, and writing the kind that was
  found does not change it.
\<close>

definition kinds_fixed :: "kscheme \<Rightarrow> bool" where
  "kinds_fixed sch \<longleftrightarrow>
     (\<forall>ob ob'. k_type ob = k_type ob' \<and> (k_gvk ob = k_gvk ob' \<or> gvk_for sch ob = Inr (k_gvk ob')) \<longrightarrow>
        gvk_for sch ob' = gvk_for sch ob)"

definition get_served :: "kscheme \<Rightarrow> 'w kclient \<Rightarrow> ('w \<Rightarrow> cluster) \<Rightarrow> bool" where
  "get_served sch cl view \<longleftrightarrow>
     (\<forall>ob ns n w r w'. cl_get cl ob ns n w = (r, w') \<longrightarrow> view w' = view w \<and>
        (\<forall>x g. r = Inr x \<longrightarrow> sent_as sch ob g \<longrightarrow> view w g \<lparr>ok_name = n, ok_namespace = ns\<rparr> = Some x))"

definition list_served :: "'w kclient \<Rightarrow> ('w \<Rightarrow> cluster) \<Rightarrow> bool" where
  "list_served cl view \<longleftrightarrow>
     (\<forall>g ns sel w r w'. cl_list cl (g\<lparr>gvk_kind := gvk_kind g @ ''List''\<rparr>) ns (Some sel) w = (r, w') \<longrightarrow> view w' = view w \<and>
        (\<forall>items. r = Inr items \<longrightarrow>
           set items = {x. \<exists>k. view w g k = Some x \<and> (ns = [] \<or> ok_namespace k = ns) \<and> ls_Matches sel (k_labels x)}))"

definition create_served :: "kscheme \<Rightarrow> 'w kclient \<Rightarrow> ('w \<Rightarrow> cluster) \<Rightarrow> bool" where
  "create_served sch cl view \<longleftrightarrow>
     (\<forall>ob w e ob' w' g. cl_create cl ob w = ((e, ob'), w') \<longrightarrow> sent_as sch ob g \<longrightarrow> k_name ob \<noteq> [] \<longrightarrow>
        (if e = None then only_at g (object_key ob) (view w) (view w') \<and> alive (view w') g (object_key ob)
         else view w' = view w))"

definition patch_served :: "kscheme \<Rightarrow> 'w kclient \<Rightarrow> ('w \<Rightarrow> cluster) \<Rightarrow> bool" where
  "patch_served sch cl view \<longleftrightarrow>
     (\<forall>ob ty p w r w' g. cl_patch cl ob ty p w = (r, w') \<longrightarrow> sent_as sch ob g \<longrightarrow>
        only_at g (object_key ob) (view w) (view w') \<and>
        (alive (view w) g (object_key ob) \<longrightarrow> alive (view w') g (object_key ob)))"

definition delete_served :: "kscheme \<Rightarrow> 'w kclient \<Rightarrow> ('w \<Rightarrow> cluster) \<Rightarrow> bool" where
  "delete_served sch cl view \<longleftrightarrow>
     (\<forall>ob w e w' g. cl_delete cl ob w = (e, w') \<longrightarrow> sent_as sch ob g \<longrightarrow>
        only_at g (object_key ob) (view w) (view w') \<and>
        (e = None \<or> gone (view w) g (object_key ob) \<longrightarrow> gone (view w') g (object_key ob)))"

definition serves :: "kscheme \<Rightarrow> 'w kclient \<Rightarrow> ('w \<Rightarrow> cluster) \<Rightarrow> bool" where
  "serves sch cl view \<longleftrightarrow>
     (\<forall>w g k x. view w g k = Some x \<longrightarrow> object_key x = k) \<and> get_served sch cl view \<and> list_served cl view \<and>
     create_served sch cl view \<and> patch_served sch cl view \<and> delete_served sch cl view"

lemma serves_key: "serves sch cl view \<Longrightarrow> view w g k = Some x \<Longrightarrow> object_key x = k"
  by (simp add: serves_def)

lemma serves_get:
  assumes "serves (ae_scheme env) cl view" and "apply_get env cl g (Some ob) ns n w = (r, w')"
  shows "view w' = view w"
    and "r = Inr x \<Longrightarrow> sent_as (ae_scheme env) ob g \<Longrightarrow> view w g \<lparr>ok_name = n, ok_namespace = ns\<rparr> = Some x"
proof -
  have c: "cl_get cl ob ns n w = (r, w')" using assms(2) by (simp add: apply_get_def)
  have s: "get_served (ae_scheme env) cl view" using assms(1) by (simp add: serves_def)
  note i = s [unfolded get_served_def, rule_format, OF c]
  from i show "view w' = view w" by blast
  from i show "r = Inr x \<Longrightarrow> sent_as (ae_scheme env) ob g \<Longrightarrow> view w g \<lparr>ok_name = n, ok_namespace = ns\<rparr> = Some x"
    by blast
qed

lemma serves_list:
  assumes "serves sch cl view" and "cl_list cl (g\<lparr>gvk_kind := gvk_kind g @ ''List''\<rparr>) ns (Some sel) w = (r, w')"
  shows "view w' = view w"
    and "r = Inr items \<Longrightarrow>
       set items = {x. \<exists>k. view w g k = Some x \<and> (ns = [] \<or> ok_namespace k = ns) \<and> ls_Matches sel (k_labels x)}"
proof -
  have "list_served cl view" using assms(1) by (simp add: serves_def)
  note i = this [unfolded list_served_def, rule_format, OF assms(2)]
  from i show "view w' = view w" by (rule conjunct1)
  from i [THEN conjunct2, rule_format] show "r = Inr items \<Longrightarrow>
       set items = {x. \<exists>k. view w g k = Some x \<and> (ns = [] \<or> ok_namespace k = ns) \<and> ls_Matches sel (k_labels x)}" .
qed

lemma serves_create:
  "serves sch cl view \<Longrightarrow> apply_create cl ob w = ((e, ob'), w') \<Longrightarrow> sent_as sch ob g \<Longrightarrow> k_name ob \<noteq> [] \<Longrightarrow>
     (if e = None then only_at g (object_key ob) (view w) (view w') \<and> alive (view w') g (object_key ob)
      else view w' = view w)"
  unfolding serves_def create_served_def apply_create_def by blast

lemma serves_patch:
  "serves sch cl view \<Longrightarrow> cl_patch cl ob ty p w = (r, w') \<Longrightarrow> sent_as sch ob g \<Longrightarrow>
     only_at g (object_key ob) (view w) (view w') \<and>
     (alive (view w) g (object_key ob) \<longrightarrow> alive (view w') g (object_key ob))"
  unfolding serves_def patch_served_def by blast

lemma serves_delete:
  "serves sch cl view \<Longrightarrow> apply_delete cl g ns n w = (e, w') \<Longrightarrow>
     only_at g \<lparr>ok_name = n, ok_namespace = ns\<rparr> (view w) (view w') \<and>
     (e = None \<or> gone (view w) g \<lparr>ok_name = n, ok_namespace = ns\<rparr> \<longrightarrow>
       gone (view w') g \<lparr>ok_name = n, ok_namespace = ns\<rparr>)"
proof -
  assume s: "serves sch cl view" and d: "apply_delete cl g ns n w = (e, w')"
  let ?u = "(zero_object ''*unstructured.Unstructured'' g)\<lparr>k_name := n, k_namespace := ns\<rparr>"
  have u: "sent_as sch ?u g" "object_key ?u = \<lparr>ok_name = n, ok_namespace = ns\<rparr>"
    by (simp_all add: sent_as_def zero_object_def object_key_def)
  have "delete_served sch cl view" using s by (simp add: serves_def)
  moreover have "cl_delete cl ?u w = (e, w')" using d by (simp add: apply_delete_def)
  ultimately show ?thesis
    using u(1) unfolding delete_served_def u(2) [symmetric] by blast
qed

section \<open>What a step does to the cluster\<close>

text \<open>The wanted objects of a kind, each under its own key, named and of the kind.\<close>

definition wanted_ok :: "kscheme \<Rightarrow> gvk \<Rightarrow> ObjectByKey \<Rightarrow> bool" where
  "wanted_ok sch g objs \<longleftrightarrow>
     (\<forall>k v. map_of objs k = Some v \<longrightarrow> object_key v = k \<and> ok_name k \<noteq> [] \<and> gvk_for sch v = Inr g)"

definition ps_keyed :: "ObjectByKey \<Rightarrow> 'w process_state \<Rightarrow> bool" where
  "ps_keyed objs ps \<longleftrightarrow>
     ps_objs ps = objs \<and> (\<forall>k x. map_of (ps_existing ps) k = Some x \<longrightarrow> object_key x = k) \<and>
     set (ps_toUpdate ps) \<subseteq> dom (map_of objs) \<and> set (ps_toReplace ps) \<subseteq> dom (map_of objs)"

lemma ps_keyed_world [simp]: "ps_keyed objs (set_world w ps) = ps_keyed objs ps"
  by (simp add: ps_keyed_def)

lemma prepared_sent:
  assumes "kinds_fixed (ae_scheme env)" and "prepareObjectForCreate env g v True = Inr obj"
    and "gvk_for (ae_scheme env) v = Inr g"
  shows "sent_as (ae_scheme env) obj g"
proof -
  obtain s where "obj = v\<lparr>k_uid := [], k_creationTimestamp := None,
       k_annotations := AList.update LabelApplied (appliedToAnnotation (ae_codec env) s) (k_annotations v),
       k_gvk := g\<rparr>"
    by (rule prepareObjectForCreate_eq [OF assms(2)])
  then have "k_type v = k_type obj" "k_gvk obj = g" by simp_all
  with assms(1,3) have "gvk_for (ae_scheme env) obj = gvk_for (ae_scheme env) v"
    unfolding kinds_fixed_def by metis
  with assms(3) show ?thesis by (simp add: sent_as_def)
qed

lemma createF_effect:
  assumes s: "serves (ae_scheme env) cl view" and kf: "kinds_fixed (ae_scheme env)" and ens: "\<not> a_ensure a"
    and ok: "wanted_ok (ae_scheme env) g objs" and b: "ps_keyed objs ps"
    and run: "createF env a cl valid debug g k ps = (e, ps')"
  shows "ps_keyed objs ps' \<and> ps_toReplace ps' = ps_toReplace ps \<and>
    only_at g k (view (ps_world ps)) (view (ps_world ps')) \<and>
    (alive (view (ps_world ps')) g k \<or> view (ps_world ps') = view (ps_world ps)) \<and>
    (e = None \<longrightarrow> alive (view (ps_world ps')) g k \<or> view (ps_world ps) g k \<noteq> None)"
proof (cases "map_of objs k")
  case None
  with run b show ?thesis by (auto simp: createF_def ps_keyed_def)
next
  case (Some v)
  with ok have w: "object_key v = k" "ok_name k \<noteq> []" "gvk_for (ae_scheme env) v = Inr g"
    unfolding wanted_ok_def by blast+
  have v: "object_key v = k" "k_name v \<noteq> []" "gvk_for (ae_scheme env) v = Inr g"
    using w object_key_simps(1) [of v] by simp_all
  have mv: "map_of (ps_objs ps) k = Some v" using b Some by (simp add: ps_keyed_def)
  show ?thesis
  proof (cases "prepareObjectForCreate env g v True")
    case (Inl x)
    with run mv ens b show ?thesis by (auto simp: createF_def)
  next
    case (Inr obj)
    obtain c obj' w1 where c: "apply_create cl obj (ps_world ps) = ((c, obj'), w1)" by (metis surj_pair)
    obtain x w2 where gt: "apply_get env cl g (Some v) (ok_namespace k) (ok_name k) w1 = (x, w2)" by fastforce
    have okey: "object_key obj = k" "k_name obj \<noteq> []"
      using prepared_same(5) [OF Inr] v by (auto simp: object_key_def)
    note cr = serves_create [OF s c prepared_sent [OF kf Inr v(3)] okey(2), unfolded okey(1)]
    note gv = serves_get(1) [OF s gt]
    have key: "\<lparr>ok_name = ok_name k, ok_namespace = ok_namespace k\<rparr> = k" by simp
    have found: "view w1 g k = Some y \<and> object_key y = k" if "x = Inr y" for y
      using serves_get(2) [OF s gt that] v(3) serves_key [OF s, of w1 g k y] key by (simp add: sent_as_def)
    show ?thesis
    proof (cases c)
      case None
      with run mv ens Inr c have "e = None" "ps' = set_world w1 ps" by (auto simp: createF_def Let_def)
      with cr None b show ?thesis by simp
    next
      case (Some ce)
      with cr have w1: "view w1 = view (ps_world ps)" by simp
      consider "e \<noteq> None" "ps' = set_world w1 ps \<or> ps' = set_world w2 ps"
        | y where "x = Inr y" "ps_world ps' = w2" "ps_objs ps' = ps_objs ps" "ps_toReplace ps' = ps_toReplace ps"
            "set (ps_toUpdate ps') \<subseteq> insert k (set (ps_toUpdate ps))"
            "ps_existing ps' = AList.update k y (ps_existing ps)"
        using run mv ens Inr c Some gt
        by (auto simp: createF_def Let_def set_world_def subset_insertI split: if_splits sum.splits)
      then show ?thesis
      proof cases
        case 1
        then show ?thesis using b w1 gv by auto
      next
        case (2 y)
        then show ?thesis
          using b w1 gv found [OF 2(1)] \<open>map_of objs k = Some v\<close> unfolding ps_keyed_def by auto
      qed
    qed
  qed
qed

lemma compareObjects_effect:
  assumes s: "serves (ae_scheme env) cl view" and ens: "\<not> a_ensure a"
    and run: "compareObjects env a cl g old new st = (e, obj, st')"
  shows "obj = new \<and> only_at g (object_key old) (view (as_world st)) (view (as_world st')) \<and>
    (alive (view (as_world st)) g (object_key old) \<longrightarrow> alive (view (as_world st')) g (object_key old))"
proof -
  have send: "ob = new \<and> only_at g (object_key old) (view (as_world st1)) (view (as_world st2)) \<and>
      (alive (view (as_world st1)) g (object_key old) \<longrightarrow> alive (view (as_world st2)) g (object_key old))"
    if p: "send_patch a cl g old new ty p st1 = (r, ob, st2)" for ty p st1 r ob st2
  proof -
    let ?u = "(zero_object ''*unstructured.Unstructured'' g)
            \<lparr>k_resourceVersion := k_resourceVersion old, k_namespace := k_namespace old, k_name := k_name old\<rparr>"
    obtain q w where q: "cl_patch cl ?u ty p (as_world st1) = (q, w)" by fastforce
    have u: "sent_as (ae_scheme env) ?u g" "object_key ?u = object_key old"
      by (simp_all add: sent_as_def zero_object_def object_key_def)
    from p q ens have "ob = new" "st2 = st1\<lparr>as_world := w\<rparr>"
      by (auto simp: send_patch_def Let_def split: prod.splits)
    with serves_patch [OF s q u(1)] u(2) show ?thesis by simp
  qed
  have same: "as_world (st\<lparr>as_patchCache := c\<rparr>) = as_world st" for c by simp
  obtain did r ob st2 where ap: "applyPatch env a cl g old new st = ((did, r), ob, st2)" by (metis surj_pair)
  have "(ob = new \<and> as_world st2 = as_world st) \<or>
      (\<exists>ty p c r. send_patch a cl g old new ty p (st\<lparr>as_patchCache := c\<rparr>) = (r, ob, st2))"
    using ap by (auto simp: applyPatch_def Let_def split: sum.splits prod.splits option.splits if_splits)
  then have eff: "ob = new \<and> only_at g (object_key old) (view (as_world st)) (view (as_world st2)) \<and>
      (alive (view (as_world st)) g (object_key old) \<longrightarrow> alive (view (as_world st2)) g (object_key old))"
    using send [where ob = ob] same by (metis only_at_refl)
  have "obj = ob" "st' = st2"
    using run ap ens by (auto simp: compareObjects_def split: option.splits)
  with eff show ?thesis by simp
qed

lemma updateF_effect:
  assumes s: "serves (ae_scheme env) cl view" and ens: "\<not> a_ensure a" and b: "ps_keyed objs ps"
    and run: "updateF env a cl debug g k ps = (e, ps')"
  shows "ps_keyed objs ps' \<and> only_at g k (view (ps_world ps)) (view (ps_world ps')) \<and>
    (alive (view (ps_world ps)) g k \<longrightarrow> alive (view (ps_world ps')) g k)"
proof (cases "map_of (ps_existing ps) k = None \<or> map_of objs k = None")
  case True
  with run b show ?thesis by (auto simp: updateF_def ps_keyed_def split: option.splits)
next
  case False
  then obtain old new where m: "map_of (ps_existing ps) k = Some old" "map_of objs k = Some new" by auto
  have m': "map_of (ps_objs ps) k = Some new" using b m by (simp add: ps_keyed_def)
  obtain c obj st where c: "compareObjects env a cl g old new (ps_st ps) = (c, obj, st)" by (metis surj_pair)
  have old: "object_key old = k" using b m by (simp add: ps_keyed_def)
  note eff = compareObjects_effect [OF s ens c, unfolded old]
  have same: "AList.update k new objs = objs" using m(2) by (rule AList.update_triv)
  have "ps_objs ps' = objs \<and> ps_existing ps' = ps_existing ps \<and> ps_toUpdate ps' = ps_toUpdate ps \<and>
      set (ps_toReplace ps') \<subseteq> insert k (set (ps_toReplace ps)) \<and> ps_world ps' = as_world st"
    using run m(1) m' c eff b same by (auto simp: updateF_def ps_keyed_def Let_def split: option.splits if_splits)
  with eff b m(2) show ?thesis by (auto simp: ps_keyed_def)
qed

lemma deleteF_effect:
  assumes s: "serves (ae_scheme env) cl view" and b: "ps_keyed objs ps"
    and run: "deleteF env cl debug g k ps = (e, ps')"
  shows "ps_keyed objs ps' \<and> ps_toReplace ps' = ps_toReplace ps \<and>
    only_at g k (view (ps_world ps)) (view (ps_world ps')) \<and>
    (e = None \<or> gone (view (ps_world ps)) g k \<longrightarrow> gone (view (ps_world ps')) g k)"
proof -
  obtain d w where d: "apply_delete cl g (ok_namespace k) (ok_name k) (ps_world ps) = (d, w)" by fastforce
  have "\<lparr>ok_name = ok_name k, ok_namespace = ok_namespace k\<rparr> = k" by simp
  with serves_delete [OF s d] run d b show ?thesis
    by (auto simp: deleteF_def split: option.splits)
qed

section \<open>Rules for loops that report errors\<close>

lemma run_all_loop:
  assumes "run_all f ks s = (es, s')" and "I s"
    and "\<And>k s e s'. k \<in> set ks \<Longrightarrow> I s \<Longrightarrow> f k s = (e, s') \<Longrightarrow> I s'"
  shows "I s'"
  using assms
proof (induction ks arbitrary: s es)
  case (Cons k ks)
  obtain e s1 where f: "f k s = (e, s1)" by fastforce
  with Cons.prems(1) obtain es2 where r: "run_all f ks s1 = (es2, s')" by (auto split: prod.splits)
  have "I s1" using Cons.prems(3) [OF _ Cons.prems(2) f] by simp
  from Cons.IH [OF r this] Cons.prems(3) show ?case by (meson list.set_intros(2))
qed simp

lemma run_all_each:
  assumes "run_all f ks s = (es, s')" and "\<forall>e \<in> set es. e = None" and "I s"
    and "\<And>k s e s'. k \<in> set ks \<Longrightarrow> I s \<Longrightarrow> f k s = (e, s') \<Longrightarrow> I s'"
    and "\<And>k s s'. k \<in> set ks \<Longrightarrow> I s \<Longrightarrow> f k s = (None, s') \<Longrightarrow> Q k s'"
    and "\<And>j k s e s'. j \<in> set ks \<Longrightarrow> I s \<Longrightarrow> Q k s \<Longrightarrow> f j s = (e, s') \<Longrightarrow> Q k s'"
  shows "\<forall>k \<in> set ks. Q k s'"
  using assms
proof (induction ks arbitrary: s es)
  case (Cons k ks)
  obtain e s1 where f: "f k s = (e, s1)" by fastforce
  with Cons.prems(1) obtain es2 where r: "run_all f ks s1 = (es2, s')" "es = e # es2" by (auto split: prod.splits)
  with Cons.prems(2) f have f': "f k s = (None, s1)" and es2: "\<forall>e \<in> set es2. e = None" by simp_all
  have I1: "I s1" using Cons.prems(4) [OF _ Cons.prems(3) f] by simp
  have "\<forall>k \<in> set ks. Q k s'"
    by (rule Cons.IH [OF r(1) es2 I1]) (use Cons.prems(4-6) in \<open>meson list.set_intros(2)\<close>)+
  moreover have "I s' \<and> Q k s'"
  proof (rule run_all_loop [where I = "\<lambda>s. I s \<and> Q k s", OF r(1)])
    show "I s1 \<and> Q k s1" using I1 Cons.prems(5) [OF _ Cons.prems(3) f'] by simp
  next
    fix j t x t'
    assume "j \<in> set ks" and "I t \<and> Q k t" and "f j t = (x, t')"
    then show "I t' \<and> Q k t'" using Cons.prems(4) [of j t x t'] Cons.prems(6) [of j t k x t'] by simp
  qed
  ultimately show ?case by simp
next
  case Nil
  show ?case by simp
qed

section \<open>One kind\<close>

text \<open>What may be pruned: listed, not wanted under any version of its kind, and prunable.\<close>

definition to_prune ::
  "apply_env \<Rightarrow> apply_cfg \<Rightarrow> label_selector option \<Rightarrow> gvk \<Rightarrow> objectset \<Rightarrow> ObjectByKey \<Rightarrow> cluster \<Rightarrow> objkey \<Rightarrow> bool" where
  "to_prune env a sel g allObjs objs S k \<longleftrightarrow> \<not> a_noPrune a \<and> map_of objs k = None \<and>
     (\<exists>s x. sel = Some s \<and> S g k = Some x \<and> (a_listerNamespace a = [] \<or> ok_namespace k = a_listerNamespace a) \<and>
        ls_Matches s (k_labels x) \<and> prunable (ae_codec env) x) \<and>
     \<not> os_Contains allObjs (GroupKind g) k \<and>
     \<not> (ok_namespace k = a_defaultNamespace a \<and> os_Contains allObjs (GroupKind g) \<lparr>ok_name = ok_name k, ok_namespace = []\<rparr>)"

text \<open>\<open>reconciled g must may prune S S'\<close>: from the cluster \<open>S\<close> to \<open>S'\<close> the objects of the kind that must be
  there are, those to prune are gone, and no other than those that may change or are pruned has changed.\<close>

definition reconciled ::
  "gvk \<Rightarrow> (objkey \<Rightarrow> bool) \<Rightarrow> (objkey \<Rightarrow> bool) \<Rightarrow> (objkey \<Rightarrow> bool) \<Rightarrow> cluster \<Rightarrow> cluster \<Rightarrow> bool" where
  "reconciled g must may prune S S' \<longleftrightarrow>
     (\<forall>k. must k \<longrightarrow> S' g k \<noteq> None \<or> (\<exists>x. S g k = Some x \<and> terminating x)) \<and>
     (\<forall>k. prune k \<longrightarrow> gone S' g k) \<and>
     (\<forall>k. S' g k \<noteq> S g k \<longrightarrow> may k \<or> prune k)"

lemma fold_addObjectToMap:
  assumes "\<And>x y. x \<in> set items \<Longrightarrow> y \<in> set items \<Longrightarrow> object_key x = object_key y \<Longrightarrow> x = y"
  shows "map_of (fold addObjectToMap items m) k =
    (if k \<in> object_key ` set items then Some (THE x. x \<in> set items \<and> object_key x = k) else map_of m k)"
  using assms
proof (induction items rule: rev_induct)
  case (snoc x xs)
  have "(THE y. y \<in> set (xs @ [x]) \<and> object_key y = object_key x) = x"
    by (rule the_equality) (use snoc.prems in auto)
  moreover have "(THE y. y \<in> set (xs @ [x]) \<and> object_key y = k) = (THE y. y \<in> set xs \<and> object_key y = k)"
    if "k \<noteq> object_key x"
    by (rule arg_cong [where f = The]) (use that in auto)
  ultimately show ?case using snoc by (auto simp: addObjectToMap_def)
qed simp

lemma listed_objects:
  assumes s: "serves (ae_scheme env) cl view"
    and l: "list_existing env a cl g (Some sel) objs w = (Inr existing, w')"
  shows "view w' = view w"
    and "map_of existing k = Some x \<longleftrightarrow>
       view w g k = Some x \<and> (a_listerNamespace a = [] \<or> ok_namespace k = a_listerNamespace a) \<and> ls_Matches sel (k_labels x)"
proof -
  let ?P = "\<lambda>k x. view w g k = Some x \<and> (a_listerNamespace a = [] \<or> ok_namespace k = a_listerNamespace a) \<and>
    ls_Matches sel (k_labels x)"
  obtain items where c: "cl_list cl (g\<lparr>gvk_kind := gvk_kind g @ ''List''\<rparr>) (a_listerNamespace a) (Some sel) w = (Inr items, w')"
    and e: "existing = fold addObjectToMap items []"
    using l by (auto simp: list_existing_def listBySelector_def Let_def split: sum.splits prod.splits)
  show "view w' = view w" by (rule serves_list(1) [OF s c])
  have items: "set items = {x. \<exists>k. ?P k x}" by (rule serves_list(2) [OF s c refl])
  have key: "object_key y = j" if "?P j y" for j y using serves_key [OF s] that by blast
  have uniq: "y = z" if "y \<in> set items" "z \<in> set items" "object_key y = object_key z" for y z
  proof -
    from that items obtain i j where "?P i y" "?P j z" by blast
    with key that(3) show ?thesis by (metis option.inject)
  qed
  have "map_of existing k = Some x \<longleftrightarrow> x \<in> set items \<and> object_key x = k"
  proof (cases "k \<in> object_key ` set items")
    case True
    then obtain y where y: "y \<in> set items" "object_key y = k" by auto
    have "(THE x. x \<in> set items \<and> object_key x = k) = y" by (rule the_equality) (use y uniq in auto)
    with True y uniq show ?thesis by (auto simp: e fold_addObjectToMap [OF uniq])
  next
    case False
    then show ?thesis by (auto simp: e fold_addObjectToMap [OF uniq])
  qed
  also have "\<dots> \<longleftrightarrow> ?P k x" using items key by auto
  finally show "map_of existing k = Some x \<longleftrightarrow> ?P k x" .
qed

lemma got_objects:
  assumes s: "serves (ae_scheme env) cl view"
  shows "list_by_get env cl g objs result w = (Inr existing, w') \<Longrightarrow>
    (\<forall>(k, v) \<in> set objs. gvk_for (ae_scheme env) v = Inr g) \<Longrightarrow>
    view w' = view w \<and>
    (\<forall>k x. map_of existing k = Some x \<longrightarrow> map_of result k = Some x \<or> k \<in> fst ` set objs \<and> view w g k = Some x)"
proof (induction objs arbitrary: result w)
  case (Cons p objs)
  obtain k v where p: "p = (k, v)" by (cases p)
  obtain r w1 where gt: "apply_get env cl g (Some v) (ok_namespace k) (ok_name k) w = (r, w1)" by fastforce
  have vw: "view w1 = view w" by (rule serves_get(1) [OF s gt])
  have key: "\<lparr>ok_name = ok_name k, ok_namespace = ok_namespace k\<rparr> = k" by simp
  have found: "view w g k = Some x" if "r = Inr x" for x
    using serves_get(2) [OF s gt that] Cons.prems(2) p key by (simp add: sent_as_def)
  obtain res where res: "list_by_get env cl g objs res w1 = (Inr existing, w')"
      "res = result \<or> (\<exists>x. r = Inr x \<and> res = AList.update k x result)"
    using Cons.prems(1) p gt by (auto split: sum.splits if_splits)
  from Cons.IH [OF res(1)] Cons.prems(2) vw have ih: "view w' = view w"
    "\<forall>j x. map_of existing j = Some x \<longrightarrow> map_of res j = Some x \<or> j \<in> fst ` set objs \<and> view w g j = Some x" by auto
  from res(2) found have "map_of res j = Some x \<Longrightarrow> map_of result j = Some x \<or> j = k \<and> view w g j = Some x" for j x
    by (auto split: if_splits)
  with ih p show ?case by fastforce
qed simp

section \<open>The loops\<close>

text \<open>\<open>ps_within\<close>: the state of the loops, and that so far only keys of \<open>D\<close> were touched.\<close>

definition ps_within ::
  "('w \<Rightarrow> cluster) \<Rightarrow> gvk \<Rightarrow> ObjectByKey \<Rightarrow> objkey set \<Rightarrow> cluster \<Rightarrow> 'w process_state \<Rightarrow> bool" where
  "ps_within view g objs D S ps \<longleftrightarrow> ps_keyed objs ps \<and>
     (\<forall>g' k. g' \<noteq> g \<or> k \<notin> D \<longrightarrow> view (ps_world ps) g' k = S g' k)"

lemma ps_within_step:
  "ps_within view g objs D S ps \<Longrightarrow> ps_keyed objs ps' \<Longrightarrow>
     only_at g k (view (ps_world ps)) (view (ps_world ps')) \<Longrightarrow> k \<in> D \<Longrightarrow> ps_within view g objs D S ps'"
  unfolding ps_within_def only_at_def by (metis prod.inject)

lemma ps_within_keyed: "ps_within view g objs D S ps \<Longrightarrow> ps_keyed objs ps"
  by (simp add: ps_within_def)

lemma alive_present: "alive V g k \<Longrightarrow> V g k \<noteq> None"
  by (auto simp: alive_def)

lemma create_loop:
  assumes s: "serves (ae_scheme env) cl view" and kf: "kinds_fixed (ae_scheme env)" and ens: "\<not> a_ensure a"
    and ok: "wanted_ok (ae_scheme env) g objs" and b: "ps_within view g objs D S q" and ks: "set ks \<subseteq> D"
    and run: "run_all (createF env a cl valid debug g) ks q = (es, q')"
  shows "ps_within view g objs D S q' \<and> ps_toReplace q' = ps_toReplace q \<and>
    (\<forall>k. view (ps_world q') g k = view (ps_world q) g k \<or> alive (view (ps_world q')) g k) \<and>
    (\<forall>k. k \<notin> set ks \<longrightarrow> view (ps_world q') g k = view (ps_world q) g k)"
    and "\<forall>e \<in> set es. e = None \<Longrightarrow> k \<in> set ks \<Longrightarrow> view (ps_world q') g k \<noteq> None"
    and "\<forall>e \<in> set es. e = None \<Longrightarrow> k \<in> set ks \<Longrightarrow> alive (view (ps_world q')) g k \<or> view (ps_world q) g k \<noteq> None"
proof -
  let ?V = "\<lambda>ps. view (ps_world ps)"
  let ?I = "\<lambda>p. ps_within view g objs D S p \<and> ps_toReplace p = ps_toReplace q \<and>
    (\<forall>k. ?V p g k = ?V q g k \<or> alive (?V p) g k) \<and> (\<forall>k. k \<notin> set ks \<longrightarrow> ?V p g k = ?V q g k)"
  let ?Q = "\<lambda>k p. alive (?V p) g k \<or> ?V q g k \<noteq> None"
  have eff: "ps_within view g objs D S p' \<and> ps_toReplace p' = ps_toReplace p \<and> only_at g j (?V p) (?V p') \<and>
      (alive (?V p') g j \<or> ?V p' = ?V p) \<and> (e = None \<longrightarrow> alive (?V p') g j \<or> ?V p g j \<noteq> None)"
    if "j \<in> set ks" "?I p" "createF env a cl valid debug g j p = (e, p')" for j p e p'
  proof -
    have c: "ps_keyed objs p' \<and> ps_toReplace p' = ps_toReplace p \<and> only_at g j (?V p) (?V p') \<and>
      (alive (?V p') g j \<or> ?V p' = ?V p) \<and> (e = None \<longrightarrow> alive (?V p') g j \<or> ?V p g j \<noteq> None)"
      using createF_effect [OF s kf ens ok ps_within_keyed that(3)] that(2) by blast
    have "ps_within view g objs D S p'"
      by (rule ps_within_step [of view g objs D S p p' j]) (use c that ks in blast)+
    with c show ?thesis by blast
  qed
  have step: "?I p'" if "j \<in> set ks" "?I p" "createF env a cl valid debug g j p = (e, p')" for j p e p'
  proof -
    note c = eff [OF that]
    have "?V p' g k = ?V q g k \<or> alive (?V p') g k" for k
    proof (cases "k = j")
      case False
      with c have "?V p' g k = ?V p g k" "alive (?V p') g k = alive (?V p) g k"
        using only_at_other alive_other by blast+
      with that(2) show ?thesis by simp
    qed (use c that(2) in metis)
    moreover have "?V p' g k = ?V q g k" if "k \<notin> set ks" for k
    proof -
      have "k \<noteq> j" using that \<open>j \<in> set ks\<close> by blast
      with c have "?V p' g k = ?V p g k" using only_at_other by blast
      with \<open>?I p\<close> that show ?thesis by simp
    qed
    ultimately show ?thesis using c that(2) by simp
  qed
  have start: "?I q" using b by simp
  show i: "?I q'" by (rule run_all_loop [where I = ?I, OF run start step])
  have est: "?Q j p'" if "j \<in> set ks" "?I p" "createF env a cl valid debug g j p = (None, p')" for j p p'
  proof (cases "alive (?V p') g j")
    case False
    with eff [OF that] have "?V p g j \<noteq> None" "?V p' = ?V p" by blast+
    with False that(2) show ?thesis by metis
  qed simp
  have pres: "?Q k p'" if "j \<in> set ks" "?I p" "?Q k p" "createF env a cl valid debug g j p = (e, p')" for j k p e p'
    using step [OF that(1,2,4)] eff [OF that(1,2,4)] that(3) by (metis alive_other)
  have each: "?Q k q'" if "\<forall>e \<in> set es. e = None" "k \<in> set ks" for k
  proof -
    have "\<forall>k \<in> set ks. ?Q k q'"
    proof (rule run_all_each [where I = ?I and Q = ?Q, OF run that(1) start], goal_cases)
      case (1 j p e p')
      then show ?case by (rule step)
    next
      case (2 j p p')
      then show ?case by (rule est)
    next
      case (3 j k p e p')
      then show ?case by (rule pres)
    qed
    with that(2) show ?thesis by blast
  qed
  show "\<forall>e \<in> set es. e = None \<Longrightarrow> k \<in> set ks \<Longrightarrow> ?Q k q'" by (rule each)
  show "\<forall>e \<in> set es. e = None \<Longrightarrow> k \<in> set ks \<Longrightarrow> ?V q' g k \<noteq> None"
    using each i alive_present by metis
qed

lemma update_loop:
  assumes s: "serves (ae_scheme env) cl view" and ens: "\<not> a_ensure a"
    and b: "ps_within view g objs D S q" and ks: "set ks \<subseteq> D"
    and run: "run_all (updateF env a cl debug g) ks q = (es, q')"
  shows "ps_within view g objs D S q' \<and> (\<forall>k. alive (view (ps_world q)) g k \<longrightarrow> alive (view (ps_world q')) g k)"
proof (rule run_all_loop [OF run])
  let ?V = "\<lambda>ps. view (ps_world ps)"
  let ?I = "\<lambda>p. ps_within view g objs D S p \<and> (\<forall>k. alive (?V q) g k \<longrightarrow> alive (?V p) g k)"
  show "?I q" using b by simp
  fix j p e p'
  assume j: "j \<in> set ks" and I: "?I p" and u: "updateF env a cl debug g j p = (e, p')"
  have c: "ps_keyed objs p' \<and> only_at g j (?V p) (?V p') \<and> (alive (?V p) g j \<longrightarrow> alive (?V p') g j)"
    using updateF_effect [OF s ens ps_within_keyed u] I by blast
  have "ps_within view g objs D S p'"
    by (rule ps_within_step [of view g objs D S p p' j]) (use c j I ks in blast)+
  moreover have "alive (?V p) g k \<longrightarrow> alive (?V p') g k" for k
    using c alive_other by (cases "k = j") blast+
  ultimately show "?I p'" using I by blast
qed

lemma delete_loop:
  assumes s: "serves (ae_scheme env) cl view" and b: "ps_within view g objs D S q" and ks: "set ks \<subseteq> D"
    and run: "run_all (deleteF env cl debug g) ks q = (es, q')"
  shows "ps_within view g objs D S q' \<and> ps_toReplace q' = ps_toReplace q \<and>
    (\<forall>k. k \<notin> set ks \<longrightarrow> view (ps_world q') g k = view (ps_world q) g k)"
    and "\<forall>e \<in> set es. e = None \<Longrightarrow> k \<in> set ks \<Longrightarrow> gone (view (ps_world q')) g k"
proof -
  let ?V = "\<lambda>ps. view (ps_world ps)"
  let ?I = "\<lambda>p. ps_within view g objs D S p \<and> ps_toReplace p = ps_toReplace q \<and>
    (\<forall>k. k \<notin> set ks \<longrightarrow> ?V p g k = ?V q g k)"
  have eff: "?I p' \<and> only_at g j (?V p) (?V p') \<and> (e = None \<or> gone (?V p) g j \<longrightarrow> gone (?V p') g j)"
    if j: "j \<in> set ks" and I: "?I p" and d: "deleteF env cl debug g j p = (e, p')" for j p e p'
  proof -
    have c: "ps_keyed objs p' \<and> ps_toReplace p' = ps_toReplace p \<and> only_at g j (?V p) (?V p') \<and>
        (e = None \<or> gone (?V p) g j \<longrightarrow> gone (?V p') g j)"
      using deleteF_effect [OF s ps_within_keyed d] I by blast
    have "ps_within view g objs D S p'"
      by (rule ps_within_step [of view g objs D S p p' j]) (use c j I ks in blast)+
    moreover have "k \<notin> set ks \<Longrightarrow> ?V p' g k = ?V p g k" for k
      using c j only_at_other by metis
    ultimately show ?thesis using c I by simp
  qed
  have start: "?I q" using b by simp
  show "?I q'" by (rule run_all_loop [where I = ?I, OF run start]) (use eff in blast)
  show "\<forall>e \<in> set es. e = None \<Longrightarrow> k \<in> set ks \<Longrightarrow> gone (?V q') g k"
  proof -
    assume none: "\<forall>e \<in> set es. e = None" and k: "k \<in> set ks"
    have "\<forall>k \<in> set ks. gone (?V q') g k"
    proof (rule run_all_each [where I = ?I and Q = "\<lambda>k p. gone (?V p) g k", OF run none start])
      fix j l p e p'
      assume "j \<in> set ks" and "?I p" and "gone (?V p) g l" and "deleteF env cl debug g j p = (e, p')"
      then show "gone (?V p') g l" using eff gone_other by (cases "l = j") blast+
    qed (use eff in blast)+
    with k show ?thesis by blast
  qed
qed

lemma carry_out_reconciles:
  assumes s: "serves (ae_scheme env) cl view" and kf: "kinds_fixed (ae_scheme env)" and ens: "\<not> a_ensure a"
    and ok: "wanted_ok (ae_scheme env) g objs" and b: "ps_keyed objs ps" and tr: "ps_toReplace ps = []"
    and tc: "set toCreate \<subseteq> dom (map_of objs)" and td: "set toDelete \<inter> dom (map_of objs) = {}"
    and run: "carry_out env a cl valid debug g toCreate toDelete ps = (None, ps')"
  shows "reconciled g (\<lambda>k. k \<in> set toCreate \<or> view (ps_world ps) g k \<noteq> None \<and> k \<in> dom (map_of objs))
      (\<lambda>k. k \<in> dom (map_of objs)) (\<lambda>k. \<not> a_noPrune a \<and> k \<in> set toDelete) (view (ps_world ps)) (view (ps_world ps')) \<and>
    (\<forall>g'. g' \<noteq> g \<longrightarrow> view (ps_world ps') g' = view (ps_world ps) g')"
proof -
  let ?V = "\<lambda>ps. view (ps_world ps)"
  let ?S = "?V ps"
  let ?W = "dom (map_of objs)"
  define del where "del = (if a_noPrune a then [] else toDelete)"
  let ?B = "ps_within view g objs (?W \<union> set del) ?S"
  obtain e1 p1 where r1: "run_all (createF env a cl valid debug g) toCreate ps = (e1, p1)" by fastforce
  obtain e2 p2 where r2: "run_all (updateF env a cl debug g) (ps_toUpdate p1) p1 = (e2, p2)" by fastforce
  obtain e3 p3 where r3: "run_all (deleteF env cl debug g) del p2 = (e3, p3)" by fastforce
  obtain e4 p4 where r4: "run_all (deleteF env cl debug g) (ps_toReplace p3) p3 = (e4, p4)" by fastforce
  obtain e5 p5 where r5: "run_all (createF env a cl valid debug g) (ps_toReplace p4) p4 = (e5, p5)" by fastforce
  have "(if a_noPrune a then ([], p2) else run_all (deleteF env cl debug g) toDelete p2) = (e3, p3)"
    using r3 by (simp add: del_def split: if_splits)
  then have p5: "ps' = p5" and none: "\<forall>e \<in> set e1. e = None" "\<forall>e \<in> set e3. e = None" "\<forall>e \<in> set e5. e = None"
    using run by (auto simp: carry_out_def Let_def r1 r2 r4 r5 NewErrors_None_iff)
  have td': "k \<in> set del \<Longrightarrow> k \<notin> ?W" for k using td by (auto simp: del_def split: if_splits)
  have keys: "set (ps_toUpdate q) \<subseteq> ?W \<union> set del" "set (ps_toReplace q) \<subseteq> ?W \<union> set del" "set (ps_toReplace q) \<subseteq> ?W"
    if "?B q" for q
    using that by (auto simp: ps_within_def ps_keyed_def)
  have b0: "?B ps" using b by (simp add: ps_within_def)
  have tc': "set toCreate \<subseteq> ?W \<union> set del" using tc by blast
  note l1 = create_loop [OF s kf ens ok b0 tc' r1]
  have b1: "?B p1" using l1(1) by blast
  note l2 = update_loop [OF s ens b1 keys(1) [OF b1] r2]
  have b2: "?B p2" using l2 by blast
  note l3 = delete_loop [OF s b2 Un_upper2 r3]
  have b3: "?B p3" using l3(1) by blast
  note l4 = delete_loop [OF s b3 keys(2) [OF b3] r4]
  have b4: "?B p4" using l4(1) by blast
  note l5 = create_loop [OF s kf ens ok b4 keys(2) [OF b4] r5]
  have b5: "?B p5" using l5(1) by blast
  have same: "?V p5 g k = ?V p3 g k" if "k \<notin> set (ps_toReplace p3)" for k
    using that l4(1) l5(1) by simp
  have must: "?V p5 g k \<noteq> None \<or> (\<exists>x. ?S g k = Some x \<and> terminating x)"
    if k: "k \<in> set toCreate \<or> ?S g k \<noteq> None \<and> k \<in> ?W" for k
  proof (cases "k \<in> set (ps_toReplace p3)")
    case True
    then have "k \<in> set (ps_toReplace p4)" using l4(1) by simp
    with l5(2) [OF none(3)] show ?thesis by blast
  next
    case False
    have "alive (?V p1) g k \<or> ?S g k \<noteq> None" using k l1(3) [OF none(1)] by blast
    with l1(1) have "alive (?V p1) g k \<or> (\<exists>x. ?S g k = Some x \<and> terminating x)"
      unfolding alive_def by (metis option.exhaust)
    moreover have "?V p3 g k = ?V p2 g k" using k tc td' l3(1) by blast
    ultimately show ?thesis using l2 same [OF False] alive_present by metis
  qed
  have prune: "gone (?V p5) g k" if "\<not> a_noPrune a \<and> k \<in> set toDelete" for k
  proof -
    have k: "k \<in> set del" using that by (simp add: del_def)
    then have "k \<notin> set (ps_toReplace p3)" using td' keys(3) [OF b3] by blast
    with same l3(2) [OF none(2) k] show ?thesis by (simp add: gone_def)
  qed
  have frame: "g' = g \<and> (k \<in> ?W \<or> \<not> a_noPrune a \<and> k \<in> set toDelete)" if "?V p5 g' k \<noteq> ?S g' k" for g' k
    using that b5 by (auto simp: ps_within_def del_def split: if_splits)
  show ?thesis unfolding reconciled_def p5 using must prune frame by blast
qed

lemma process_reconciles:
  assumes s: "serves (ae_scheme env) cl view" and kf: "kinds_fixed (ae_scheme env)" and ens: "\<not> a_ensure a"
    and D: "desired_objects env a g allObjs = Inr objs" and gok: "gm_ok objs" and ok: "wanted_ok (ae_scheme env) g objs"
    and run: "process env a cl valid debug sel g allObjs st = (None, out, st')"
  shows "reconciled g (\<lambda>k. \<exists>v. map_of objs k = Some v \<and> should v AnnotationCreate) (\<lambda>k. map_of objs k \<noteq> None)
      (to_prune env a sel g allObjs objs (view (as_world st))) (view (as_world st)) (view (as_world st')) \<and>
    (\<forall>g'. g' \<noteq> g \<longrightarrow> view (as_world st') g' = view (as_world st) g')"
proof -
  let ?S = "view (as_world st)"
  obtain existing w where L: "list_existing env a cl g sel objs (as_world st) = (Inr existing, w)"
    using run D by (auto simp: process_def split: sum.splits prod.splits)
  obtain c dl u where cs: "compareSets (ae_codec env) existing objs = (c, dl, u)" by (metis prod_cases3)
  define ps where "ps = \<lparr>ps_st = st\<lparr>as_world := w\<rparr>, ps_objs = objs, ps_existing = existing,
      ps_toUpdate = u, ps_toReplace = []\<rparr>"
  obtain ps' where co: "carry_out env a cl valid debug g c (filterCrossVersion a allObjs g dl) ps = (None, ps')"
    "st' = ps_st ps'"
    using run unfolding process_def D sum.case L prod.case Let_def cs ps_def
    by (auto split: prod.splits)
  note parts = compareSets_parts [OF list_existing_ok [OF L] gok cs]
  have listed: "view w = ?S \<and> (\<forall>k x. map_of existing k = Some x \<longrightarrow> ?S g k = Some x) \<and>
      (\<forall>k x. map_of existing k = Some x \<and> map_of objs k = None \<longleftrightarrow>
        map_of objs k = None \<and> (\<exists>s. sel = Some s \<and> ?S g k = Some x \<and>
          (a_listerNamespace a = [] \<or> ok_namespace k = a_listerNamespace a) \<and> ls_Matches s (k_labels x)))"
  proof (cases sel)
    case None
    with L have l: "list_by_get env cl g objs [] (as_world st) = (Inr existing, w)" by (simp add: list_existing_def)
    have "\<forall>(k, v) \<in> set objs. gvk_for (ae_scheme env) v = Inr g"
      using ok gok by (auto simp: wanted_ok_def gm_mem_iff)
    from got_objects [OF s l this] None show ?thesis by (fastforce simp: map_of_eq_None_iff)
  next
    case (Some t)
    from listed_objects [OF s L [unfolded Some]] Some show ?thesis by auto
  qed
  have keyed: "object_key x = k" if "map_of existing k = Some x" for k x
    using serves_key [OF s, of "as_world st" g k x] listed that by blast
  have b: "ps_keyed objs ps" using keyed parts(2) by (auto simp: ps_keyed_def ps_def)
  have dl: "k \<in> set (filterCrossVersion a allObjs g dl) \<and> \<not> a_noPrune a \<longleftrightarrow> to_prune env a sel g allObjs objs ?S k" for k
    using listed by (auto simp: filterCrossVersion_def parts(3) to_prune_def) blast+
  have V: "view (ps_world ps) = ?S" using listed by (simp add: ps_def)
  have tc: "set c \<subseteq> dom (map_of objs)" by (auto simp: parts(1))
  have td: "set (filterCrossVersion a allObjs g dl) \<inter> dom (map_of objs) = {}"
    by (auto simp: filterCrossVersion_def parts(3))
  have "ps_toReplace ps = []" by (simp add: ps_def)
  note r = carry_out_reconciles [OF s kf ens ok b this tc td co(1), unfolded V]
  have "k \<in> set c \<or> ?S g k \<noteq> None \<and> k \<in> dom (map_of objs)" if "map_of objs k = Some v" "should v AnnotationCreate" for k v
    using that listed by (cases "map_of existing k") (auto simp: parts(1))
  with r dl co(2) show ?thesis unfolding reconciled_def by blast
qed

section \<open>All kinds\<close>

lemma kinds_fixed_same:
  "kinds_fixed sch \<Longrightarrow> k_type ob' = k_type ob \<Longrightarrow> k_gvk ob' = k_gvk ob \<Longrightarrow> gvk_for sch ob' = gvk_for sch ob"
  unfolding kinds_fixed_def by metis

lemma kinds_fixed_namespace: "kinds_fixed sch \<Longrightarrow> gvk_for sch (v\<lparr>k_namespace := ns\<rparr>) = gvk_for sch v"
  by (rule kinds_fixed_same) simp_all

text \<open>
  What does not depend on namespaces and owner references, as the kind and the labels, is kept when owners
  and namespaces are settled.
\<close>

definition all_of :: "(kobject \<Rightarrow> bool) \<Rightarrow> ObjectByKey \<Rightarrow> bool" where
  "all_of P objs \<longleftrightarrow> (\<forall>k v. map_of objs k = Some v \<longrightarrow> P v)"

definition ownerless :: "(kobject \<Rightarrow> bool) \<Rightarrow> bool" where
  "ownerless P \<longleftrightarrow> (\<forall>v ns refs. P v \<longrightarrow> P (v\<lparr>k_namespace := ns\<rparr>) \<and> P (v\<lparr>k_ownerReferences := refs\<rparr>))"

lemma all_of_update: "all_of P m \<Longrightarrow> P v \<Longrightarrow> all_of P (AList.update k v m)"
  by (simp add: all_of_def)

lemma all_of_delete: "all_of P m \<Longrightarrow> all_of P (AList.delete k m)"
  by (simp add: all_of_def)

lemma desired_all_of:
  assumes P: "ownerless P" and start: "all_of P (gm_list (ObjectsByGVK (Some allObjs)) g)"
    and run: "desired_objects env a g allObjs = Inr objs"
  shows "all_of P objs"
proof -
  let ?I = "\<lambda>_ :: objkey list. all_of P"
  have ns: "P v \<Longrightarrow> P (v\<lparr>k_namespace := n\<rparr>)" and own: "P v \<Longrightarrow> P (with_owner env G ob v)" for v n G ob
    using P unfolding ownerless_def with_owner_def Let_def by (simp_all split: if_split)
  have owner: "all_of P m'" if "all_of P m" "assignOwnerReference env a g m = Inr m'" for m m'
  proof -
    from that(2) obtain ob G n where r: "range_map (assign_owner_one env g ob G n) (gm_keys m) m = Inr m'"
      by (auto simp: assignOwnerReference_def split: option.splits sum.splits)
    show ?thesis
    proof (rule range_map_rule [where I = ?I, OF r that(1)])
      fix k ks m v m'
      assume m: "all_of P m" and v: "map_of m k = Some v" and step: "assign_owner_one env g ob G n k v m = Inr m'"
      have "P v" using m v by (simp add: all_of_def)
      then have "P (with_owner env G ob v)" "P (with_owner env G ob (v\<lparr>k_namespace := k_namespace ob\<rparr>))"
        using ns own by blast+
      then show "all_of P m'"
        using step m
        by (auto simp: assign_owner_one_def Let_def delete_update_same intro!: all_of_delete all_of_update split: sum.splits if_splits)
    qed
  qed
  have adjust: "all_of P m'" if "all_of P m" "adjustNamespace a m = Inr m'" for m m'
    by (rule range_map_rule [where I = ?I, OF that(2) [unfolded adjustNamespace_def] that(1)])
      (auto simp: adjust_one_def all_of_def ns split: if_splits)
  have clear: "all_of P m'" if "all_of P m" "clearNamespace m = Inr m'" for m m'
    by (rule range_map_rule [where I = ?I, OF that(2) [unfolded clearNamespace_def] that(1)])
      (auto simp: clear_one_def all_of_def ns split: if_splits)
  let ?objs0 = "gm_list (ObjectsByGVK (Some allObjs)) g"
  from run obtain nsed m where m: "(if a_owner a \<noteq> None then assignOwnerReference env a g ?objs0 else Inr ?objs0) = Inr m"
    and fin: "(if nsed then adjustNamespace a m else clearNamespace m) = Inr objs"
    by (auto simp: desired_objects_def Let_def split: sum.splits)
  have "all_of P m"
  proof (cases "a_owner a = None")
    case False
    with m owner [OF start] show ?thesis by simp
  qed (use m start in simp)
  from adjust [OF this] clear [OF this] fin show ?thesis by (cases nsed) simp_all
qed

lemma ownerless_kind: "kinds_fixed sch \<Longrightarrow> ownerless (\<lambda>v. gvk_for sch v = Inr g)"
  using kinds_fixed_same [of sch "v\<lparr>k_namespace := ns\<rparr>" v for v ns] kinds_fixed_same [of sch "v\<lparr>k_ownerReferences := r\<rparr>" v for v r]
  by (simp add: ownerless_def)

lemma desired_wanted_ok:
  assumes kf: "kinds_fixed (ae_scheme env)" and ok: "os_ok allObjs" and ty: "os_typed (ae_scheme env) allObjs"
    and named: "\<forall>k. os_view allObjs (g, k) \<noteq> None \<longrightarrow> ok_name k \<noteq> []"
    and run: "desired_objects env a g allObjs = Inr objs"
  shows "gm_ok objs" and "wanted_ok (ae_scheme env) g objs"
proof -
  let ?objs0 = "gm_list (ObjectsByGVK (Some allObjs)) g"
  obtain nsed where fd: "from_desired env (a_owner a) nsed ?objs0 objs" by (rule desired_objects_from [OF ok run])
  then show "gm_ok objs" by (simp add: from_desired_def)
  have "all_of (\<lambda>v. gvk_for (ae_scheme env) v = Inr g) ?objs0"
    using ty by (simp add: all_of_def os_typed_def os_ok_objects(2) [OF ok])
  from desired_all_of [OF ownerless_kind [OF kf] this run] have all: "all_of (\<lambda>v. gvk_for (ae_scheme env) v = Inr g) objs" .
  have "ok_name k \<noteq> []" if "map_of objs k = Some v" for k v
  proof -
    have "ok_name k \<in> ok_name ` dom (map_of objs)" using that by blast
    with fd have "ok_name k \<in> ok_name ` dom (map_of ?objs0)" by (simp add: from_desired_def)
    then obtain k0 where "os_view allObjs (g, k0) \<noteq> None" "ok_name k = ok_name k0"
      unfolding os_ok_objects(2) [OF ok, symmetric] by blast
    with named show ?thesis by metis
  qed
  with fd all show "wanted_ok (ae_scheme env) g objs"
    unfolding wanted_ok_def from_desired_def all_of_def by blast
qed

lemma reconciled_cong:
  "S g = T g \<Longrightarrow> S' g = T' g \<Longrightarrow> reconciled g must may prune S S' = reconciled g must may prune T T'"
  by (simp add: reconciled_def gone_def)

lemma to_prune_cong: "S g = T g \<Longrightarrow> to_prune env a sel g allObjs objs S = to_prune env a sel g allObjs objs T"
  by (simp add: to_prune_def fun_eq_iff)

text \<open>Kinds are processed one after the other, and none touches the objects of another.\<close>

lemma process_all_kinds:
  assumes "process_all f gs s = ([], s')" and "distinct gs" and "I s"
    and "\<And>g s s'. g \<in> set gs \<Longrightarrow> I s \<Longrightarrow> f g s = (None, s') \<Longrightarrow>
      I s' \<and> R g (V s g) (V s' g) \<and> (\<forall>g'. g' \<noteq> g \<longrightarrow> V s' g' = V s g')"
  shows "I s' \<and> (\<forall>g \<in> set gs. R g (V s g) (V s' g)) \<and> (\<forall>g. g \<notin> set gs \<longrightarrow> V s' g = V s g)"
  using assms
proof (induction gs arbitrary: s)
  case Nil
  from Nil.prems(1,3) show ?case by simp
next
  case (Cons g gs)
  obtain e s1 where f: "f g s = (e, s1)" by fastforce
  with Cons.prems(1) have e: "e = None" and r: "process_all f gs s1 = ([], s')"
    by (auto split: prod.splits option.splits)
  from f e have g: "I s1" "R g (V s g) (V s1 g)" "\<forall>g'. g' \<noteq> g \<longrightarrow> V s1 g' = V s g'"
    using Cons.prems(3) Cons.prems(4) [of g s s1] by simp_all
  have "I s' \<and> (\<forall>h \<in> set gs. R h (V s1 h) (V s' h)) \<and> (\<forall>h. h \<notin> set gs \<longrightarrow> V s' h = V s1 h)"
    by (rule Cons.IH [OF r _ g(1)]) (use Cons.prems(2,4) in auto)
  moreover have "g \<notin> set gs" using Cons.prems(2) by simp
  moreover have "V s1 h = V s h" if "h \<noteq> g" for h using g(3) that by blast
  ultimately show ?case using g(2) by (metis set_ConsD list.set_intros)
qed

lemma apply_set_outcome:
  assumes "serves (ae_scheme env) cl view" and "kinds_fixed (ae_scheme env)" and "\<not> a_ensure a"
    and "distinct (knownGVK a)" and "NewObjectSet (ae_scheme env) given_objs = (os, None)"
    and "\<forall>ob. Some ob \<in> set given_objs \<longrightarrow> k_name ob \<noteq> []"
    and "GetLabelsAndAnnotations env (a_ownerSubContext a) (a_owner a) = Inr (ls, as)"
    and "injectLabelsAndAnnotations env os ls as = Inr out" and "GetSelector env ls = Inr sel"
    and "apply_set env a cl valid os st = (None, st')"
  shows "\<exists>desired. \<forall>g.
    (g \<in> set (GVKOrder (ae_scheme env) os (knownGVK a)) \<longrightarrow> desired_objects env a g out = Inr (desired g) \<and>
       reconciled g (\<lambda>k. \<exists>v. map_of (desired g) k = Some v \<and> should v AnnotationCreate)
         (\<lambda>k. map_of (desired g) k \<noteq> None)
         (to_prune env a sel g out (desired g) (view (as_world st))) (view (as_world st)) (view (as_world st'))) \<and>
    (g \<notin> set (GVKOrder (ae_scheme env) os (knownGVK a)) \<longrightarrow> view (as_world st') g = view (as_world st) g)"
proof -
  let ?gs = "GVKOrder (ae_scheme env) os (knownGVK a)"
  let ?f = "\<lambda>g st. case process env a cl valid (debugID a) sel g out st of (e, _, st') \<Rightarrow> (e, st')"
  let ?V = "\<lambda>s. view (as_world s)"
  define desired where "desired g = (case desired_objects env a g out of Inl _ \<Rightarrow> [] | Inr objs \<Rightarrow> objs)" for g
  have mi: "marks_ignored env"
    unfolding marks_ignored_def
    by (intro allI kinds_fixed_same [OF assms(2)]) (simp_all add: mark_def setLabels_def setAnnotations_def Let_def)
  note out = inject_given [OF assms(5) mi assms(8)]
  have ty: "os_typed (ae_scheme env) out"
    using assms(8) NewObjectSet_typed by (auto simp: injectLabelsAndAnnotations_new split: prod.splits option.splits)
  have named: "\<forall>k. os_view out (g, k) \<noteq> None \<longrightarrow> ok_name k \<noteq> []" for g
    using out(2) assms(6) by (fastforce simp: given_def)
  let ?R = "\<lambda>g X Y. desired_objects env a g out = Inr (desired g) \<and>
    reconciled g (\<lambda>k. \<exists>v. map_of (desired g) k = Some v \<and> should v AnnotationCreate) (\<lambda>k. map_of (desired g) k \<noteq> None)
      (to_prune env a sel g out (desired g) (\<lambda>_. X)) (\<lambda>_. X) (\<lambda>_. Y)"
  have each: "?R g (?V s g) (?V s' g) \<and> (\<forall>g'. g' \<noteq> g \<longrightarrow> ?V s' g' = ?V s g')" if f: "?f g s = (None, s')" for g s s'
  proof -
    obtain o1 where p: "process env a cl valid (debugID a) sel g out s = (None, o1, s')"
      using f by (auto split: prod.splits)
    obtain objs where d: "desired_objects env a g out = Inr objs"
      using p by (auto simp: process_def split: sum.splits)
    then have des: "desired g = objs" by (simp add: desired_def)
    note r = process_reconciles [OF assms(1-3) d desired_wanted_ok [OF assms(2) out(1) ty named d] p]
    have "to_prune env a sel g out objs (?V s) = to_prune env a sel g out objs (\<lambda>_. ?V s g)"
      by (rule to_prune_cong) simp
    with r d des reconciled_cong [of "?V s" g "\<lambda>_. ?V s g" "?V s'" "\<lambda>_. ?V s' g"] show ?thesis by simp
  qed
  obtain errs s1 where pa: "process_all ?f ?gs st = (errs, s1)" by fastforce
  have "Errors_Err errs = None" "st' = s1"
    using assms(10) pa unfolding apply_set_def Let_def assms(7-9) sum.case prod.case by simp_all
  then have pa': "process_all ?f ?gs st = ([], st')" using pa by (simp add: merr.collect_None_iff)
  have dist: "distinct ?gs" by (rule distinct_GVKOrder [OF NewObjectSet_ok [OF assms(5)] assms(4)])
  have all: "(\<forall>g \<in> set ?gs. ?R g (?V st g) (?V st' g)) \<and> (\<forall>g. g \<notin> set ?gs \<longrightarrow> ?V st' g = ?V st g)"
    using process_all_kinds [where R = ?R and V = ?V and I = "\<lambda>_. True", OF pa' dist TrueI] each by simp
  have "to_prune env a sel g out (desired g) (\<lambda>_. ?V st g) = to_prune env a sel g out (desired g) (?V st)" for g
    by (rule to_prune_cong) simp
  with all reconciled_cong [of "?V st" _ "\<lambda>_. ?V st _" "?V st'" "\<lambda>_. ?V st' _"] show ?thesis
    by (intro exI [of _ desired]) auto
qed

text \<open>C2: an apply that reports no error has reconciled the cluster. For every kind it processes, the
  wanted objects, their owners and namespaces settled, are there unless they opt out of creation
  (an object that was already being deleted before may be gone), every object that is listed by the
  owner's label, is not wanted and is prunable has been deleted, and no other object of the kind
  has changed; objects of other kinds have not changed at all. The client is any whose server keeps
  the promises above, whatever else it does.\<close>

theorem apply_set_reconciles:
  assumes "serves (ae_scheme env) cl view" and "kinds_fixed (ae_scheme env)" and "\<not> a_ensure a"
    and "distinct (knownGVK a)" and "NewObjectSet (ae_scheme env) given_objs = (os, None)"
    and "\<forall>ob. Some ob \<in> set given_objs \<longrightarrow> k_name ob \<noteq> []"
    and "GetLabelsAndAnnotations env (a_ownerSubContext a) (a_owner a) = Inr (ls, as)"
    and "injectLabelsAndAnnotations env os ls as = Inr out" and "GetSelector env ls = Inr sel"
    and "apply_set env a cl valid os st = (None, st')"
  shows "\<exists>desired. \<forall>g.
    (g \<in> set (GVKOrder (ae_scheme env) os (knownGVK a)) \<longrightarrow> desired_objects env a g out = Inr (desired g) \<and>
       reconciled g (\<lambda>k. \<exists>v. map_of (desired g) k = Some v \<and> should v AnnotationCreate)
         (\<lambda>k. map_of (desired g) k \<noteq> None)
         (to_prune env a sel g out (desired g) (view (as_world st))) (view (as_world st)) (view (as_world st'))) \<and>
    (g \<notin> set (GVKOrder (ae_scheme env) os (knownGVK a)) \<longrightarrow> view (as_world st') g = view (as_world st) g)"
  by (rule apply_set_outcome [OF assms])

section \<open>A server\<close>

text \<open>A server that keeps its promises: the list of its objects, of which the first of a kind and a key counts.\<close>

definition srv_view :: "kobject list \<Rightarrow> cluster" where
  "srv_view w g k = find (\<lambda>x. k_gvk x = g \<and> object_key x = k) w"

definition srv_client :: "kobject list kclient" where
  "srv_client =
     \<lparr>cl_get = (\<lambda>ob ns nm w. (case srv_view w (k_gvk ob) \<lparr>ok_name = nm, ok_namespace = ns\<rparr> of
          None \<Rightarrow> Inl (Api NotFound nm) | Some x \<Rightarrow> Inr x, w)),
      cl_list = (\<lambda>g ns sel w. (Inr (filter (\<lambda>x. srv_view w (k_gvk x) (object_key x) = Some x \<and>
          g = (k_gvk x)\<lparr>gvk_kind := gvk_kind (k_gvk x) @ ''List''\<rparr> \<and> (ns = [] \<or> k_namespace x = ns) \<and>
          (case sel of None \<Rightarrow> True | Some s \<Rightarrow> ls_Matches s (k_labels x))) w), w)),
      cl_create = (\<lambda>ob w. if srv_view w (k_gvk ob) (object_key ob) = None
          then ((None, ob), ob\<lparr>k_deletionTimestamp := None\<rparr> # w)
          else ((Some (Api AlreadyExists (k_name ob)), ob), w)),
      cl_update = (\<lambda>ob w. ((None, ob), w)),
      cl_status_update = (\<lambda>ob w. ((None, ob), w)),
      cl_delete = (\<lambda>ob w. (None, filter (\<lambda>x. k_gvk x = k_gvk ob \<longrightarrow> object_key x \<noteq> object_key ob) w)),
      cl_patch = (\<lambda>ob ty p w. ((None, ob), w))\<rparr>"

lemma srv_view_filter: "srv_view (filter (\<lambda>x. k_gvk x = g \<longrightarrow> object_key x \<noteq> k) w) g' k' =
    (if g' = g \<and> k' = k then None else srv_view w g' k')"
  by (induction w) (auto simp: srv_view_def)

lemma srv_serves: "serves ex_scheme srv_client srv_view"
proof -
  have sent: "sent_as ex_scheme ob g \<longleftrightarrow> k_gvk ob = g" for ob g by (auto simp: sent_as_def)
  have some: "srv_view w g k = Some x \<Longrightarrow> k_gvk x = g \<and> object_key x = k \<and> x \<in> set w" for w g k x
    by (auto simp: srv_view_def find_Some_iff)
  have "list_served srv_client srv_view"
    unfolding list_served_def
  proof (intro allI impI conjI)
    fix g ns sel w r w' items
    assume c: "cl_list srv_client (g\<lparr>gvk_kind := gvk_kind g @ ''List''\<rparr>) ns (Some sel) w = (r, w')"
    then show "srv_view w' = srv_view w" by (simp add: srv_client_def)
    have inj: "g\<lparr>gvk_kind := gvk_kind g @ ''List''\<rparr> = h\<lparr>gvk_kind := gvk_kind h @ ''List''\<rparr> \<longleftrightarrow> g = h" for h
      by (cases g; cases h) auto
    assume "r = Inr items"
    with c have "items = filter (\<lambda>x. srv_view w (k_gvk x) (object_key x) = Some x \<and> g = k_gvk x \<and>
        (ns = [] \<or> k_namespace x = ns) \<and> ls_Matches sel (k_labels x)) w"
      by (auto simp: srv_client_def inj)
    then have items: "x \<in> set items \<longleftrightarrow> x \<in> set w \<and> srv_view w g (object_key x) = Some x \<and> g = k_gvk x \<and>
        (ns = [] \<or> ok_namespace (object_key x) = ns) \<and> ls_Matches sel (k_labels x)" for x
      by auto
    show "set items =
        {x. \<exists>k. srv_view w g k = Some x \<and> (ns = [] \<or> ok_namespace k = ns) \<and> ls_Matches sel (k_labels x)}"
    proof (intro set_eqI iffI)
      fix x
      assume "x \<in> {x. \<exists>k. srv_view w g k = Some x \<and> (ns = [] \<or> ok_namespace k = ns) \<and> ls_Matches sel (k_labels x)}"
      then obtain k where k: "srv_view w g k = Some x" "ns = [] \<or> ok_namespace k = ns" "ls_Matches sel (k_labels x)" by blast
      from some [OF k(1)] have x: "k_gvk x = g" "object_key x = k" "x \<in> set w" by simp_all
      with k show "x \<in> set items" unfolding items x by simp
    qed (unfold items, blast)
  qed
  moreover have "delete_served ex_scheme srv_client srv_view"
    by (auto simp: delete_served_def sent srv_client_def srv_view_filter only_at_def gone_def)
  moreover have "create_served ex_scheme srv_client srv_view"
    by (auto simp: create_served_def sent srv_client_def srv_view_def only_at_def alive_def object_key_def split: if_splits)
  ultimately show ?thesis
    using some by (auto simp: serves_def get_served_def patch_served_def sent srv_client_def split: option.splits)
qed

text \<open>Object \<open>a\<close> is wanted and missing, object \<open>z\<close> was applied before by the same owner.\<close>

definition rec_cfg :: apply_cfg where
  "rec_cfg = (NewApply [])\<lparr>a_ownerSubContext := ''s'', a_pruneTypes := [(ex_gvk, True)]\<rparr>"

definition rec_stray :: kobject where
  "rec_stray = (ex_obj ''ns'' ''z'')\<lparr>k_labels := [(LabelHash, ''s'')], k_annotations := [(LabelSubContext, ''s'')]\<rparr>"

definition rec_set :: objectset where
  "rec_set = fst (NewObjectSet ex_scheme [Some (ex_obj ''ns'' ''a'')])"

definition rec_state :: "kobject list apply_state" where
  "rec_state = \<lparr>as_world = [rec_stray], as_patchCache = []\<rparr>"

definition rec_out :: objectset where
  "rec_out = (case injectLabelsAndAnnotations ex_env rec_set [(LabelHash, ''s'')] [(LabelSubContext, ''s'')] of
     Inr out \<Rightarrow> out | Inl _ \<Rightarrow> empty_objectset)"

definition rec_selector :: label_selector where
  "rec_selector = \<lparr>ls_String = LabelHash @ ''='' @ ''s'', ls_Matches = (\<lambda>l. map_of l LabelHash = Some ''s'')\<rparr>"

definition rec_key :: objkey where "rec_key = \<lparr>ok_name = ''z'', ok_namespace = ''ns''\<rparr>"

lemma rec_runs: "fst (apply_set ex_env rec_cfg srv_client [] rec_set rec_state) = None"
  by code_simp

lemma rec_desired:
  "case desired_objects ex_env rec_cfg ex_gvk rec_out of Inl _ \<Rightarrow> False | Inr m \<Rightarrow> map_of m rec_key = None"
  by code_simp

lemma rec_prunes:
  assumes "desired_objects ex_env rec_cfg ex_gvk rec_out = Inr m"
  shows "to_prune ex_env rec_cfg (Some rec_selector) ex_gvk rec_out m (srv_view (as_world rec_state)) rec_key"
proof -
  have "\<not> a_noPrune rec_cfg \<and> srv_view (as_world rec_state) ex_gvk rec_key = Some rec_stray \<and>
      a_listerNamespace rec_cfg = [] \<and> ls_Matches rec_selector (k_labels rec_stray) \<and>
      prunable (ae_codec ex_env) rec_stray \<and> \<not> os_Contains rec_out (GroupKind ex_gvk) rec_key \<and>
      ok_namespace rec_key \<noteq> a_defaultNamespace rec_cfg"
    by code_simp
  with assms rec_desired show ?thesis by (auto simp: to_prune_def)
qed

lemma apply_set_reconciles_witness:
  "\<exists>st'. apply_set ex_env rec_cfg srv_client [] rec_set rec_state = (None, st') \<and> gone (srv_view (as_world st')) ex_gvk rec_key"
proof -
  obtain st' where run: "apply_set ex_env rec_cfg srv_client [] rec_set rec_state = (None, st')"
    using prod.collapse [of "apply_set ex_env rec_cfg srv_client [] rec_set rec_state"]
    by (metis (no_types) rec_runs)
  have 1: "NewObjectSet (ae_scheme ex_env) [Some (ex_obj ''ns'' ''a'')] = (rec_set, None)"
    by code_simp
  have 2: "distinct (knownGVK rec_cfg)" "\<not> a_ensure rec_cfg" by code_simp+
  have 3: "GetLabelsAndAnnotations ex_env (a_ownerSubContext rec_cfg) (a_owner rec_cfg) =
      Inr ([(LabelHash, ''s'')], [(LabelSubContext, ''s'')])"
    by code_simp
  have 4: "injectLabelsAndAnnotations ex_env rec_set [(LabelHash, ''s'')] [(LabelSubContext, ''s'')] = Inr rec_out"
    by code_simp
  have 5: "GetSelector ex_env [(LabelHash, ''s'')] = Inr (Some rec_selector)"
    by (simp add: GetSelector_def ex_env_def rec_selector_def gm_str_def)
  have 6: "kinds_fixed (ae_scheme ex_env)" by (auto simp: kinds_fixed_def)
  have 7: "serves (ae_scheme ex_env) srv_client srv_view" using srv_serves by simp
  have 8: "ex_gvk \<in> set (GVKOrder (ae_scheme ex_env) rec_set (knownGVK rec_cfg))" by code_simp
  from apply_set_reconciles [OF 7 6 2(2,1) 1 _ 3 4 5 run] 8 obtain m where
    "desired_objects ex_env rec_cfg ex_gvk rec_out = Inr m"
    "reconciled ex_gvk (\<lambda>k. \<exists>v. map_of m k = Some v \<and> should v AnnotationCreate) (\<lambda>k. map_of m k \<noteq> None)
       (to_prune ex_env rec_cfg (Some rec_selector) ex_gvk rec_out m (srv_view (as_world rec_state)))
       (srv_view (as_world rec_state)) (srv_view (as_world st'))"
    by (auto simp: ex_obj_def)
  with rec_prunes have "gone (srv_view (as_world st')) ex_gvk rec_key" by (simp add: reconciled_def)
  with run show ?thesis by blast
qed

end
