(* ===== verification/Reconciliation.thy ===== *)
theory Reconciliation
  imports ApplyReconcile HandlerSetProperties
begin

text \<open>
  What the objects a handler produced do to the cluster: \<open>save\<close> of pkg/router/save.go hands them to the apply
  engine with the object of the request as their owner, and the outcome of an apply
  (\<open>apply_set_outcome\<close>) is put in terms of what was produced and of the owner's mark.
\<close>

section \<open>From an apply of objects to the produced names\<close>

text \<open>What the library documents of the selector \<open>key = value\<close>.\<close>

definition requirement_exact :: "apply_env \<Rightarrow> bool" where
  "requirement_exact env \<longleftrightarrow>
     (\<forall>k v sel l. ae_requirement env k v = Inr sel \<longrightarrow> ls_Matches sel l \<longleftrightarrow> map_of l k = Some v)"

text \<open>The objects with the mark of an owner and a sub-context.\<close>

definition owned_by :: "apply_env \<Rightarrow> gostring \<Rightarrow> kobject \<Rightarrow> kobject \<Rightarrow> bool" where
  "owned_by env ctx owner x \<longleftrightarrow>
     (\<exists>ls as. GetLabelsAndAnnotations env ctx (Some owner) = Inr (ls, as) \<and>
        map_of (k_labels x) LabelHash \<noteq> None \<and> map_of (k_labels x) LabelHash = map_of ls LabelHash)"

lemma owner_labels:
  assumes "GetLabelsAndAnnotations env ctx (Some owner) = Inr (ls, as)"
  shows "\<exists>h. ls = [(LabelHash, h)]" and "map_of as AnnotationCreate = None"
  using assms
  by (auto simp: GetLabelsAndAnnotations_def Let_def label_names split: sum.splits if_splits)

lemma mark_should:
  assumes "map_of as AnnotationCreate = None" and "gm_ok as"
  shows "should (mark ls as ob) AnnotationCreate = should ob AnnotationCreate"
  using assms
  by (simp add: should_def mark_def setLabels_def setAnnotations_def Let_def gm_str_def map_of_gm_merge)

lemma owner_annotations_ok: "GetLabelsAndAnnotations env ctx (Some owner) = Inr (ls, as) \<Longrightarrow> gm_ok as"
  by (auto simp: GetLabelsAndAnnotations_def Let_def gm_ok_def intro!: distinct_update split: sum.splits if_splits)

lemma given_view:
  assumes new: "NewObjectSet sch objs = (os, None)"
  shows "os_view os (g, k) = Some ob \<Longrightarrow> Some ob \<in> set objs"
    and "Some ob \<in> set objs \<Longrightarrow> gvk_for sch ob = Inr g \<Longrightarrow> os_view os (g, object_key ob) \<noteq> None"
proof -
  have pairs: "((g, k), ob) \<in> set (added_pairs sch objs) \<longleftrightarrow> Some ob \<in> set objs \<and> gvk_for sch ob = Inr g \<and> object_key ob = k"
    for g k ob
    by (force simp: added_pairs_def split: option.splits sum.splits)
  show "os_view os (g, k) = Some ob \<Longrightarrow> Some ob \<in> set objs"
    using pairs by (auto simp: NewObjectSet_view [OF new] dest!: map_of_SomeD)
  assume "Some ob \<in> set objs" and "gvk_for sch ob = Inr g"
  then have "((g, object_key ob), ob) \<in> set (added_pairs sch objs)" using pairs by simp
  then show "os_view os (g, object_key ob) \<noteq> None"
    unfolding NewObjectSet_view [OF new] map_of_eq_None_iff by force
qed

lemma desired_given:
  assumes new: "NewObjectSet (ae_scheme env) objs = (os, None)" and mi: "marks_ignored env"
    and inj: "injectLabelsAndAnnotations env os ls as = Inr out" and D: "desired_objects env a g out = Inr m"
  shows "map_of m k = Some v \<Longrightarrow> given (ae_scheme env) objs g (ok_name k) \<and>
      (\<exists>ob. Some ob \<in> set objs \<and> k_annotations v = k_annotations (mark ls as ob))"
    and "given (ae_scheme env) objs g n \<Longrightarrow> \<exists>k v. map_of m k = Some v \<and> ok_name k = n"
proof -
  note out = inject_given [OF new mi inj]
  have view: "os_view out p = map_option (mark ls as) (os_view os p)" for p
    using mi by (intro inject_view [OF NewObjectSet_ok [OF new] NewObjectSet_typed [OF new] _ inj]) (simp add: marks_ignored_def)
  let ?objs0 = "gm_list (ObjectsByGVK (Some out)) g"
  have map0: "map_of ?objs0 k = os_view out (g, k)" for k by (rule os_ok_objects(2) [OF out(1)])
  obtain nsed where fd: "from_desired env (a_owner a) nsed ?objs0 m" by (rule desired_objects_from [OF out(1) D])
  have names: "ok_name ` dom (map_of m) = ok_name ` dom (map_of ?objs0)" using fd by (simp add: from_desired_def)
  show "given (ae_scheme env) objs g (ok_name k) \<and> (\<exists>ob. Some ob \<in> set objs \<and> k_annotations v = k_annotations (mark ls as ob))"
    if v: "map_of m k = Some v"
  proof
    have "ok_name k \<in> ok_name ` dom (map_of m)" using v by blast
    then obtain k0 where "k0 \<in> dom (map_of ?objs0)" "ok_name k = ok_name k0" unfolding names by (rule imageE)
    with out(2) map0 show "given (ae_scheme env) objs g (ok_name k)" by (metis domIff)
    from from_desiredD [OF fd v] obtain k0 v0 where v0: "map_of ?objs0 k0 = Some v0" "adopted env (a_owner a) nsed v0 v" by blast
    then obtain ob where "os_view os (g, k0) = Some ob" "v0 = mark ls as ob" using map0 view by auto
    with given_view(1) [OF new] v0(2) show "\<exists>ob. Some ob \<in> set objs \<and> k_annotations v = k_annotations (mark ls as ob)"
      by (auto simp: adopted_def)
  qed
  show "\<exists>k v. map_of m k = Some v \<and> ok_name k = n" if "given (ae_scheme env) objs g n"
  proof -
    from that obtain ob where ob: "Some ob \<in> set objs" "gvk_for (ae_scheme env) ob = Inr g" "k_name ob = n"
      by (auto simp: given_def)
    with given_view(2) [OF new ob(1,2)] have "object_key ob \<in> dom (map_of ?objs0)" by (simp add: map0 view domIff)
    then have "n \<in> ok_name ` dom (map_of ?objs0)" using ob(3) by (metis imageI object_key_simps(1))
    then show ?thesis unfolding names [symmetric] by auto
  qed
qed

text \<open>What an apply of objects with an owner does, in terms of the names that were given.\<close>

lemma apply_owned_outcome:
  assumes s: "serves (ae_scheme env) cl view" and kf: "kinds_fixed (ae_scheme env)" and rq: "requirement_exact env"
    and a: "\<not> a_ensure a" "distinct (knownGVK a)" "a_listerNamespace a = []" "a_owner a = Some owner"
    and new: "NewObjectSet (ae_scheme env) objs = (os, None)"
    and named: "\<forall>ob. Some ob \<in> set objs \<longrightarrow> k_name ob \<noteq> [] \<and> should ob AnnotationCreate"
    and run: "apply_set env a cl valid os st = (None, st')"
  shows "(given (ae_scheme env) objs g n \<longrightarrow>
      (\<exists>k. ok_name k = n \<and> (view (as_world st') g k \<noteq> None \<or> (\<exists>x. view (as_world st) g k = Some x \<and> terminating x)))) \<and>
    (\<not> a_noPrune a \<and> g \<in> set (knownGVK a) \<and> view (as_world st) g k = Some x \<and> owned_by env (a_ownerSubContext a) owner x \<and>
       prunable (ae_codec env) x \<and> (\<forall>g'. GroupKind g' = GroupKind g \<longrightarrow> \<not> given (ae_scheme env) objs g' (ok_name k)) \<longrightarrow>
       gone (view (as_world st')) g k) \<and>
    (view (as_world st') g k \<noteq> view (as_world st) g k \<longrightarrow> given (ae_scheme env) objs g (ok_name k) \<or>
       \<not> a_noPrune a \<and> (\<exists>x. view (as_world st) g k = Some x \<and> owned_by env (a_ownerSubContext a) owner x \<and>
         prunable (ae_codec env) x))"
proof -
  let ?S = "view (as_world st)" and ?S' = "view (as_world st')" and ?sch = "ae_scheme env"
  let ?gs = "GVKOrder ?sch os (knownGVK a)"
  obtain ls as where m: "GetLabelsAndAnnotations env (a_ownerSubContext a) (a_owner a) = Inr (ls, as)"
    using run by (auto simp: apply_set_def split: sum.splits)
  obtain out where inj: "injectLabelsAndAnnotations env os ls as = Inr out"
    using run m by (auto simp: apply_set_def split: sum.splits)
  obtain sel0 where sel0: "GetSelector env ls = Inr sel0"
    using run m inj by (auto simp: apply_set_def split: sum.splits)
  note m' = m [unfolded a(4)]
  obtain hash where ls: "ls = [(LabelHash, hash)]" using owner_labels(1) [OF m'] by blast
  obtain sel where sel: "sel0 = Some sel" "\<And>l. ls_Matches sel l \<longleftrightarrow> map_of l LabelHash = Some hash"
    using sel0 rq by (auto simp: GetSelector_def ls gm_str_def requirement_exact_def split: sum.splits)
  have owned: "owned_by env (a_ownerSubContext a) owner x \<longleftrightarrow> ls_Matches sel (k_labels x)" for x
    by (auto simp: owned_by_def m' sel(2) ls)
  have mi: "marks_ignored env"
    unfolding marks_ignored_def
    by (intro allI kinds_fixed_same [OF kf]) (simp_all add: mark_def setLabels_def setAnnotations_def Let_def)
  have nm: "\<forall>ob. Some ob \<in> set objs \<longrightarrow> k_name ob \<noteq> []" using named by blast
  note out = inject_given [OF new mi inj]
  from apply_set_outcome [OF s kf a(1,2) new nm m inj sel0 run] obtain desired where
    inside: "\<And>g. g \<in> set ?gs \<Longrightarrow> desired_objects env a g out = Inr (desired g) \<and>
       reconciled g (\<lambda>k. \<exists>v. map_of (desired g) k = Some v \<and> should v AnnotationCreate) (\<lambda>k. map_of (desired g) k \<noteq> None)
         (to_prune env a sel0 g out (desired g) ?S) ?S ?S'"
    and outside: "\<And>g. g \<notin> set ?gs \<Longrightarrow> ?S' g = ?S g" by blast
  have order: "set ?gs = set (os_gvkOrder os) \<union> set (knownGVK a)" by (rule set_GVKOrder [OF NewObjectSet_ok [OF new]])
  have given_in: "g \<in> set ?gs" if "given ?sch objs g n" for n
  proof -
    from that obtain ob where ob: "Some ob \<in> set objs" "gvk_for ?sch ob = Inr g" by (auto simp: given_def)
    have "os_view os (g, object_key ob) \<noteq> None" by (rule given_view(2) [OF new ob])
    then have "g \<in> set (gm_keys (os_objects os))"
      by (force simp: os_view_def nm_get_def dest: map_of_SomeD split: option.splits)
    with NewObjectSet_ok [OF new] order show ?thesis by (auto simp: os_ok_def)
  qed
  have creates: "should v AnnotationCreate" if g: "g \<in> set ?gs" and v: "map_of (desired g) k = Some v" for k v
  proof -
    obtain ob where "Some ob \<in> set objs" "k_annotations v = k_annotations (mark ls as ob)"
      using desired_given(1) [OF new mi inj _ v] inside [OF g] by blast
    then show ?thesis
      using named mark_should [OF owner_labels(2) [OF m'] owner_annotations_ok [OF m'], of ls ob] should_cong by metis
  qed
  have 1: "\<exists>k. ok_name k = n \<and> (?S' g k \<noteq> None \<or> (\<exists>x. ?S g k = Some x \<and> terminating x))" if gv: "given ?sch objs g n"
  proof -
    note i = inside [OF given_in [OF gv]]
    from desired_given(2) [OF new mi inj conjunct1 [OF i] gv] obtain k v where k: "map_of (desired g) k = Some v" "ok_name k = n" by blast
    with i creates [OF given_in [OF gv] k(1)] show ?thesis unfolding reconciled_def by blast
  qed
  have 2: "gone ?S' g k" if p: "\<not> a_noPrune a" "g \<in> set (knownGVK a)" "?S g k = Some x" "owned_by env (a_ownerSubContext a) owner x"
    "prunable (ae_codec env) x" "\<forall>g'. GroupKind g' = GroupKind g \<longrightarrow> \<not> given ?sch objs g' (ok_name k)"
  proof -
    have i: "desired_objects env a g out = Inr (desired g)" "reconciled g (\<lambda>k. \<exists>v. map_of (desired g) k = Some v \<and> should v AnnotationCreate)
      (\<lambda>k. map_of (desired g) k \<noteq> None) (to_prune env a sel0 g out (desired g) ?S) ?S ?S'"
      using inside [of g] p(2) order by blast+
    have "\<not> os_Contains out (GroupKind g) key" if "ok_name key = ok_name k" for key
      using out(2) out(1) p(6) that unfolding os_ok_def by metis
    moreover have "map_of (desired g) k = None"
      using desired_given(1) [OF new mi inj i(1), of k] p(6) by (cases "map_of (desired g) k") auto
    ultimately have "to_prune env a sel0 g out (desired g) ?S k"
      using p a(3) owned sel(1) by (simp add: to_prune_def)
    with i(2) show ?thesis by (simp add: reconciled_def)
  qed
  have 3: "given ?sch objs g (ok_name k) \<or>
      \<not> a_noPrune a \<and> (\<exists>x. ?S g k = Some x \<and> owned_by env (a_ownerSubContext a) owner x \<and> prunable (ae_codec env) x)"
    if ch: "?S' g k \<noteq> ?S g k"
  proof -
    have "g \<in> set ?gs" using ch outside by metis
    note i = inside [OF this]
    have "map_of (desired g) k \<noteq> None \<or> to_prune env a sel0 g out (desired g) ?S k"
      using i ch unfolding reconciled_def by blast
    then show ?thesis
      using desired_given(1) [OF new mi inj conjunct1 [OF i]] owned sel(1) by (auto simp: to_prune_def)
  qed
  from 1 2 3 show ?thesis by blast
qed

section \<open>Saving what a handler produced\<close>

definition produced :: "'w handler_set \<Rightarrow> 'w hs_state \<Rightarrow> response \<Rightarrow> gvk \<Rightarrow> gostring \<Rightarrow> bool" where
  "produced h s r = given (ae_scheme (h_apply_env h)) (map (\<lambda>x. Some (deref (hs_r s) x)) (r_objects r))"

lemma save_config_fields [simp]:
  "\<not> a_ensure (save_config h r gs)" "a_listerNamespace (save_config h r gs) = []"
  "a_ownerSubContext (save_config h r gs) = h_name h" "a_pruneObjects (save_config h r gs) = []"
  "a_noPrune (save_config h r gs) \<longleftrightarrow> r_noPrune r \<or> r_objects r = [] \<and> r_delay r > 0"
  by (simp_all add: save_config_def WithNoPrune_def WithPruneGVKs_def withPruneGVKs_def WithOwnerSubContext_def
      NewApply_def Let_def)

lemma knownGVK_iff: "g \<in> set (knownGVK c) \<longleftrightarrow> map_of (a_pruneTypes c) g \<noteq> None"
proof -
  have "knownGVK c = gm_keys (a_pruneTypes c)" unfolding knownGVK_def by (rule map_cong) auto
  then show ?thesis by (simp add: map_of_eq_None_iff)
qed

lemma save_config_known: "set (knownGVK (save_config h r gs)) = set gs" "gm_ok (a_pruneTypes (save_config h r gs))"
proof -
  let ?b = "WithOwnerSubContext (h_name h) (NewApply (h_reconcilers h))"
  have e: "a_pruneTypes (save_config h r gs) = a_pruneTypes (withPruneGVKs gs ?b)"
    by (simp add: save_config_def WithNoPrune_def WithPruneGVKs_def Let_def)
  have "gm_ok (a_pruneTypes ?b)" "a_pruneTypes ?b = []" by (simp_all add: WithOwnerSubContext_def NewApply_def gm_ok_def)
  note l = withPruneGVKs_lookup [OF this(1), of gs, unfolded this(2)]
  show "set (knownGVK (save_config h r gs)) = set gs"
    using l by (auto simp: knownGVK_iff e split: if_splits)
  show "gm_ok (a_pruneTypes (save_config h r gs))" unfolding e by (rule withPruneGVKs_ok)
qed

text \<open>The configuration an apply of \<open>save\<close> works with, and the apply in terms of it.\<close>

definition saving_cfg :: "'w handler_set \<Rightarrow> response \<Rightarrow> gvk list \<Rightarrow> kobject \<Rightarrow> gvk \<Rightarrow> apply_cfg" where
  "saving_cfg h r gs owner og = (withPruneGVKs [] (save_config h r gs))\<lparr>a_owner := Some owner, a_ownerGVK := og\<rparr>"

lemma saving_cfg_fields [simp]:
  "\<not> a_ensure (saving_cfg h r gs owner og)" "a_listerNamespace (saving_cfg h r gs owner og) = []"
  "a_owner (saving_cfg h r gs owner og) = Some owner" "a_ownerSubContext (saving_cfg h r gs owner og) = h_name h"
  "a_noPrune (saving_cfg h r gs owner og) \<longleftrightarrow> r_noPrune r \<or> r_objects r = [] \<and> r_delay r > 0"
  "a_reconcilers (saving_cfg h r gs owner og) = a_reconcilers (save_config h r gs)"
  by (simp_all add: saving_cfg_def withPruneGVKs_def Let_def)

lemma saving_cfg_known: "set (knownGVK (saving_cfg h r gs owner og)) = set gs" "distinct (knownGVK (saving_cfg h r gs owner og))"
proof -
  let ?a = "saving_cfg h r gs owner og" and ?c = "save_config h r gs"
  have "g \<in> set (knownGVK ?a) \<longleftrightarrow> g \<in> set gs" for g
  proof -
    have "g \<in> set (knownGVK ?a) \<longleftrightarrow> map_of (a_pruneTypes (withPruneGVKs [] ?c)) g \<noteq> None"
      by (simp add: saving_cfg_def knownGVK_iff)
    also have "\<dots> \<longleftrightarrow> map_of (a_pruneTypes ?c) g \<noteq> None"
      using withPruneGVKs_lookup [where gvks = "[]" and a = ?c and g = g, OF save_config_known(2)] by simp
    also have "\<dots> \<longleftrightarrow> g \<in> set gs" by (simp only: knownGVK_iff [symmetric] save_config_known(1))
    finally show ?thesis .
  qed
  then show "set (knownGVK ?a) = set gs" by blast
  show "distinct (knownGVK ?a)"
    by (rule distinct_knownGVK) (simp add: saving_cfg_def withPruneGVKs_ok)
qed

lemma run_apply_eq:
  assumes "gvk_for (ae_scheme (h_apply_env h)) owner = Inr og"
    and "NewObjectSet (ae_scheme (h_apply_env h)) (map (\<lambda>x. Some (deref (hs_r s) x)) xs) = (os, None)"
  shows "run_apply h (save_config h r gs) (Some owner) xs s =
    (case apply_set (h_apply_env h) (saving_cfg h r gs owner og) (b_client (h_backend h)) (h_validOwnerChange h) os
        \<lparr>as_world = rs_world (hs_r s), as_patchCache = hs_patchCache s\<rparr> of
       (e, st) \<Rightarrow> (e, s\<lparr>hs_r := (hs_r s)\<lparr>rs_world := as_world st\<rparr>, hs_patchCache := as_patchCache st\<rparr>))"
  using assms by (simp add: run_apply_def Apply_def saving_cfg_def Let_def)

lemma run_apply_None:
  assumes "run_apply h (save_config h r gs) (Some owner) xs s = (None, s')"
  obtains og os st where "gvk_for (ae_scheme (h_apply_env h)) owner = Inr og"
    and "NewObjectSet (ae_scheme (h_apply_env h)) (map (\<lambda>x. Some (deref (hs_r s) x)) xs) = (os, None)"
    and "apply_set (h_apply_env h) (saving_cfg h r gs owner og) (b_client (h_backend h)) (h_validOwnerChange h) os
        \<lparr>as_world = rs_world (hs_r s), as_patchCache = hs_patchCache s\<rparr> = (None, st)"
    and "s' = s\<lparr>hs_r := (hs_r s)\<lparr>rs_world := as_world st\<rparr>, hs_patchCache := as_patchCache st\<rparr>"
proof -
  obtain og os where 1: "gvk_for (ae_scheme (h_apply_env h)) owner = Inr og"
    and 2: "NewObjectSet (ae_scheme (h_apply_env h)) (map (\<lambda>x. Some (deref (hs_r s) x)) xs) = (os, None)"
    using assms by (auto simp: run_apply_def Apply_def Let_def split: prod.splits sum.splits option.splits)
  with assms show thesis
    unfolding run_apply_eq [OF 1 2] by (auto intro: that split: prod.splits)
qed

text \<open>What a handler produced is what the cluster has. When saving the objects of a response reports
  no error, then: of every name produced for a kind there is an object of the kind (unless one was
  being deleted already); unless pruning was held back, every object of a watched kind that carries the
  mark of this owner and handler set, is prunable and whose name was not produced under any version
  of its kind has been deleted; and no object has changed but those with a produced name and the
  prunable ones with the mark.\<close>

theorem save_reconciles:
  assumes "serves (ae_scheme (h_apply_env h)) (b_client (h_backend h)) view"
    and "kinds_fixed (ae_scheme (h_apply_env h))" and "requirement_exact (h_apply_env h)"
    and "\<forall>x \<in> set (r_objects r). k_name (deref (hs_r s) x) \<noteq> [] \<and> should (deref (hs_r s) x) AnnotationCreate"
    and "run_apply h (save_config h r gs) (Some owner) (r_objects r) s = (None, s')"
    and "S = view (rs_world (hs_r s))" and "S' = view (rs_world (hs_r s'))"
  shows "(\<forall>g n. produced h s r g n \<longrightarrow>
      (\<exists>k. ok_name k = n \<and> (S' g k \<noteq> None \<or> (\<exists>x. S g k = Some x \<and> terminating x)))) \<and>
    (\<forall>g k x. \<not> r_noPrune r \<and> \<not> (r_objects r = [] \<and> r_delay r > 0) \<and> g \<in> set gs \<and> S g k = Some x \<and>
       owned_by (h_apply_env h) (h_name h) owner x \<and> prunable (ae_codec (h_apply_env h)) x \<and>
       (\<forall>g'. GroupKind g' = GroupKind g \<longrightarrow> \<not> produced h s r g' (ok_name k)) \<longrightarrow> gone S' g k) \<and>
    (\<forall>g k. S' g k \<noteq> S g k \<longrightarrow> produced h s r g (ok_name k) \<or>
       \<not> r_noPrune r \<and> \<not> (r_objects r = [] \<and> r_delay r > 0) \<and>
       (\<exists>x. S g k = Some x \<and> owned_by (h_apply_env h) (h_name h) owner x \<and> prunable (ae_codec (h_apply_env h)) x))"
proof -
  from assms(5) obtain og os st where new: "NewObjectSet (ae_scheme (h_apply_env h)) (map (\<lambda>x. Some (deref (hs_r s) x)) (r_objects r)) = (os, None)"
    and run: "apply_set (h_apply_env h) (saving_cfg h r gs owner og) (b_client (h_backend h)) (h_validOwnerChange h) os
        \<lparr>as_world = rs_world (hs_r s), as_patchCache = hs_patchCache s\<rparr> = (None, st)"
    and s': "s' = s\<lparr>hs_r := (hs_r s)\<lparr>rs_world := as_world st\<rparr>, hs_patchCache := as_patchCache st\<rparr>"
    by (rule run_apply_None)
  have named: "\<forall>ob. Some ob \<in> set (map (\<lambda>x. Some (deref (hs_r s) x)) (r_objects r)) \<longrightarrow> k_name ob \<noteq> [] \<and> should ob AnnotationCreate"
    using assms(4) by auto
  note o = apply_owned_outcome [OF assms(1-3) saving_cfg_fields(1) saving_cfg_known(2) saving_cfg_fields(2,3) new named run,
      unfolded saving_cfg_known(1) saving_cfg_fields(4,5)]
  show ?thesis unfolding produced_def assms(6,7) s' using o by simp blast
qed

text \<open>Object \<open>a\<close> is produced; \<open>z\<close> carries the mark of the owner and is not produced any more.\<close>

definition sv_stray :: kobject where
  "sv_stray = (case GetLabelsAndAnnotations ex_env ''ctl'' (Some ex_owner) of
     Inr (ls, as) \<Rightarrow> (ex_obj ''ns'' ''z'')\<lparr>k_labels := ls, k_annotations := as\<rparr> | Inl _ \<Rightarrow> ex_owner)"

definition sv_set :: "kobject list handler_set" where
  "sv_set = \<lparr>h_name = ''ctl'',
     h_backend = \<lparr>b_scheme = ex_scheme, b_watch = (\<lambda>g w. (None, w)), b_trigger = (\<lambda>g k d w. (None, w)), b_client = srv_client\<rparr>,
     h_handlers = [], h_onError = None, h_sem_eq = (=), h_apply_env = ex_env, h_reconcilers = [], h_validOwnerChange = []\<rparr>"

definition sv_state :: "kobject list hs_state" where
  "sv_state = \<lparr>hs_r = \<lparr>rs_heap = (\<lambda>x. ex_obj ''ns'' ''a''), rs_next = 1, rs_matchers = [], rs_gvks = [], rs_watching = [],
     rs_world = [sv_stray]\<rparr>, hs_patchCache = []\<rparr>"

definition sv_response :: response where
  "sv_response = new_response\<lparr>r_objects := [0]\<rparr>"

lemma sv_runs: "fst (run_apply sv_set (save_config sv_set sv_response [ex_gvk]) (Some ex_owner) (r_objects sv_response) sv_state) = None"
  by code_simp

lemma sv_facts:
  "srv_view (rs_world (hs_r sv_state)) ex_gvk rec_key = Some sv_stray \<and>
   prunable (ae_codec (h_apply_env sv_set)) sv_stray \<and> \<not> r_noPrune sv_response \<and> r_objects sv_response = [0] \<and>
   deref (hs_r sv_state) 0 = ex_obj ''ns'' ''a'' \<and> k_name (ex_obj ''ns'' ''a'') = ''a'' \<and>
   should (ex_obj ''ns'' ''a'') AnnotationCreate \<and> ok_name rec_key = ''z''"
  by code_simp

lemma save_reconciles_witness:
  "\<exists>s'. run_apply sv_set (save_config sv_set sv_response [ex_gvk]) (Some ex_owner) (r_objects sv_response) sv_state = (None, s') \<and>
     gone (srv_view (rs_world (hs_r s'))) ex_gvk rec_key \<and>
     (\<exists>k. ok_name k = ''a'' \<and> (srv_view (rs_world (hs_r s')) ex_gvk k \<noteq> None \<or>
        (\<exists>x. srv_view (rs_world (hs_r sv_state)) ex_gvk k = Some x \<and> terminating x)))"
proof -
  obtain s' where run: "run_apply sv_set (save_config sv_set sv_response [ex_gvk]) (Some ex_owner) (r_objects sv_response) sv_state = (None, s')"
    by (metis prod.collapse sv_runs)
  have env: "h_apply_env sv_set = ex_env" "b_client (h_backend sv_set) = srv_client" "h_name sv_set = ''ctl''"
    by (simp_all add: sv_set_def)
  have 1: "serves (ae_scheme (h_apply_env sv_set)) (b_client (h_backend sv_set)) srv_view"
    using srv_serves by (simp add: env)
  have 2: "kinds_fixed (ae_scheme (h_apply_env sv_set))" by (auto simp: kinds_fixed_def env)
  have 3: "requirement_exact (h_apply_env sv_set)" by (auto simp: requirement_exact_def env ex_env_def)
  have 4: "\<forall>x \<in> set (r_objects sv_response). k_name (deref (hs_r sv_state) x) \<noteq> [] \<and>
      should (deref (hs_r sv_state) x) AnnotationCreate"
    using sv_facts by auto
  note r = save_reconciles [OF 1 2 3 4 run refl refl]
  obtain ls as where l: "GetLabelsAndAnnotations ex_env ''ctl'' (Some ex_owner) = Inr (ls, as)"
    by (simp add: GetLabelsAndAnnotations_def Let_def)
  then have own: "owned_by (h_apply_env sv_set) (h_name sv_set) ex_owner sv_stray"
    using owner_labels(1) [OF l] by (auto simp: owned_by_def env sv_stray_def)
  have only: "produced sv_set sv_state sv_response g n \<longleftrightarrow> k_gvk (ex_obj ''ns'' ''a'') = g \<and> n = ''a''" for g n
    using sv_facts by (auto simp: produced_def given_def env)
  have "ok_name rec_key \<noteq> ''a''" using sv_facts by simp
  then have "gone (srv_view (rs_world (hs_r s'))) ex_gvk rec_key"
    using r own sv_facts only by (metis list.discI list.set_intros(1))
  moreover have "produced sv_set sv_state sv_response ex_gvk ''a''"
    using only by (simp add: ex_obj_def zero_object_def)
  note conjunct1 [OF r, rule_format, OF this]
  ultimately show ?thesis using run by blast
qed

section \<open>Objects in another version\<close>

text \<open>
  An object that is wanted under another version of its kind is not to be pruned. The check looks at the
  objects as they were given, and for those without a namespace only at the default namespace;
  but such an object goes to the namespace of the owner. So with an owner in another namespace
  the object is created under one version and deleted under the other.
\<close>

definition old_gvk :: gvk where "old_gvk = ex_gvk\<lparr>gvk_version := ''v1beta1''\<rparr>"

definition old_set :: objectset where
  "old_set = fst (NewObjectSet ex_scheme [Some ((ex_obj [] ''a'')\<lparr>k_gvk := old_gvk\<rparr>)])"

lemma cross_version_misses_owner:
  "GroupKind old_gvk = GroupKind ex_gvk \<and>
   (case desired_objects ex_env ex_cfg old_gvk old_set of
      Inl e \<Rightarrow> False | Inr objs \<Rightarrow> map_of objs \<lparr>ok_name = ''a'', ok_namespace = ''ns''\<rparr> \<noteq> None) \<and>
   filterCrossVersion ex_cfg old_set ex_gvk [\<lparr>ok_name = ''a'', ok_namespace = ''ns''\<rparr>] =
     [\<lparr>ok_name = ''a'', ok_namespace = ''ns''\<rparr>]"
  by code_simp

section \<open>The error handler\<close>

text \<open>The error handler of a handler set is also asked when there is no error: its answer to nil is the
  error of the change.\<close>

lemma onError_called_with_nil:
  assumes "h_onError h = Some f" and "\<not> handlers_Handles (h_handlers h) req"
    and "newRequestResponse g key unmodified trigger (hs_r s) = (req, r, s1)"
  shows "snd (fst (handle h g key unmodified trigger s)) = fst (f req r None (fire_triggers h (unmodified = None) req s1))"
  using assms by (simp add: handle_def run_handlers_def handleError_def Let_def split: prod.splits)

end
