(* ===== verification/Convergence.thy ===== *)
theory Convergence
  imports Reconciliation PatchProperties
begin

text \<open>
  Applying the same objects again. An apply for which there is nothing to do makes no request that writes,
  and an apply that reported no error leaves a cluster for which there is nothing to do: the second
  apply of the same objects finds every object in sync and nothing to prune.
\<close>

section \<open>Objects in sync\<close>

text \<open>
  An object \<open>x\<close> of the cluster is in sync with a wanted object \<open>v\<close>: the patch from the one to the other is empty
  or nothing but the fields the server manages and the record of the last apply.
\<close>

definition in_sync :: "apply_env \<Rightarrow> gvk \<Rightarrow> kobject \<Rightarrow> kobject \<Rightarrow> bool" where
  "in_sync env g x v \<longleftrightarrow>
     (\<exists>original modified current ty patch.
        originalAndModified env g x v = Inr (original, modified) \<and> ae_marshal env x = Inr current \<and>
        fst (createPatch env g original modified current []) = Inr (ty, patch) \<and>
        (patch = ''{}'' \<or> sanitizePatch (ae_codec env) (ae_nested env) patch False = Inr ''{}''))"

lemma createPatch_cached:
  assumes "cache_sound env cache"
  shows "fst (createPatch env g original modified current cache) = fst (createPatch env g original modified current [])"
    and "cache_sound env (snd (createPatch env g original modified current cache))"
proof -
  obtain r c where m: "getMergeStyle env g cache = (r, c)" by fastforce
  obtain c0 where m0: "getMergeStyle env g [] = (r, c0)"
    using getMergeStyle_cached [OF assms m] by (metis prod.collapse)
  show "fst (createPatch env g original modified current cache) = fst (createPatch env g original modified current [])"
    by (simp add: createPatch_def m m0 split: sum.split)
  have "snd (createPatch env g original modified current cache) = c" by (simp add: createPatch_def m split: sum.split)
  then show "cache_sound env (snd (createPatch env g original modified current cache))"
    using getMergeStyle_cached [OF assms m] by simp
qed

lemma compareObjects_in_sync:
  assumes "in_sync env g x v" and "cache_sound env (as_patchCache st)" and "\<not> a_ensure a"
  shows "\<exists>c. compareObjects env a cl g x v st = (None, v, st\<lparr>as_patchCache := c\<rparr>) \<and> cache_sound env c"
proof -
  from assms(1) obtain original modified current ty patch where p:
    "originalAndModified env g x v = Inr (original, modified)" "ae_marshal env x = Inr current"
    "fst (createPatch env g original modified current []) = Inr (ty, patch)"
    "patch = ''{}'' \<or> sanitizePatch (ae_codec env) (ae_nested env) patch False = Inr ''{}''"
    by (auto simp: in_sync_def)
  obtain c where c: "createPatch env g original modified current (as_patchCache st) = (Inr (ty, patch), c)"
    using createPatch_cached(1) [OF assms(2), of g original modified current] p(3) by (metis prod.collapse)
  have "cache_sound env c" using createPatch_cached(2) [OF assms(2), of g original modified current] c by simp
  with applyPatch_quiet [OF p(1,2) c p(4), of a cl] assms(3) show ?thesis by (auto simp: compareObjects_def)
qed

section \<open>Nothing to do\<close>

text \<open>
  A kind is settled: every wanted object that is missing opts out of creation, every one that is there is in
  sync or opts out of updates, and of the objects that are listed and not wanted none may be pruned.
\<close>

definition settled ::
  "apply_env \<Rightarrow> apply_cfg \<Rightarrow> 'w kclient \<Rightarrow> label_selector option \<Rightarrow> objectset \<Rightarrow> 'w \<Rightarrow> gvk \<Rightarrow> bool" where
  "settled env a cl sel allObjs w g \<longleftrightarrow>
     (\<exists>objs existing. desired_objects env a g allObjs = Inr objs \<and> list_existing env a cl g sel objs w = (Inr existing, w) \<and>
        (\<forall>k v. map_of objs k = Some v \<longrightarrow>
           (case map_of existing k of None \<Rightarrow> \<not> should v AnnotationCreate
            | Some x \<Rightarrow> should v AnnotationUpdate \<longrightarrow> in_sync env g x v)) \<and>
        (a_noPrune a \<or> (\<forall>k x. map_of existing k = Some x \<and> map_of objs k = None \<and> prunable (ae_codec env) x \<longrightarrow>
           filterCrossVersion a allObjs g [k] = [])))"

lemma updates_in_sync:
  assumes "\<not> a_ensure a" and "cache_sound env (as_patchCache (ps_st ps))"
    and "\<forall>k \<in> set ks. \<exists>x v. map_of (ps_existing ps) k = Some x \<and> map_of (ps_objs ps) k = Some v \<and> in_sync env g x v"
  shows "\<exists>c es. run_all (updateF env a cl debug g) ks ps = (es, ps\<lparr>ps_st := (ps_st ps)\<lparr>as_patchCache := c\<rparr>\<rparr>) \<and>
    cache_sound env c \<and> (\<forall>e \<in> set es. e = None)"
  using assms(2,3)
proof (induction ks arbitrary: ps)
  case Nil
  then show ?case by (intro exI [of _ "as_patchCache (ps_st ps)"] exI [of _ "[]"]) simp
next
  case (Cons k ks)
  from Cons.prems(2) obtain x v where m: "map_of (ps_existing ps) k = Some x" "map_of (ps_objs ps) k = Some v" "in_sync env g x v"
    by auto
  from compareObjects_in_sync [OF m(3) Cons.prems(1) assms(1), of cl] obtain c where c:
    "compareObjects env a cl g x v (ps_st ps) = (None, v, (ps_st ps)\<lparr>as_patchCache := c\<rparr>)" "cache_sound env c" by blast
  define q where "q = ps\<lparr>ps_st := (ps_st ps)\<lparr>as_patchCache := c\<rparr>\<rparr>"
  have same: "AList.update k v (ps_objs ps) = ps_objs ps" using m(2) by (rule AList.update_triv)
  have u: "updateF env a cl debug g k ps = (None, q)"
    using m c(1) same by (simp add: updateF_def q_def Let_def)
  have "cache_sound env (as_patchCache (ps_st q))" using c(2) by (simp add: q_def)
  moreover have "\<forall>k \<in> set ks. \<exists>x v. map_of (ps_existing q) k = Some x \<and> map_of (ps_objs q) k = Some v \<and> in_sync env g x v"
    using Cons.prems(2) by (simp add: q_def)
  ultimately obtain d es where r: "run_all (updateF env a cl debug g) ks q = (es, q\<lparr>ps_st := (ps_st q)\<lparr>as_patchCache := d\<rparr>\<rparr>)"
    "cache_sound env d" "\<forall>e \<in> set es. e = None"
    using Cons.IH [of q] by blast
  have "q\<lparr>ps_st := (ps_st q)\<lparr>as_patchCache := d\<rparr>\<rparr> = ps\<lparr>ps_st := (ps_st ps)\<lparr>as_patchCache := d\<rparr>\<rparr>" by (simp add: q_def)
  with u r show ?case by (intro exI [of _ d] exI [of _ "None # es"]) simp
qed

lemma process_settled:
  assumes "settled env a cl sel allObjs (as_world st) g" and "os_ok allObjs" and "\<not> a_ensure a"
    and "cache_sound env (as_patchCache st)"
  shows "\<exists>c out. process env a cl valid debug sel g allObjs st = (None, out, st\<lparr>as_patchCache := c\<rparr>) \<and> cache_sound env c"
proof -
  from assms(1) obtain objs existing where D: "desired_objects env a g allObjs = Inr objs"
    and L: "list_existing env a cl g sel objs (as_world st) = (Inr existing, as_world st)"
    and each: "\<And>k v. map_of objs k = Some v \<Longrightarrow> (case map_of existing k of None \<Rightarrow> \<not> should v AnnotationCreate
        | Some x \<Rightarrow> should v AnnotationUpdate \<longrightarrow> in_sync env g x v)"
    and keep: "a_noPrune a \<or> (\<forall>k x. map_of existing k = Some x \<and> map_of objs k = None \<and> prunable (ae_codec env) x \<longrightarrow>
           filterCrossVersion a allObjs g [k] = [])"
    unfolding settled_def by blast
  have gok: "gm_ok objs" by (rule desired_objects_from [OF assms(2) D]) (simp add: from_desired_def)
  obtain c dl u where cs: "compareSets (ae_codec env) existing objs = (c, dl, u)" by (metis prod_cases3)
  note parts = compareSets_parts [OF list_existing_ok [OF L] gok cs]
  have "set c = {}" unfolding parts(1) using each by fastforce
  then have c: "c = []" by simp
  have dl: "a_noPrune a \<or> filterCrossVersion a allObjs g dl = []"
    using keep parts(3) by (fastforce simp: filterCrossVersion_def filter_empty_conv)
  define ps where "ps = \<lparr>ps_st = st\<lparr>as_world := as_world st\<rparr>, ps_objs = objs, ps_existing = existing,
      ps_toUpdate = u, ps_toReplace = []\<rparr>"
  have "\<forall>k \<in> set u. \<exists>x v. map_of (ps_existing ps) k = Some x \<and> map_of (ps_objs ps) k = Some v \<and> in_sync env g x v"
    using each parts(2) by (fastforce simp: ps_def)
  from updates_in_sync [OF assms(3) _ this, of cl debug] assms(4) obtain d es where u:
    "run_all (updateF env a cl debug g) u ps = (es, ps\<lparr>ps_st := (ps_st ps)\<lparr>as_patchCache := d\<rparr>\<rparr>)"
    "cache_sound env d" "\<forall>e \<in> set es. e = None" by (auto simp: ps_def)
  have "carry_out env a cl valid debug g c (filterCrossVersion a allObjs g dl) ps =
      (None, ps\<lparr>ps_st := (ps_st ps)\<lparr>as_patchCache := d\<rparr>\<rparr>)"
  proof -
    have "ps_toUpdate ps = u" "ps_toReplace ps = []" by (simp_all add: ps_def)
    with u dl show ?thesis by (auto simp: carry_out_def c Let_def NewErrors_None_iff)
  qed
  then show ?thesis
    using u(2) unfolding process_def D sum.case L prod.case Let_def cs
    by (intro exI [of _ d] exI [of _ objs]) (simp add: ps_def)
qed

lemma process_all_settled:
  assumes "\<forall>g \<in> set gs. settled env a cl sel allObjs (as_world st) g" and "os_ok allObjs" and "\<not> a_ensure a"
    and "cache_sound env (as_patchCache st)"
  shows "\<exists>c. process_all (\<lambda>g st. case process env a cl valid debug sel g allObjs st of (e, _, st') \<Rightarrow> (e, st')) gs st =
      ([], st\<lparr>as_patchCache := c\<rparr>) \<and> cache_sound env c"
  using assms(1,4)
proof (induction gs arbitrary: st)
  case Nil
  then show ?case by (intro exI [of _ "as_patchCache st"]) simp
next
  case (Cons g gs)
  from Cons.prems process_settled [OF _ assms(2,3), of env cl sel st g valid debug] obtain c out where
    p: "process env a cl valid debug sel g allObjs st = (None, out, st\<lparr>as_patchCache := c\<rparr>)" "cache_sound env c"
    by fastforce
  from Cons.IH [of "st\<lparr>as_patchCache := c\<rparr>"] Cons.prems(1) p(2) obtain d where
    "process_all (\<lambda>g st. case process env a cl valid debug sel g allObjs st of (e, _, st') \<Rightarrow> (e, st')) gs (st\<lparr>as_patchCache := c\<rparr>) =
      ([], (st\<lparr>as_patchCache := c\<rparr>)\<lparr>as_patchCache := d\<rparr>)" "cache_sound env d" by auto
  with p(1) show ?case by (intro exI [of _ d]) simp
qed

lemma apply_settled:
  assumes "\<forall>g \<in> set (GVKOrder (ae_scheme env) os (knownGVK a)). settled env a cl sel out (as_world st) g"
    and "os_ok out" and "\<not> a_ensure a" and "cache_sound env (as_patchCache st)"
    and "GetLabelsAndAnnotations env (a_ownerSubContext a) (a_owner a) = Inr (ls, as)"
    and "injectLabelsAndAnnotations env os ls as = Inr out" and "GetSelector env ls = Inr sel"
  shows "\<exists>c. apply_set env a cl valid os st = (None, st\<lparr>as_patchCache := c\<rparr>) \<and> cache_sound env c"
proof -
  from process_all_settled [OF assms(1-4), of valid "debugID a"] obtain c where
    c: "process_all (\<lambda>g st. case process env a cl valid (debugID a) sel g out st of (e, _, st') \<Rightarrow> (e, st'))
      (GVKOrder (ae_scheme env) os (knownGVK a)) st = ([], st\<lparr>as_patchCache := c\<rparr>)" "cache_sound env c" by blast
  show ?thesis
    by (intro exI [of _ c] conjI c(2)) (simp add: apply_set_def Let_def assms(5-7) c(1) merr.collect_None_iff)
qed

section \<open>What brings objects in sync\<close>

text \<open>
  What the server and the patch library promise. An object that was created from a wanted one is in sync with
  it, and a create that fails leaves the object it was given as it was; an object to which the patch from it to a wanted one was sent is in sync with that one; and an object
  in sync has the owner's label.
\<close>

definition create_synced :: "apply_env \<Rightarrow> 'w kclient \<Rightarrow> ('w \<Rightarrow> cluster) \<Rightarrow> bool" where
  "create_synced env cl view \<longleftrightarrow>
     (\<forall>v g obj w ob' w' x. gvk_for (ae_scheme env) v = Inr g \<longrightarrow> prepareObjectForCreate env g v True = Inr obj \<longrightarrow>
        cl_create cl obj w = ((None, ob'), w') \<longrightarrow> view w' g (object_key obj) = Some x \<longrightarrow> in_sync env g x v) \<and>
     (\<forall>ob w e ob' w'. cl_create cl ob w = ((Some e, ob'), w') \<longrightarrow> ob' = ob)"

definition patch_synced :: "apply_env \<Rightarrow> 'w kclient \<Rightarrow> ('w \<Rightarrow> cluster) \<Rightarrow> bool" where
  "patch_synced env cl view \<longleftrightarrow>
     (\<forall>old v g original modified current ty p patch ob w r w' x.
        gvk_for (ae_scheme env) v = Inr g \<longrightarrow> view w g (object_key old) = Some old \<longrightarrow> object_key v = object_key old \<longrightarrow>
        originalAndModified env g old v = Inr (original, modified) \<longrightarrow> ae_marshal env old = Inr current \<longrightarrow>
        fst (createPatch env g original modified current []) = Inr (ty, p) \<longrightarrow>
        sanitizePatch (ae_codec env) (ae_nested env) p False = Inr patch \<longrightarrow>
        sent_as (ae_scheme env) ob g \<longrightarrow> object_key ob = object_key old \<longrightarrow> cl_patch cl ob ty patch w = ((None, r), w') \<longrightarrow>
        view w' g (object_key old) = Some x \<longrightarrow> in_sync env g x v)"

definition sync_labels :: "apply_env \<Rightarrow> bool" where
  "sync_labels env \<longleftrightarrow>
     (\<forall>g x v h. in_sync env g x v \<longrightarrow> map_of (k_labels v) LabelHash = Some h \<longrightarrow> map_of (k_labels x) LabelHash = Some h)"

text \<open>
  Of the reconcilers of a configuration: none takes an update upon itself (the five of pkg/apply/reconcilers.go
  do not), and none asks for a replacement.
\<close>

definition never_handles :: "apply_cfg \<Rightarrow> bool" where
  "never_handles a \<longleftrightarrow> (\<forall>g rc old new. map_of (a_reconcilers a) g = Some rc \<longrightarrow> rc old new \<noteq> Inr True)"

definition never_replaces :: "apply_env \<Rightarrow> apply_cfg \<Rightarrow> 'w kclient \<Rightarrow> bool" where
  "never_replaces env a cl \<longleftrightarrow> (\<forall>g old new st. fst (compareObjects env a cl g old new st) \<noteq> Some ErrReplace)"

lemma defaults_never_handle:
  assumes "a_reconcilers a = defaultReconcilers re"
  shows "never_handles a"
proof -
  have "map_of (defaultReconcilers re) g = Some rc \<Longrightarrow>
      rc = reconcileSecret re \<or> rc = reconcileService re \<or> rc = reconcileJob re \<or> rc = reconcileDeployment re \<or>
      rc = reconcileDaemonSet re" for g rc
    by (auto simp: defaultReconcilers_def split: if_splits)
  moreover have "reconcileSecret re old new \<noteq> Inr True" "reconcileService re old new \<noteq> Inr True"
    "reconcileJob re old new \<noteq> Inr True" "reconcileDeployment re old new \<noteq> Inr True"
    "reconcileDaemonSet re old new \<noteq> Inr True" for old new
    by (auto simp: reconcileSecret_def reconcileService_def reconcileJob_def reconcileDeployment_def
        reconcileDaemonSet_def split: sum.splits option.splits if_splits)
  ultimately show ?thesis unfolding never_handles_def assms by metis
qed

lemma compareObjects_syncs:
  assumes s: "serves (ae_scheme env) cl view" and ps: "patch_synced env cl view" and ens: "\<not> a_ensure a"
    and nh: "never_handles a" and cs: "cache_sound env (as_patchCache st)"
    and old: "view (as_world st) g (object_key old) = Some old" and new: "gvk_for (ae_scheme env) new = Inr g" "object_key new = object_key old"
    and run: "compareObjects env a cl g old new st = (None, obj, st')"
  shows "obj = new \<and> only_at g (object_key old) (view (as_world st)) (view (as_world st')) \<and> cache_sound env (as_patchCache st') \<and>
    (\<forall>x. view (as_world st') g (object_key old) = Some x \<longrightarrow> in_sync env g x new)"
proof -
  note eff = compareObjects_effect [OF s ens run]
  obtain did where ap: "applyPatch env a cl g old new st = ((did, None), obj, st')"
    using run ens by (auto simp: compareObjects_def split: prod.splits option.splits if_splits)
  obtain original modified where om: "originalAndModified env g old new = Inr (original, modified)"
    using ap by (auto simp: applyPatch_def split: sum.splits)
  obtain current where cur: "ae_marshal env old = Inr current"
    using ap om by (auto simp: applyPatch_def split: sum.splits)
  note cc = createPatch_cached [OF cs, of g original modified current]
  obtain ty p c where cp: "createPatch env g original modified current (as_patchCache st) = (Inr (ty, p), c)"
    using ap om cur by (auto simp: applyPatch_def split: sum.splits prod.splits)
  have c: "cache_sound env c" and p: "fst (createPatch env g original modified current []) = Inr (ty, p)"
    using cc cp by simp_all
  show ?thesis
  proof (cases "p = ''{}'' \<or> sanitizePatch (ae_codec env) (ae_nested env) p False = Inr ''{}''")
    case True
    then have "in_sync env g old new" unfolding in_sync_def using om cur p by blast
    moreover have "st' = st\<lparr>as_patchCache := c\<rparr>" using applyPatch_quiet [OF om cur cp True] ap by simp
    ultimately show ?thesis using eff c old by simp
  next
    case False
    then obtain patch where sp: "sanitizePatch (ae_codec env) (ae_nested env) p False = Inr patch"
      using ap om cur cp by (auto simp: applyPatch_def Let_def split: sum.splits)
    have "send_patch a cl g old new ty patch (st\<lparr>as_patchCache := c\<rparr>) = ((did, None), obj, st')"
    proof (cases "map_of (a_reconcilers a) g")
      case None
      with ap om cur cp sp False show ?thesis by (simp add: applyPatch_def Let_def)
    next
      case (Some rc)
      have "run_reconciler env rc g old new \<noteq> Inr True"
        using nh Some by (auto simp: run_reconciler_def never_handles_def split: sum.splits)
      with ap om cur cp sp False Some show ?thesis
        by (auto simp: applyPatch_def Let_def split: sum.splits if_splits)
    qed
    then obtain ob r w' where cl: "cl_patch cl ob ty patch (as_world st) = ((None, r), w')"
        "sent_as (ae_scheme env) ob g" "object_key ob = object_key old" "st' = st\<lparr>as_patchCache := c, as_world := w'\<rparr>"
      using ens by (force simp: send_patch_def Let_def sent_as_def zero_object_def object_key_def split: prod.splits)
    have "in_sync env g x new" if "view w' g (object_key old) = Some x" for x
      using ps [unfolded patch_synced_def, rule_format, OF new(1) old new(2) om cur p sp cl(2,3,1) that] .
    with eff c cl(4) show ?thesis by simp
  qed
qed

section \<open>The loops\<close>

text \<open>Every key is visited once: its step finds what was true of it before, whatever other steps did.\<close>

lemma run_all_once:
  assumes "run_all f ks s = (es, s')" and "\<forall>e \<in> set es. e = None" and "distinct ks" and "I s" and "\<forall>k \<in> set ks. P k s"
    and "\<And>k s s'. k \<in> set ks \<Longrightarrow> I s \<Longrightarrow> P k s \<Longrightarrow> f k s = (None, s') \<Longrightarrow> I s' \<and> Q k s'"
    and "\<And>j k s s'. j \<in> set ks \<Longrightarrow> k \<noteq> j \<Longrightarrow> I s \<Longrightarrow> f j s = (None, s') \<Longrightarrow> (P k s \<longrightarrow> P k s') \<and> (Q k s \<longrightarrow> Q k s')"
  shows "I s' \<and> (\<forall>k \<in> set ks. Q k s') \<and> (\<forall>k. k \<notin> set ks \<longrightarrow> Q k s \<longrightarrow> Q k s')"
  using assms
proof (induction ks arbitrary: s es)
  case (Cons k ks)
  obtain e s1 where f: "f k s = (e, s1)" by fastforce
  with Cons.prems(1) obtain es2 where r: "run_all f ks s1 = (es2, s')" "es = e # es2" by (auto split: prod.splits)
  with Cons.prems(2) f have f': "f k s = (None, s1)" and es2: "\<forall>e \<in> set es2. e = None" by simp_all
  have k: "k \<notin> set ks" and d: "distinct ks" using Cons.prems(3) by simp_all
  have 1: "I s1" "Q k s1" using Cons.prems(4,5) Cons.prems(6) [of k s s1] f' by simp_all
  have keep: "j \<noteq> k \<Longrightarrow> (P j s \<longrightarrow> P j s1) \<and> (Q j s \<longrightarrow> Q j s1)" for j
    using Cons.prems(7) [of k j s s1] Cons.prems(4) f' by simp
  have "\<forall>j \<in> set ks. P j s1" using Cons.prems(5) keep k by (metis list.set_intros(2))
  have ih: "I s' \<and> (\<forall>k \<in> set ks. Q k s') \<and> (\<forall>k. k \<notin> set ks \<longrightarrow> Q k s1 \<longrightarrow> Q k s')"
  proof (rule Cons.IH [OF r(1) es2 d 1(1) \<open>\<forall>j \<in> set ks. P j s1\<close>], goal_cases)
    case (1 j t t')
    show ?case by (rule Cons.prems(6)) (use 1 in simp_all)
  next
    case (2 i j t t')
    show ?case by (rule Cons.prems(7) [of i]) (use 2 in simp_all)
  qed
  with 1(2) k keep show ?case by (metis set_ConsD)
qed simp

text \<open>
  The state of the loops: nothing is to be replaced, and the object that was found under a key that is to be
  updated is still the one of the cluster.
\<close>

definition loop_ok :: "apply_env \<Rightarrow> ObjectByKey \<Rightarrow> 'w process_state \<Rightarrow> bool" where
  "loop_ok env objs ps \<longleftrightarrow> ps_keyed objs ps \<and> cache_sound env (as_patchCache (ps_st ps)) \<and> ps_toReplace ps = [] \<and>
     distinct (ps_toUpdate ps)"

definition found :: "('w \<Rightarrow> cluster) \<Rightarrow> gvk \<Rightarrow> objkey \<Rightarrow> 'w process_state \<Rightarrow> bool" where
  "found view g k ps \<longleftrightarrow> (\<exists>x. map_of (ps_existing ps) k = Some x \<and> view (ps_world ps) g k = Some x)"

definition synced :: "apply_env \<Rightarrow> ('w \<Rightarrow> cluster) \<Rightarrow> gvk \<Rightarrow> ObjectByKey \<Rightarrow> objkey \<Rightarrow> 'w process_state \<Rightarrow> bool" where
  "synced env view g objs k ps \<longleftrightarrow>
     (\<forall>v x. map_of objs k = Some v \<longrightarrow> view (ps_world ps) g k = Some x \<longrightarrow> in_sync env g x v)"

lemma createF_syncs:
  assumes s: "serves (ae_scheme env) cl view" and cs: "create_synced env cl view" and kf: "kinds_fixed (ae_scheme env)"
    and ens: "\<not> a_ensure a" and ok: "wanted_ok (ae_scheme env) g objs"
    and up: "\<forall>k v. map_of objs k = Some v \<longrightarrow> should v AnnotationUpdate"
    and b: "loop_ok env objs ps" and k: "k \<in> dom (map_of objs)"
    and run: "createF env a cl valid debug g k ps = (None, ps')"
  shows "k \<notin> set (ps_toUpdate ps) \<Longrightarrow> loop_ok env objs ps' \<and>
      (if k \<in> set (ps_toUpdate ps') then found view g k ps' else synced env view g objs k ps')"
    and "only_at g k (view (ps_world ps)) (view (ps_world ps'))"
    and "j \<noteq> k \<Longrightarrow> map_of (ps_existing ps') j = map_of (ps_existing ps) j"
    and "set (ps_toUpdate ps) \<subseteq> set (ps_toUpdate ps')" "set (ps_toUpdate ps') \<subseteq> insert k (set (ps_toUpdate ps))"
proof -
  from k obtain v where v: "map_of objs k = Some v" by blast
  have kd: "ps_keyed objs ps" using b by (simp add: loop_ok_def)
  note eff = createF_effect [OF s kf ens ok kd run]
  show "only_at g k (view (ps_world ps)) (view (ps_world ps'))" using eff by blast
  have w: "object_key v = k" "ok_name k \<noteq> []" "gvk_for (ae_scheme env) v = Inr g"
    using ok v unfolding wanted_ok_def by blast+
  have mv: "map_of (ps_objs ps) k = Some v" using kd v by (simp add: ps_keyed_def)
  obtain obj where obj: "prepareObjectForCreate env g v True = Inr obj"
    using run mv ens by (auto simp: createF_def split: sum.splits)
  have okey: "object_key obj = k" using prepared_same(5) [OF obj] w(1) by simp
  have should: "should obj AnnotationUpdate" using prepared_same(3) [OF obj] up v by simp
  obtain c obj' w1 where c: "apply_create cl obj (ps_world ps) = ((c, obj'), w1)" by (metis surj_pair)
  obtain r w2 where gt: "apply_get env cl g (Some v) (ok_namespace k) (ok_name k) w1 = (r, w2)" by fastforce
  have failed: "obj' = obj" if "c = Some e" for e
    using cs c that unfolding create_synced_def apply_create_def by blast
  consider (created) "c = None" "ps' = set_world w1 ps"
    | (taken) y where "r = Inr y" "ps_world ps' = w2" "ps_st ps' = (ps_st ps)\<lparr>as_world := w2\<rparr>" "ps_objs ps' = ps_objs ps"
        "ps_toReplace ps' = ps_toReplace ps" "ps_toUpdate ps' = ps_toUpdate ps @ [k]"
        "ps_existing ps' = AList.update k y (ps_existing ps)"
    using run mv ens obj c gt should failed
    by (cases c) (auto simp: createF_def Let_def set_world_def split: option.splits if_splits sum.splits)
  note cases = this
  show "j \<noteq> k \<Longrightarrow> map_of (ps_existing ps') j = map_of (ps_existing ps) j"
    by (cases rule: cases) (simp_all add: set_world_def)
  show "set (ps_toUpdate ps) \<subseteq> set (ps_toUpdate ps')" "set (ps_toUpdate ps') \<subseteq> insert k (set (ps_toUpdate ps))"
    by (cases rule: cases; auto simp: set_world_def)+
  assume new: "k \<notin> set (ps_toUpdate ps)"
  from cases show "loop_ok env objs ps' \<and>
      (if k \<in> set (ps_toUpdate ps') then found view g k ps' else synced env view g objs k ps')"
  proof cases
    case created
    from c created(1) have "cl_create cl obj (ps_world ps) = ((None, obj'), w1)" by (simp add: apply_create_def)
    from cs [unfolded create_synced_def, THEN conjunct1, rule_format, OF w(3) obj this, unfolded okey] created(2) v
    have "synced env view g objs k ps'" by (simp add: synced_def set_world_def)
    moreover have "loop_ok env objs ps'" using b eff created(2) by (simp add: loop_ok_def set_world_def)
    ultimately show ?thesis using new created(2) by (simp add: set_world_def)
  next
    case (taken y)
    have key: "\<lparr>ok_name = ok_name k, ok_namespace = ok_namespace k\<rparr> = k" by simp
    have "view w1 g k = Some y"
      using serves_get(2) [OF s gt taken(1)] w(3) key by (simp add: sent_as_def)
    then have "found view g k ps'"
      using serves_get(1) [OF s gt] taken by (simp add: found_def)
    moreover have "loop_ok env objs ps'" using b eff taken new by (simp add: loop_ok_def)
    ultimately show ?thesis using taken(6) by simp
  qed
qed

lemma synced_other:
  "only_at g j (view (ps_world ps)) (view (ps_world ps')) \<Longrightarrow> k \<noteq> j \<Longrightarrow> synced env view g objs k ps' = synced env view g objs k ps"
  by (simp add: synced_def only_at_other)

lemma found_other:
  "only_at g j (view (ps_world ps)) (view (ps_world ps')) \<Longrightarrow> k \<noteq> j \<Longrightarrow>
     map_of (ps_existing ps') k = map_of (ps_existing ps) k \<Longrightarrow> found view g k ps' = found view g k ps"
  by (simp add: found_def only_at_other)

lemma updateF_syncs:
  assumes s: "serves (ae_scheme env) cl view" and psy: "patch_synced env cl view" and ens: "\<not> a_ensure a"
    and nh: "never_handles a" and nr: "never_replaces env a cl" and ok: "wanted_ok (ae_scheme env) g objs"
    and b: "loop_ok env objs ps" and run: "updateF env a cl debug g k ps = (None, ps')"
  shows "found view g k ps \<Longrightarrow> loop_ok env objs ps' \<and> synced env view g objs k ps'"
    and "only_at g k (view (ps_world ps)) (view (ps_world ps'))"
    and "ps_existing ps' = ps_existing ps" "ps_toUpdate ps' = ps_toUpdate ps"
proof -
  have kd: "ps_keyed objs ps" using b by (simp add: loop_ok_def)
  obtain old new where m: "map_of (ps_existing ps) k = Some old" "map_of (ps_objs ps) k = Some new"
    using run by (auto simp: updateF_def split: option.splits)
  have mo: "map_of objs k = Some new" "ps_objs ps = objs" and key: "object_key old = k" using kd m by (simp_all add: ps_keyed_def)
  have w: "object_key new = k" "gvk_for (ae_scheme env) new = Inr g" using ok mo(1) unfolding wanted_ok_def by blast+
  obtain c obj st where c: "compareObjects env a cl g old new (ps_st ps) = (c, obj, st)" by (metis surj_pair)
  have "c \<noteq> Some ErrReplace" using nr c unfolding never_replaces_def by (metis fst_conv)
  then have none: "c = None" and p: "ps' = ps\<lparr>ps_st := st, ps_objs := AList.update k obj objs\<rparr>"
    using run m c mo(2) by (auto simp: updateF_def Let_def split: option.splits if_splits)
  note eff = compareObjects_effect [OF s ens c]
  have same: "AList.update k obj objs = objs" using eff mo(1) by (simp add: AList.update_triv)
  show "only_at g k (view (ps_world ps)) (view (ps_world ps'))" using eff key p by simp
  show "ps_existing ps' = ps_existing ps" "ps_toUpdate ps' = ps_toUpdate ps" using p by simp_all
  assume "found view g k ps"
  then have old: "view (as_world (ps_st ps)) g (object_key old) = Some old" using m(1) key by (simp add: found_def)
  have cs: "cache_sound env (as_patchCache (ps_st ps))" using b by (simp add: loop_ok_def)
  have kn: "object_key new = object_key old" using w(1) key by simp
  note sy = compareObjects_syncs [OF s psy ens nh cs old w(2) kn c [unfolded none]]
  have "loop_ok env objs ps'"
    using b sy kd mo same p by (simp add: loop_ok_def ps_keyed_def)
  moreover have "synced env view g objs k ps'" using sy p mo(1) key by (simp add: synced_def)
  ultimately show "loop_ok env objs ps' \<and> synced env view g objs k ps'" by blast
qed

lemma carry_out_syncs:
  assumes s: "serves (ae_scheme env) cl view" and cs: "create_synced env cl view" and psy: "patch_synced env cl view"
    and kf: "kinds_fixed (ae_scheme env)" and ens: "\<not> a_ensure a" and nh: "never_handles a" and nr: "never_replaces env a cl"
    and ok: "wanted_ok (ae_scheme env) g objs" and up: "\<forall>k v. map_of objs k = Some v \<longrightarrow> should v AnnotationUpdate"
    and b: "loop_ok env objs ps" and tu: "\<forall>k \<in> set (ps_toUpdate ps). found view g k ps"
    and tc: "distinct toCreate" "set toCreate \<inter> set (ps_toUpdate ps) = {}"
      "set toCreate \<union> set (ps_toUpdate ps) = dom (map_of objs)" and td: "set toDelete \<inter> dom (map_of objs) = {}"
    and run: "carry_out env a cl valid debug g toCreate toDelete ps = (None, ps')"
  shows "cache_sound env (as_patchCache (ps_st ps')) \<and> (\<forall>k. synced env view g objs k ps')"
proof -
  define del where "del = (if a_noPrune a then [] else toDelete)"
  let ?Q = "\<lambda>k p. if k \<in> set (ps_toUpdate p) then found view g k p else synced env view g objs k p"
  obtain e1 p1 where r1: "run_all (createF env a cl valid debug g) toCreate ps = (e1, p1)" by fastforce
  obtain e2 p2 where r2: "run_all (updateF env a cl debug g) (ps_toUpdate p1) p1 = (e2, p2)" by fastforce
  obtain e3 p3 where r3: "run_all (deleteF env cl debug g) del p2 = (e3, p3)" by fastforce
  obtain e4 p4 where r4: "run_all (deleteF env cl debug g) (ps_toReplace p3) p3 = (e4, p4)" by fastforce
  obtain e5 p5 where r5: "run_all (createF env a cl valid debug g) (ps_toReplace p4) p4 = (e5, p5)" by fastforce
  have "(if a_noPrune a then ([], p2) else run_all (deleteF env cl debug g) toDelete p2) = (e3, p3)"
    using r3 by (simp add: del_def split: if_splits)
  then have p5: "ps' = p5" and none: "\<forall>e \<in> set e1. e = None" "\<forall>e \<in> set e2. e = None"
    using run by (auto simp: carry_out_def Let_def r1 r2 r4 r5 NewErrors_None_iff)
  have created: "loop_ok env objs p1 \<and> (\<forall>k \<in> set toCreate. ?Q k p1) \<and> (\<forall>k. k \<notin> set toCreate \<longrightarrow> ?Q k ps \<longrightarrow> ?Q k p1)"
  proof (rule run_all_once [where I = "loop_ok env objs" and P = "\<lambda>k p. k \<notin> set (ps_toUpdate p)" and Q = ?Q,
        OF r1 none(1) tc(1) b], goal_cases)
    case 1
    show ?case using tc(2) by blast
  next
    case (2 k p p')
    have "k \<in> dom (map_of objs)" using 2(1) tc(3) by blast
    from createF_syncs(1) [OF s cs kf ens ok up 2(2) this 2(4,3)] show ?case by simp
  next
    case (3 j k p p')
    have j: "j \<in> dom (map_of objs)" using 3(1) tc(3) by blast
    note c = createF_syncs(2-) [OF s cs kf ens ok up 3(3) j 3(4)]
    have "k \<in> set (ps_toUpdate p') \<longleftrightarrow> k \<in> set (ps_toUpdate p)" using c(3,4) 3(2) by blast
    moreover have "found view g k p' = found view g k p" using found_other [OF c(1) 3(2) c(2) [OF 3(2)]] .
    moreover have "synced env view g objs k p' = synced env view g objs k p" by (rule synced_other [OF c(1) 3(2)])
    ultimately show ?case by simp
  qed
  have Q1: "?Q k p1" if "k \<in> dom (map_of objs)" for k
    using created that tc tu by (metis UnE)
  have lk: "loop_ok env objs p1" using created by blast
  then have d1: "distinct (ps_toUpdate p1)" "set (ps_toUpdate p1) \<subseteq> dom (map_of objs)" by (auto simp: loop_ok_def ps_keyed_def)
  have updated: "loop_ok env objs p2 \<and> (\<forall>k \<in> set (ps_toUpdate p1). synced env view g objs k p2) \<and>
      (\<forall>k. k \<notin> set (ps_toUpdate p1) \<longrightarrow> synced env view g objs k p1 \<longrightarrow> synced env view g objs k p2)"
  proof (rule run_all_once [where I = "loop_ok env objs" and P = "found view g" and Q = "synced env view g objs",
        OF r2 none(2) d1(1) lk], goal_cases)
    case 1
    show ?case
    proof
      fix k
      assume k: "k \<in> set (ps_toUpdate p1)"
      with d1(2) Q1 [of k] show "found view g k p1" by auto
    qed
  next
    case (2 k p p')
    from updateF_syncs(1) [OF s psy ens nh nr ok 2(2,4,3)] show ?case by simp
  next
    case (3 j k p p')
    note c = updateF_syncs(2-) [OF s psy ens nh nr ok 3(3,4)]
    have "found view g k p' = found view g k p" by (rule found_other [OF c(1) 3(2)]) (simp add: c(2))
    moreover have "synced env view g objs k p' = synced env view g objs k p" by (rule synced_other [OF c(1) 3(2)])
    ultimately show ?case by simp
  qed
  have sync2: "synced env view g objs k p2" for k
  proof (cases "k \<in> dom (map_of objs)")
    case True
    with updated Q1 [OF True] show ?thesis by (metis (full_types))
  next
    case False
    then show ?thesis by (auto simp: synced_def)
  qed
  have w2: "ps_within view g objs (dom (map_of objs) \<union> set del) (view (ps_world p2)) p2"
    using updated by (simp add: ps_within_def loop_ok_def)
  note l3 = delete_loop(1) [OF s w2 Un_upper2 r3]
  have "ps_toReplace p3 = []" using l3 updated by (simp add: loop_ok_def)
  then have p3: "p5 = p3" using r4 r5 by simp
  have c3: "cache_sound env (as_patchCache (ps_st p3))"
    by (rule run_all_loop [where I = "\<lambda>p. cache_sound env (as_patchCache (ps_st p))", OF r3])
      (use updated in \<open>auto simp: loop_ok_def deleteF_def set_world_def split: prod.splits option.splits\<close>)
  have "synced env view g objs k p3" for k
  proof (cases "k \<in> dom (map_of objs)")
    case True
    then have "k \<notin> set del" using td by (auto simp: del_def split: if_splits)
    with l3 sync2 [of k] show ?thesis by (simp add: synced_def)
  next
    case False
    then show ?thesis by (auto simp: synced_def)
  qed
  with c3 p3 p5 show ?thesis by simp
qed

abbreviation list_kind :: "gvk \<Rightarrow> gvk" where
  "list_kind g \<equiv> g\<lparr>gvk_kind := gvk_kind g @ ''List''\<rparr>"

lemma process_syncs:
  assumes s: "serves (ae_scheme env) cl view" and cs: "create_synced env cl view" and psy: "patch_synced env cl view"
    and kf: "kinds_fixed (ae_scheme env)" and ens: "\<not> a_ensure a" and nh: "never_handles a" and nr: "never_replaces env a cl"
    and D: "desired_objects env a g allObjs = Inr objs" and gok: "gm_ok objs" and ok: "wanted_ok (ae_scheme env) g objs"
    and up: "\<forall>k v. map_of objs k = Some v \<longrightarrow> should v AnnotationCreate \<and> should v AnnotationUpdate"
    and cache: "cache_sound env (as_patchCache st)"
    and run: "process env a cl valid debug (Some sel) g allObjs st = (None, out, st')"
  shows "cache_sound env (as_patchCache st') \<and> (\<exists>ob. newObj env (list_kind g) True = Inr ob) \<and>
    (\<forall>k v x. map_of objs k = Some v \<longrightarrow> view (as_world st') g k = Some x \<longrightarrow> in_sync env g x v)"
proof -
  obtain existing w where L: "list_existing env a cl g (Some sel) objs (as_world st) = (Inr existing, w)"
    using run D by (auto simp: process_def split: sum.splits prod.splits)
  then have nob: "\<exists>ob. newObj env (list_kind g) True = Inr ob"
    by (auto simp: list_existing_def listBySelector_def Let_def split: sum.splits)
  obtain c dl u where cmp: "compareSets (ae_codec env) existing objs = (c, dl, u)" by (metis prod_cases3)
  define ps where "ps = \<lparr>ps_st = st\<lparr>as_world := w\<rparr>, ps_objs = objs, ps_existing = existing,
      ps_toUpdate = u, ps_toReplace = []\<rparr>"
  obtain ps' where co: "carry_out env a cl valid debug g c (filterCrossVersion a allObjs g dl) ps = (None, ps')" "st' = ps_st ps'"
    using run unfolding process_def D sum.case L prod.case Let_def cmp ps_def
    by (auto split: prod.splits)
  note parts = compareSets_parts [OF list_existing_ok [OF L] gok cmp]
  note listed = listed_objects [OF s L]
  have keyed: "object_key x = k" if "map_of existing k = Some x" for k x
    using serves_key [OF s] listed(2) that by blast
  have found: "\<forall>k \<in> set (ps_toUpdate ps). found view g k ps"
    using parts(2) listed by (fastforce simp: found_def ps_def)
  have b: "loop_ok env objs ps"
    using keyed parts(2,6) cache by (auto simp: loop_ok_def ps_keyed_def ps_def)
  have tc: "set c \<inter> set (ps_toUpdate ps) = {}" "set c \<union> set (ps_toUpdate ps) = dom (map_of objs)"
    using up by (auto simp: parts(1,2) ps_def)
  have td: "set (filterCrossVersion a allObjs g dl) \<inter> dom (map_of objs) = {}"
    by (auto simp: filterCrossVersion_def parts(3))
  have up': "\<forall>k v. map_of objs k = Some v \<longrightarrow> should v AnnotationUpdate" using up by blast
  from carry_out_syncs [OF s cs psy kf ens nh nr ok up' b found parts(4) tc td co(1)] co(2) nob
  show ?thesis by (simp add: synced_def)
qed

section \<open>Twice\<close>

text \<open>Every owner and every sub-context has a label, and the marks do not touch the annotations that opt out.\<close>

lemma marks:
  assumes "GetLabelsAndAnnotations env ctx owner = Inr (ls, as)" and "ctx \<noteq> [] \<or> owner \<noteq> None"
  shows "\<exists>h. ls = [(LabelHash, h)]" and "map_of as AnnotationCreate = None" "map_of as AnnotationUpdate = None" and "gm_ok as"
  using assms
  by (auto simp: GetLabelsAndAnnotations_def Let_def label_names gm_ok_def intro!: distinct_update
      split: sum.splits if_splits option.splits)

lemma marked_objects:
  assumes "gm_ok as" and "map_of as AnnotationCreate = None" "map_of as AnnotationUpdate = None"
  shows "map_of (k_labels (mark [(LabelHash, h)] as ob)) LabelHash = Some h"
    and "should (mark ls as ob) AnnotationCreate = should ob AnnotationCreate"
    and "should (mark ls as ob) AnnotationUpdate = should ob AnnotationUpdate"
  using assms
  by (simp_all add: should_def mark_def setLabels_def setAnnotations_def Let_def gm_str_def map_of_gm_merge gm_ok_def)

text \<open>Reading works and changes nothing.\<close>

definition reads_work :: "'w kclient \<Rightarrow> bool" where
  "reads_work cl \<longleftrightarrow> (\<forall>g ns sel w. \<exists>items. cl_list cl g ns sel w = (Inr items, w))"

lemma list_works: "reads_work cl \<Longrightarrow> newObj env (list_kind g) True = Inr ob \<Longrightarrow>
     \<exists>existing. list_existing env a cl g (Some sel) objs w = (Inr existing, w)"
proof -
  assume r: "reads_work cl" and n: "newObj env (list_kind g) True = Inr ob"
  from r obtain items where "cl_list cl (list_kind g) (a_listerNamespace a) (Some sel) w = (Inr items, w)"
    unfolding reads_work_def by blast
  with n show ?thesis by (simp add: list_existing_def listBySelector_def Let_def)
qed

text \<open>
  The hypotheses about the server, the libraries and the configuration, for applies that use neither replacement nor
  opting out.
\<close>

definition converging :: "apply_env \<Rightarrow> apply_cfg \<Rightarrow> 'w kclient \<Rightarrow> ('w \<Rightarrow> cluster) \<Rightarrow> bool" where
  "converging env a cl view \<longleftrightarrow>
     serves (ae_scheme env) cl view \<and> create_synced env cl view \<and> patch_synced env cl view \<and> reads_work cl \<and>
     kinds_fixed (ae_scheme env) \<and> sync_labels env \<and> requirement_exact env \<and> never_handles a \<and> never_replaces env a cl"

lemma apply_syncs:
  assumes C: "converging env a cl view" and a: "\<not> a_ensure a" "distinct (knownGVK a)"
    and own: "a_ownerSubContext a \<noteq> [] \<or> a_owner a \<noteq> None"
    and new: "NewObjectSet (ae_scheme env) objs = (os, None)"
    and named: "\<forall>ob. Some ob \<in> set objs \<longrightarrow> k_name ob \<noteq> [] \<and> should ob AnnotationCreate \<and> should ob AnnotationUpdate"
    and cache: "cache_sound env (as_patchCache st)"
    and m: "GetLabelsAndAnnotations env (a_ownerSubContext a) (a_owner a) = Inr (ls, as)"
    and inj: "injectLabelsAndAnnotations env os ls as = Inr out" and sel: "GetSelector env ls = Inr (Some sel)"
    and run: "apply_set env a cl valid os st = (None, st')"
  shows "cache_sound env (as_patchCache st')"
    and "g \<in> set (GVKOrder (ae_scheme env) os (knownGVK a)) \<Longrightarrow>
      (\<exists>ob. newObj env (list_kind g) True = Inr ob) \<and>
      (\<forall>m k v. desired_objects env a g out = Inr m \<longrightarrow> map_of m k = Some v \<longrightarrow>
         map_of (k_labels v) LabelHash = map_of ls LabelHash \<and> should v AnnotationCreate \<and>
         (\<forall>x. view (as_world st') g k = Some x \<longrightarrow> in_sync env g x v))"
proof -
  let ?gs = "GVKOrder (ae_scheme env) os (knownGVK a)"
  let ?f = "\<lambda>g st. case process env a cl valid (debugID a) (Some sel) g out st of (e, _, st') \<Rightarrow> (e, st')"
  let ?V = "\<lambda>s. view (as_world s)"
  have s: "serves (ae_scheme env) cl view" and kf: "kinds_fixed (ae_scheme env)" and cs: "create_synced env cl view"
    and psy: "patch_synced env cl view" and nh: "never_handles a" and nr: "never_replaces env a cl"
    using C by (simp_all add: converging_def)
  have mi: "marks_ignored env"
    unfolding marks_ignored_def
    by (intro allI kinds_fixed_same [OF kf]) (simp_all add: mark_def setLabels_def setAnnotations_def Let_def)
  note out = inject_given [OF new mi inj]
  have ty: "os_typed (ae_scheme env) out"
    using inj NewObjectSet_typed by (auto simp: injectLabelsAndAnnotations_new split: prod.splits option.splits)
  have nm: "\<forall>k. os_view out (g, k) \<noteq> None \<longrightarrow> ok_name k \<noteq> []" for g
    using out(2) named by (fastforce simp: given_def)
  obtain h where h: "ls = [(LabelHash, h)]" using marks(1) [OF m own] by blast
  note ms = marked_objects [OF marks(4,2,3) [OF m own]]
  define P where "P v \<longleftrightarrow> map_of (k_labels v) LabelHash = Some h \<and> should v AnnotationCreate \<and> should v AnnotationUpdate" for v
  have Pn: "ownerless P" by (simp add: ownerless_def P_def should_def)
  have view: "os_view out p = map_option (mark ls as) (os_view os p)" for p
    using mi by (intro inject_view [OF NewObjectSet_ok [OF new] NewObjectSet_typed [OF new] _ inj]) (simp add: marks_ignored_def)
  have start: "all_of P (gm_list (ObjectsByGVK (Some out)) g)" for g
    unfolding all_of_def
  proof (intro allI impI)
    fix k v
    assume "map_of (gm_list (ObjectsByGVK (Some out)) g) k = Some v"
    then obtain ob where "os_view os (g, k) = Some ob" "v = mark ls as ob"
      using view by (auto simp: os_ok_objects(2) [OF out(1)])
    with given_view(1) [OF new] named ms show "P v" by (auto simp: P_def h)
  qed
  have want: "P v" if "desired_objects env a g out = Inr m" "map_of m k = Some v" for g m k v
    using desired_all_of [OF Pn start that(1)] that(2) by (simp add: all_of_def)
  let ?R = "\<lambda>g (X :: objkey \<Rightarrow> kobject option) Y. (\<exists>ob. newObj env (list_kind g) True = Inr ob) \<and>
      (\<forall>m k v. desired_objects env a g out = Inr m \<longrightarrow> map_of m k = Some v \<longrightarrow> (\<forall>x. Y k = Some x \<longrightarrow> in_sync env g x v))"
  have each: "cache_sound env (as_patchCache s') \<and> ?R g (?V s g) (?V s' g) \<and> (\<forall>g'. g' \<noteq> g \<longrightarrow> ?V s' g' = ?V s g')"
    if cache: "cache_sound env (as_patchCache s)" and f: "?f g s = (None, s')" for g s s'
  proof -
    obtain o1 where p: "process env a cl valid (debugID a) (Some sel) g out s = (None, o1, s')"
      using f by (auto split: prod.splits)
    obtain m where d: "desired_objects env a g out = Inr m"
      using p by (auto simp: process_def split: sum.splits)
    note w = desired_wanted_ok [OF kf out(1) ty nm d]
    have "\<forall>k v. map_of m k = Some v \<longrightarrow> should v AnnotationCreate \<and> should v AnnotationUpdate"
      using want [OF d] by (simp add: P_def)
    from process_syncs [OF s cs psy kf a(1) nh nr d w this cache p] process_reconciles [OF s kf a(1) d w p] d
    show ?thesis by simp
  qed
  obtain errs s1 where pa: "process_all ?f ?gs st = (errs, s1)" by fastforce
  have "Errors_Err errs = None" "st' = s1"
    using run pa unfolding apply_set_def Let_def m inj sel sum.case prod.case by simp_all
  then have pa': "process_all ?f ?gs st = ([], st')" using pa by (simp add: merr.collect_None_iff)
  have dist: "distinct ?gs" by (rule distinct_GVKOrder [OF NewObjectSet_ok [OF new] a(2)])
  have all: "cache_sound env (as_patchCache st') \<and> (\<forall>g \<in> set ?gs. ?R g (?V st g) (?V st' g)) \<and>
      (\<forall>g. g \<notin> set ?gs \<longrightarrow> ?V st' g = ?V st g)"
    by (rule process_all_kinds [where R = ?R and V = ?V and I = "\<lambda>s. cache_sound env (as_patchCache s)", OF pa' dist cache each])
  then show "cache_sound env (as_patchCache st')" by blast
  show "(\<exists>ob. newObj env (list_kind g) True = Inr ob) \<and>
      (\<forall>m k v. desired_objects env a g out = Inr m \<longrightarrow> map_of m k = Some v \<longrightarrow>
         map_of (k_labels v) LabelHash = map_of ls LabelHash \<and> should v AnnotationCreate \<and>
         (\<forall>x. view (as_world st') g k = Some x \<longrightarrow> in_sync env g x v))" if "g \<in> set ?gs"
    using all that want by (auto simp: P_def h)
qed

lemma apply_twice:
  assumes C: "converging env a cl view" and a: "\<not> a_ensure a" "distinct (knownGVK a)" "a_listerNamespace a = []"
    and own: "a_ownerSubContext a \<noteq> [] \<or> a_owner a \<noteq> None"
    and new: "NewObjectSet (ae_scheme env) objs = (os, None)"
    and named: "\<forall>ob. Some ob \<in> set objs \<longrightarrow> k_name ob \<noteq> [] \<and> should ob AnnotationCreate \<and> should ob AnnotationUpdate"
    and live: "\<forall>g k x. view (as_world st) g k = Some x \<longrightarrow> given (ae_scheme env) objs g (ok_name k) \<longrightarrow> \<not> terminating x"
    and cache: "cache_sound env (as_patchCache st)" and run: "apply_set env a cl valid os st = (None, st')"
  shows "\<exists>c. apply_set env a cl valid os st' = (None, st'\<lparr>as_patchCache := c\<rparr>) \<and> cache_sound env c"
proof -
  let ?S = "view (as_world st)" and ?S' = "view (as_world st')"
  let ?gs = "GVKOrder (ae_scheme env) os (knownGVK a)"
  have s: "serves (ae_scheme env) cl view" and kf: "kinds_fixed (ae_scheme env)" and rw: "reads_work cl"
    and sl: "sync_labels env" and rq: "requirement_exact env"
    using C by (simp_all add: converging_def)
  obtain ls as where m: "GetLabelsAndAnnotations env (a_ownerSubContext a) (a_owner a) = Inr (ls, as)"
    using run by (auto simp: apply_set_def split: sum.splits)
  obtain out where inj: "injectLabelsAndAnnotations env os ls as = Inr out"
    using run m by (auto simp: apply_set_def split: sum.splits)
  obtain sel0 where sel0: "GetSelector env ls = Inr sel0"
    using run m inj by (auto simp: apply_set_def split: sum.splits)
  obtain h where h: "ls = [(LabelHash, h)]" using marks(1) [OF m own] by blast
  obtain sel where sel: "sel0 = Some sel" "\<And>l. ls_Matches sel l \<longleftrightarrow> map_of l LabelHash = Some h"
    using sel0 rq by (auto simp: GetSelector_def h gm_str_def requirement_exact_def split: sum.splits)
  have mi: "marks_ignored env"
    unfolding marks_ignored_def
    by (intro allI kinds_fixed_same [OF kf]) (simp_all add: mark_def setLabels_def setAnnotations_def Let_def)
  note out = inject_given [OF new mi inj]
  have nm: "\<forall>ob. Some ob \<in> set objs \<longrightarrow> k_name ob \<noteq> []" using named by blast
  note sy = apply_syncs [OF C a(1,2) own new named cache m inj sel0 [unfolded sel(1)] run]
  from apply_set_outcome [OF s kf a(1,2) new nm m inj sel0 run] obtain desired where
    rec: "\<And>g. g \<in> set ?gs \<Longrightarrow> desired_objects env a g out = Inr (desired g) \<and>
       reconciled g (\<lambda>k. \<exists>v. map_of (desired g) k = Some v \<and> should v AnnotationCreate) (\<lambda>k. map_of (desired g) k \<noteq> None)
         (to_prune env a sel0 g out (desired g) ?S) ?S ?S'" by blast
  have "settled env a cl sel0 out (as_world st') g" if g: "g \<in> set ?gs" for g
  proof -
    have D: "desired_objects env a g out = Inr (desired g)" using rec [OF g] by blast
    obtain ob where "newObj env (list_kind g) True = Inr ob" using sy(2) [OF g] by blast
    from list_works [OF rw this] obtain existing where
      L: "list_existing env a cl g sel0 (desired g) (as_world st') = (Inr existing, as_world st')"
      using sel(1) by blast
    have listed: "map_of existing k = Some x \<longleftrightarrow> ?S' g k = Some x \<and> map_of (k_labels x) LabelHash = Some h" for k x
      using listed_objects(2) [OF s L [unfolded sel(1)]] a(3) sel(2) by simp
    have want: "\<exists>x. map_of existing k = Some x \<and> in_sync env g x v" if v: "map_of (desired g) k = Some v" for k v
    proof -
      have w: "map_of (k_labels v) LabelHash = Some h" "should v AnnotationCreate"
        "\<And>x. ?S' g k = Some x \<Longrightarrow> in_sync env g x v"
        using sy(2) [OF g] D v h by auto
      have "given (ae_scheme env) objs g (ok_name k)" using desired_given(1) [OF new mi inj D v] by blast
      with live have "\<nexists>x. ?S g k = Some x \<and> terminating x" by blast
      with rec [OF g] v w(2) obtain x where x: "?S' g k = Some x" unfolding reconciled_def by blast
      from w(3) [OF x] sl w(1) have "map_of (k_labels x) LabelHash = Some h" unfolding sync_labels_def by blast
      with x listed w(3) show ?thesis by blast
    qed
    have "a_noPrune a \<or> filterCrossVersion a out g [k] = []"
      if k: "map_of existing k = Some x" "map_of (desired g) k = None" "prunable (ae_codec env) x" for k x
    proof (rule ccontr)
      assume "\<not> ?thesis"
      moreover have x: "?S' g k = Some x" "map_of (k_labels x) LabelHash = Some h" using k(1) listed by blast+
      ultimately have tp: "to_prune env a sel0 g out (desired g) ?S k" if "?S g k = Some x"
        using that k(2,3) sel a(3) by (auto simp: to_prune_def filterCrossVersion_def split: if_splits)
      have "\<not> to_prune env a sel0 g out (desired g) ?S k"
        using rec [OF g] x(1) k(3) unfolding reconciled_def gone_def prunable_def by blast
      moreover from this have "?S g k = Some x" using rec [OF g] k(2) x(1) unfolding reconciled_def by metis
      ultimately show False using tp by blast
    qed
    moreover have "case map_of existing k of None \<Rightarrow> \<not> should v AnnotationCreate
        | Some x \<Rightarrow> should v AnnotationUpdate \<longrightarrow> in_sync env g x v" if v: "map_of (desired g) k = Some v" for k v
      using want [OF v] by auto
    ultimately show ?thesis
      unfolding settled_def by (intro exI [of _ "desired g"] exI [of _ existing] conjI D L) blast+
  qed
  then show ?thesis
    by (intro apply_settled [OF _ out(1) a(1) sy(1) m inj sel0]) blast
qed

text \<open>Applying the same objects again does nothing. After an apply that reported no error, the same apply on
  the cluster it left reports no error and makes no request that changes anything: the world behind the
  client is exactly what it was, so nothing is created, patched or deleted. This is for objects that
  do not opt out of creation or updates, none of which was being deleted, for an apply with an owner or a
  sub-context, and for a server and libraries that do what \<open>converging\<close> lists.\<close>

theorem apply_converges:
  assumes "converging env a cl view" and "\<not> a_ensure a" and "distinct (knownGVK a)" and "a_listerNamespace a = []"
    and "a_ownerSubContext a \<noteq> [] \<or> a_owner a \<noteq> None"
    and "NewObjectSet (ae_scheme env) objs = (os, None)"
    and "\<forall>ob. Some ob \<in> set objs \<longrightarrow> k_name ob \<noteq> [] \<and> should ob AnnotationCreate \<and> should ob AnnotationUpdate"
    and "\<forall>g k x. view (as_world st) g k = Some x \<longrightarrow> given (ae_scheme env) objs g (ok_name k) \<longrightarrow> \<not> terminating x"
    and "cache_sound env (as_patchCache st)" and "apply_set env a cl valid os st = (None, st')"
  shows "\<exists>st''. apply_set env a cl valid os st' = (None, st'') \<and> as_world st'' = as_world st'"
proof -
  from apply_twice [OF assms] obtain c where "apply_set env a cl valid os st' = (None, st'\<lparr>as_patchCache := c\<rparr>)" by blast
  then show ?thesis by simp
qed

text \<open>Of the configuration only the reconcilers and whether it is a call of \<open>Ensure\<close> matter for that.\<close>

lemma converging_cong:
  assumes "a_ensure a = a_ensure b" and "a_reconcilers a = a_reconcilers b"
  shows "converging env a cl view = converging env b cl view"
proof -
  have sp: "send_patch a cl g old new ty p st = send_patch b cl g old new ty p st" for g old new ty p st
    using assms by (simp add: send_patch_def)
  have ap: "applyPatch env a cl g old new st = applyPatch env b cl g old new st" for g old new st
    unfolding applyPatch_def assms sp ..
  have "compareObjects env a cl g old new st = compareObjects env b cl g old new st" for g old new st
    unfolding compareObjects_def assms ap ..
  then show ?thesis using assms by (simp add: converging_def never_handles_def never_replaces_def)
qed

text \<open>
  A server and libraries that do: texts are the owner's label, a patch is the wanted text, and the server
  sets the label from it.
\<close>

definition label_text :: "kobject \<Rightarrow> gostring" where
  "label_text ob = CHR ''#'' # (case map_of (k_labels ob) LabelHash of None \<Rightarrow> ''n'' | Some h \<Rightarrow> CHR ''+'' # h)"

definition set_label :: "gostring \<Rightarrow> (gostring, gostring) gomap \<Rightarrow> (gostring, gostring) gomap" where
  "set_label p l = (case p of _ # c # h \<Rightarrow>
       if c = CHR ''+'' then AList.update LabelHash h l else if c = CHR ''n'' then AList.delete LabelHash l else l
     | _ \<Rightarrow> l)"

definition sync_env :: apply_env where
  "sync_env = ex_env\<lparr>ae_marshal := (\<lambda>ob. Inr (label_text ob))\<rparr>"

definition relabel :: "kobject \<Rightarrow> gostring \<Rightarrow> kobject \<Rightarrow> kobject" where
  "relabel ob p x = (if k_gvk x = k_gvk ob \<and> object_key x = object_key ob then x\<lparr>k_labels := set_label p (k_labels x)\<rparr> else x)"

definition sync_client :: "kobject list kclient" where
  "sync_client = srv_client\<lparr>cl_patch := (\<lambda>ob ty p w. ((None, ob), map (relabel ob p) w))\<rparr>"

lemma sync_env_simps [simp]:
  "ae_scheme sync_env = ex_scheme" "ae_codec sync_env = ex_codec" "ae_marshal sync_env ob = Inr (label_text ob)"
  "ae_requirement sync_env = ae_requirement ex_env" "ae_nested sync_env = ae_nested ex_env"
  by (simp_all add: sync_env_def)

lemma sync_prepare: "\<exists>obj. prepareObjectForCreate sync_env g v True = Inr obj"
  by (simp add: prepareObjectForCreate_def serializeApplied_def ToMapInterface_def sync_env_def ex_env_def Let_def)

lemma prepared_text: "prepareObjectForCreate env g v True = Inr obj \<Longrightarrow> label_text obj = label_text v"
  by (simp add: label_text_def prepared_same(4))

lemma sync_original: "\<exists>original. originalAndModified sync_env g x v = Inr (original, label_text v)"
proof -
  obtain obj where obj: "prepareObjectForCreate sync_env g v True = Inr obj" using sync_prepare by blast
  have "\<exists>r. getOriginalObject sync_env g x = Inr r"
  proof (cases "appliedFromAnnotation ex_codec (gm_str (k_annotations x) LabelApplied) = []")
    case True
    then show ?thesis by (simp add: getOriginalObject_def)
  next
    case False
    obtain m where m: "unmarshal_map ex_codec (appliedFromAnnotation ex_codec (gm_str (k_annotations x) LabelApplied)) = Inr m"
      by (simp add: ex_codec_def)
    obtain m' d where "removeMetadataFields m = (m', d)" by fastforce
    with False m sync_prepare [of g "ae_from_map sync_env m'"] show ?thesis
      by (auto simp: getOriginalObject_def Let_def)
  qed
  then obtain r where r: "getOriginalObject sync_env g x = Inr r" by blast
  show ?thesis
    using obj prepared_text [OF obj] r by (auto simp: originalAndModified_def getOriginalBytes_def split: option.split)
qed

lemma sync_patch: "fst (createPatch sync_env g original modified current []) =
    Inr (MergePatchType, if modified = current then ''{}'' else modified)"
  by (simp add: createPatch_def getMergeStyle_def sync_env_def ex_env_def Let_def)

lemma label_text_sanitized: "sanitizePatch ex_codec (ae_nested ex_env) (label_text v) False = Inr (label_text v)"
  by (simp add: sanitizePatch_def label_text_def ex_codec_def removeMetadataFields_def drop_key_def emptyMaps_def Let_def split: option.split)

lemma label_text_eq: "label_text x = label_text v \<longleftrightarrow> map_of (k_labels x) LabelHash = map_of (k_labels v) LabelHash"
  by (simp add: label_text_def split: option.split)

lemma label_text_not_empty: "label_text v \<noteq> ''{}''"
  by (simp add: label_text_def)

lemma sync_iff: "in_sync sync_env g x v \<longleftrightarrow> map_of (k_labels x) LabelHash = map_of (k_labels v) LabelHash"
proof -
  obtain original where o: "originalAndModified sync_env g x v = Inr (original, label_text v)" using sync_original by blast
  have "in_sync sync_env g x v \<longleftrightarrow> label_text v = label_text x"
    by (auto simp: in_sync_def o sync_patch label_text_sanitized label_text_not_empty)
  then show ?thesis using label_text_eq by metis
qed

lemma set_label_text: "map_of (set_label (label_text v) l) LabelHash = map_of (k_labels v) LabelHash"
  by (simp add: set_label_def label_text_def split: option.split)

lemma relabel_same [simp]:
  "k_gvk (relabel ob p x) = k_gvk x" "object_key (relabel ob p x) = object_key x"
  "k_deletionTimestamp (relabel ob p x) = k_deletionTimestamp x"
  by (simp_all add: relabel_def object_key_def)

lemma srv_view_relabel: "srv_view (map (relabel ob p) w) g k = map_option (relabel ob p) (srv_view w g k)"
  by (induction w) (simp_all add: srv_view_def)

lemma relabel_other: "(g, k) \<noteq> (k_gvk ob, object_key ob) \<Longrightarrow> srv_view (map (relabel ob p) w) g k = srv_view w g k"
proof (cases "srv_view w g k")
  case (Some x)
  then have "k_gvk x = g" "object_key x = k" by (auto simp: srv_view_def find_Some_iff)
  moreover assume "(g, k) \<noteq> (k_gvk ob, object_key ob)"
  ultimately show ?thesis unfolding srv_view_relabel Some by (auto simp: relabel_def)
qed (simp add: srv_view_relabel)

lemma sync_serves: "serves ex_scheme sync_client srv_view"
proof -
  have "patch_served ex_scheme sync_client srv_view"
    unfolding patch_served_def
  proof (intro allI impI)
    fix ob ty p w r w' g
    assume c: "cl_patch sync_client ob ty p w = (r, w')" and "sent_as ex_scheme ob g"
    then have g: "k_gvk ob = g" by (auto simp: sent_as_def)
    have w': "w' = map (relabel ob p) w" using c by (simp add: sync_client_def)
    have "only_at g (object_key ob) (srv_view w) (srv_view w')"
      unfolding only_at_def w' using relabel_other g by blast
    moreover have "alive (srv_view w) g (object_key ob) \<longrightarrow> alive (srv_view w') g (object_key ob)"
      unfolding w' alive_def srv_view_relabel by auto
    ultimately show "only_at g (object_key ob) (srv_view w) (srv_view w') \<and>
      (alive (srv_view w) g (object_key ob) \<longrightarrow> alive (srv_view w') g (object_key ob))" by blast
  qed
  with srv_serves show ?thesis
    unfolding serves_def get_served_def list_served_def create_served_def delete_served_def
    by (simp add: sync_client_def)
qed

lemma sync_create: "create_synced sync_env sync_client srv_view"
  unfolding create_synced_def
proof (intro conjI allI impI)
  fix v g obj w ob' w' x
  assume p: "prepareObjectForCreate sync_env g v True = Inr obj" and c: "cl_create sync_client obj w = ((None, ob'), w')"
    and x: "srv_view w' g (object_key obj) = Some x"
  have "k_gvk obj = g" by (rule prepareObjectForCreate_eq [OF p]) simp
  moreover have "w' = obj\<lparr>k_deletionTimestamp := None\<rparr> # w"
    using c by (auto simp: sync_client_def srv_client_def split: if_splits)
  ultimately have "x = obj\<lparr>k_deletionTimestamp := None\<rparr>" using x by (simp add: srv_view_def object_key_def)
  then show "in_sync sync_env g x v" using prepared_same(4) [OF p] by (simp add: sync_iff)
next
  fix ob w e ob' w'
  assume "cl_create sync_client ob w = ((Some e, ob'), w')"
  then show "ob' = ob" by (auto simp: sync_client_def srv_client_def split: if_splits)
qed

lemma sync_patched: "patch_synced sync_env sync_client srv_view"
  unfolding patch_synced_def
proof (intro allI impI)
  fix old v g original modified current ty p patch ob w r w' x
  assume om: "originalAndModified sync_env g old v = Inr (original, modified)" and cur: "ae_marshal sync_env old = Inr current"
    and p: "fst (createPatch sync_env g original modified current []) = Inr (ty, p)"
    and sp: "sanitizePatch (ae_codec sync_env) (ae_nested sync_env) p False = Inr patch"
    and old: "srv_view w g (object_key old) = Some old" and ob: "object_key ob = object_key old"
    and sent: "sent_as (ae_scheme sync_env) ob g" and c: "cl_patch sync_client ob ty patch w = ((None, r), w')"
    and x: "srv_view w' g (object_key old) = Some x"
  have md: "modified = label_text v" using om sync_original [of g old v] by auto
  have g: "k_gvk ob = g" "k_gvk old = g"
    using sent old by (auto simp: sent_as_def srv_view_def find_Some_iff)
  have "w' = map (relabel ob patch) w" using c by (auto simp: sync_client_def)
  with x old srv_view_relabel have "x = relabel ob patch old" by simp
  then have labels: "k_labels x = set_label patch (k_labels old)" using g ob by (simp add: relabel_def)
  show "in_sync sync_env g x v"
  proof (cases "label_text v = label_text old")
    case True
    with p cur md have "p = ''{}''" by (simp add: sync_patch)
    with sp have "patch = ''{}''"
      by (simp add: sanitizePatch_def ex_codec_def removeMetadataFields_def drop_key_def emptyMaps_def Let_def)
    with labels True label_text_eq [of v old] show ?thesis by (simp add: sync_iff set_label_def)
  next
    case False
    with p cur md have "p = label_text v" by (simp add: sync_patch)
    with sp label_text_sanitized have "patch = label_text v" by simp
    with labels set_label_text show ?thesis by (simp add: sync_iff)
  qed
qed

lemma sync_compare: "fst (compareObjects sync_env rec_cfg sync_client g old new st) = None"
proof -
  obtain original where o: "originalAndModified sync_env g old new = Inr (original, label_text new)" using sync_original by blast
  have ens: "\<not> a_ensure rec_cfg" by code_simp
  have rec: "a_reconcilers rec_cfg = []" by code_simp
  have "\<exists>ty p c. createPatch sync_env g original (label_text new) (label_text old) (as_patchCache st) = (Inr (ty, p), c) \<and>
      p \<in> {''{}'', label_text new}"
    by (auto simp: createPatch_def getMergeStyle_def sync_env_def ex_env_def Let_def split: option.split)
  then obtain ty p c where cp: "createPatch sync_env g original (label_text new) (label_text old) (as_patchCache st) = (Inr (ty, p), c)"
    "p = ''{}'' \<or> p = label_text new" by blast
  have cl: "cl_patch sync_client ob ty p w = ((None, ob), map (relabel ob p) w)" for ob ty p w by (simp add: sync_client_def)
  have "snd (fst (applyPatch sync_env rec_cfg sync_client g old new st)) = None"
    using o cp ens rec
    by (auto simp: cl applyPatch_def Let_def label_text_sanitized label_text_not_empty send_patch_def split: prod.split)
  then show ?thesis
    using ens by (auto simp: compareObjects_def split: prod.split option.split)
qed

lemma sync_converging: "converging sync_env rec_cfg sync_client srv_view"
proof -
  have "reads_work sync_client" by (simp add: reads_work_def sync_client_def srv_client_def)
  moreover have "sync_labels sync_env" by (simp add: sync_labels_def sync_iff)
  moreover have "requirement_exact sync_env" by (auto simp: requirement_exact_def ex_env_def)
  moreover have "never_handles rec_cfg"
  proof -
    have "a_reconcilers rec_cfg = []" by code_simp
    then show ?thesis by (simp add: never_handles_def)
  qed
  moreover have "never_replaces sync_env rec_cfg sync_client" by (simp add: never_replaces_def sync_compare)
  moreover have "kinds_fixed (ae_scheme sync_env)" by (auto simp: kinds_fixed_def)
  ultimately show ?thesis
    using sync_serves sync_create sync_patched by (simp add: converging_def)
qed

lemma sync_runs: "fst (apply_set sync_env rec_cfg sync_client [] rec_set rec_state) = None"
  by code_simp

lemma apply_converges_witness:
  "\<exists>st' st''. apply_set sync_env rec_cfg sync_client [] rec_set rec_state = (None, st') \<and>
     apply_set sync_env rec_cfg sync_client [] rec_set st' = (None, st'') \<and> as_world st'' = as_world st'"
proof -
  obtain st' where run: "apply_set sync_env rec_cfg sync_client [] rec_set rec_state = (None, st')"
    using prod.collapse [of "apply_set sync_env rec_cfg sync_client [] rec_set rec_state"] by (metis (no_types) sync_runs)
  have 1: "\<not> a_ensure rec_cfg" "distinct (knownGVK rec_cfg)" "a_listerNamespace rec_cfg = []" "a_ownerSubContext rec_cfg \<noteq> []"
    by code_simp+
  have 2: "NewObjectSet (ae_scheme sync_env) [Some (ex_obj ''ns'' ''a'')] = (rec_set, None)"
    by code_simp
  have 3: "\<forall>ob. Some ob \<in> set [Some (ex_obj ''ns'' ''a'')] \<longrightarrow> k_name ob \<noteq> [] \<and> should ob AnnotationCreate \<and> should ob AnnotationUpdate"
    by (simp add: ex_obj_def zero_object_def should_def gm_str_def)
  have 4: "\<forall>g k x. srv_view (as_world rec_state) g k = Some x \<longrightarrow>
      given (ae_scheme sync_env) [Some (ex_obj ''ns'' ''a'')] g (ok_name k) \<longrightarrow> \<not> terminating x"
    by (simp add: rec_state_def srv_view_def rec_stray_def ex_obj_def zero_object_def)
  have 5: "cache_sound sync_env (as_patchCache rec_state)" by (simp add: rec_state_def cache_sound_Nil)
  from apply_converges [OF sync_converging 1(1-3) _ 2 3 4 5 run] 1(4) run show ?thesis by blast
qed

section \<open>Saving again\<close>


text \<open>The owner's handler produced object \<open>a\<close>; object \<open>z\<close> is deleted by the first save.\<close>

definition again_set :: "kobject list handler_set" where
  "again_set = sv_set\<lparr>h_apply_env := sync_env, h_backend := (h_backend sv_set)\<lparr>b_client := sync_client\<rparr>\<rparr>"

lemma again_runs:
  "fst (run_apply again_set (save_config again_set sv_response [ex_gvk]) (Some ex_owner) (r_objects sv_response) sv_state) = None"
  by code_simp


end
