(* ===== verification/Recents.thy ===== *)
theory Recents
  imports CachedClientProperties
begin

text \<open>
  The life of the table of recent objects in pkg/runtime/cached.go: writes and deletions of any clients of the
  process come in while the goroutine of \<open>startPurge\<close> wakes up every \<open>cacheDuration\<close> and drops what is
  old. How long an object is remembered, and what a reader sees whatever happens between the write
  and the read.
\<close>

section \<open>The table over time\<close>

text \<open>
  \<open>rt_tick\<close> is the time of the last round of the purge, \<open>rt_running\<close> whether its context is still open.
\<close>

record recent_table =
  rt_now :: int
  rt_tick :: int
  rt_running :: bool
  rt_recent :: recents

definition newCacheClient :: "int \<Rightarrow> recent_table" where
  "newCacheClient now = \<lparr>rt_now = now, rt_tick = now, rt_running = True, rt_recent = []\<rparr>"

text \<open>
  The steps: a client stores what it wrote or drops what it deleted, time passes, and the purge makes a round
  or ends. The purge waits \<open>cacheDuration\<close> between two rounds and is late by at most \<open>slack\<close>: its
  loop is the three rules about \<open>rt_tick\<close> and \<open>rt_running\<close>.
\<close>

inductive recent_step :: "'w cacheClient \<Rightarrow> int \<Rightarrow> recent_table \<Rightarrow> recent_table \<Rightarrow> bool" for c :: "'w cacheClient" and slack :: int where
  stored: "recent_step c slack t (t\<lparr>rt_recent := store c (rt_now t) x s (rt_recent t)\<rparr>)"
| dropped: "recent_step c slack t (t\<lparr>rt_recent := deleteStore c ob (rt_recent t)\<rparr>)"
| passed: "0 \<le> d \<Longrightarrow> rt_running t \<longrightarrow> rt_now t + d \<le> rt_tick t + cacheDuration + slack \<Longrightarrow>
    recent_step c slack t (t\<lparr>rt_now := rt_now t + d\<rparr>)"
| purged: "rt_running t \<Longrightarrow> rt_tick t + cacheDuration \<le> rt_now t \<Longrightarrow>
    recent_step c slack t (t\<lparr>rt_tick := rt_now t, rt_recent := purge (rt_now t) (rt_recent t)\<rparr>)"
| stopped: "recent_step c slack t (t\<lparr>rt_running := False\<rparr>)"

inductive recent_reach :: "'w cacheClient \<Rightarrow> int \<Rightarrow> recent_table \<Rightarrow> recent_table \<Rightarrow> bool" for c :: "'w cacheClient" and slack :: int and t0 :: recent_table where
  start: "recent_reach c slack t0 t0"
| step: "recent_reach c slack t0 t \<Longrightarrow> recent_step c slack t t' \<Longrightarrow> recent_reach c slack t0 t'"

section \<open>How long an object is remembered\<close>

text \<open>An entry is not from the future, and was young enough when the purge last looked.\<close>

definition entry_ok :: "recent_table \<Rightarrow> objectValue \<Rightarrow> bool" where
  "entry_ok t v \<longleftrightarrow> ov_Inserted v \<le> rt_now t \<and> rt_tick t \<le> ov_Inserted v + cacheDuration"

abbreviation entries :: "recents \<Rightarrow> objectValue set" where
  "entries m \<equiv> snd ` set m"

definition recent_inv :: "int \<Rightarrow> recent_table \<Rightarrow> bool" where
  "recent_inv slack t \<longleftrightarrow> gm_ok (rt_recent t) \<and> rt_tick t \<le> rt_now t \<and>
     (rt_running t \<longrightarrow> rt_now t \<le> rt_tick t + cacheDuration + slack) \<and> Ball (entries (rt_recent t)) (entry_ok t)"

lemma entries_update: "entries (AList.update k x m) \<subseteq> insert x (entries m)"
  by (induction m) auto

lemma entries_store: "v \<in> entries (store c now x s m) \<Longrightarrow> ov_Inserted v = now \<or> v \<in> entries m"
proof (cases "gvk_for (cc_scheme c) (deref s x)")
  case (Inr g)
  assume "v \<in> entries (store c now x s m)"
  then have "v \<in> insert \<lparr>ov_Object = x, ov_Inserted = now\<rparr> (entries m)"
    using entries_update [of "key_of g (deref s x)" _ m] by (auto simp: store_def Inr)
  then show ?thesis by auto
qed (simp add: store_def)

lemma entries_deleteStore: "entries (deleteStore c ob m) \<subseteq> entries m"
  by (auto simp: deleteStore_def AList.delete_eq split: sum.split)

lemma entries_purge: "v \<in> entries (purge now m) \<Longrightarrow> v \<in> entries m \<and> now \<le> ov_Inserted v + cacheDuration"
  by (auto simp: purge_def)

lemma store_ok: "gm_ok m \<Longrightarrow> gm_ok (store c now x s m)"
  by (simp add: store_def split: sum.split)

lemma deleteStore_ok: "gm_ok m \<Longrightarrow> gm_ok (deleteStore c ob m)"
  by (simp add: deleteStore_def split: sum.split)

lemma purge_ok: "gm_ok m \<Longrightarrow> gm_ok (purge now m)"
  unfolding purge_def gm_ok_def by (rule distinct_map_filter)

lemma recent_inv_step:
  assumes "recent_step c slack t t'" and "recent_inv slack t" and "0 \<le> slack"
  shows "recent_inv slack t'"
proof -
  from assms(2) have I: "gm_ok (rt_recent t)" "rt_tick t \<le> rt_now t" "Ball (entries (rt_recent t)) (entry_ok t)"
    "rt_running t \<Longrightarrow> rt_now t \<le> rt_tick t + cacheDuration + slack"
    by (simp_all add: recent_inv_def)
  from assms(1) show ?thesis
  proof cases
    case (stored x s)
    have "entry_ok t' v" if "v \<in> entries (rt_recent t')" for v
    proof -
      have "ov_Inserted v = rt_now t \<or> entry_ok t v"
        using that entries_store I(3) unfolding stored by fastforce
      with stored I(2) show ?thesis by (auto simp: entry_ok_def cacheDuration_def)
    qed
    with stored I store_ok show ?thesis by (simp add: recent_inv_def)
  next
    case (dropped ob)
    have "entry_ok t' v" if "v \<in> entries (rt_recent t')" for v
    proof -
      have "v \<in> entries (deleteStore c ob (rt_recent t))" using that dropped by simp
      then have "v \<in> entries (rt_recent t)" using entries_deleteStore by blast
      with I(3) have "entry_ok t v" by (rule bspec)
      with dropped show ?thesis by (simp add: entry_ok_def)
    qed
    with dropped I deleteStore_ok show ?thesis by (simp add: recent_inv_def)
  next
    case (passed d)
    have "entry_ok t' v" if "v \<in> entries (rt_recent t')" for v
    proof -
      have "v \<in> entries (rt_recent t)" using that passed(1) by simp
      with I(3) have "entry_ok t v" by (rule bspec)
      with passed show ?thesis by (simp add: entry_ok_def)
    qed
    with passed I show ?thesis by (simp add: recent_inv_def)
  next
    case purged
    have "entry_ok t' v" if "v \<in> entries (rt_recent t')" for v
    proof -
      have v: "v \<in> entries (purge (rt_now t) (rt_recent t))" using that purged(1) by simp
      from entries_purge [OF v] have "entry_ok t v" "rt_now t \<le> ov_Inserted v + cacheDuration" using I(3) by blast+
      with purged(1) show ?thesis by (simp add: entry_ok_def)
    qed
    with purged I assms(3) purge_ok show ?thesis by (simp add: recent_inv_def cacheDuration_def)
  next
    case stopped
    with I show ?thesis by (simp add: recent_inv_def entry_ok_def)
  qed
qed

lemma recent_inv_reach:
  assumes "recent_reach c slack t0 t" and "recent_inv slack t0" and "0 \<le> slack"
  shows "recent_inv slack t"
  using assms by (induction) (auto intro: recent_inv_step)

lemma recent_inv_new: "0 \<le> slack \<Longrightarrow> recent_inv slack (newCacheClient now)"
  by (simp add: recent_inv_def newCacheClient_def cacheDuration_def)



section \<open>Reading what was written, whatever happens\<close>

text \<open>A run in which the entry of a key is only looked at: nobody writes or deletes the object.\<close>

inductive untouched :: "'w cacheClient \<Rightarrow> int \<Rightarrow> objectKey \<Rightarrow> recent_table \<Rightarrow> recent_table \<Rightarrow> bool" for c :: "'w cacheClient" and slack :: int and k :: objectKey where
  stay: "untouched c slack k t t"
| other: "untouched c slack k t u \<Longrightarrow> recent_step c slack u u' \<Longrightarrow>
    rt_recent u' = purge (rt_now u) (rt_recent u) \<or> map_of (rt_recent u') k = map_of (rt_recent u) k \<Longrightarrow> untouched c slack k t u'"

lemma recent_step_time: "recent_step c slack t t' \<Longrightarrow> rt_now t \<le> rt_now t'"
  by (induction rule: recent_step.induct) simp_all

lemma untouched_time: "untouched c slack k t u \<Longrightarrow> rt_now t \<le> rt_now u"
  by (induction rule: untouched.induct) (auto dest: recent_step_time)

lemma untouched_kept:
  assumes "untouched c slack k t u" and "gm_ok (rt_recent t)" and "map_of (rt_recent t) k = Some v"
    and "rt_now u \<le> ov_Inserted v + cacheDuration"
  shows "gm_ok (rt_recent u) \<and> map_of (rt_recent u) k = Some v"
  using assms
proof (induction rule: untouched.induct)
  case (other t u u')
  have "rt_now u \<le> rt_now u'" by (rule recent_step_time [OF other.hyps(2)])
  with other.prems(3) have u: "rt_now u \<le> ov_Inserted v + cacheDuration" by simp
  with other have ih: "gm_ok (rt_recent u)" "map_of (rt_recent u) k = Some v" by simp_all
  have "gm_ok (rt_recent u')"
    using other.hyps(2) ih(1) by (cases rule: recent_step.cases) (simp_all add: store_ok deleteStore_ok purge_ok)
  moreover have "map_of (rt_recent u') k = Some v"
    using other.hyps(3) ih u by (auto simp: purge_def intro!: map_of_filter_keep)
  ultimately show ?case by blast
qed simp



end
