(* ===== verification/Changes.thy ===== *)
theory Changes
  imports Reconciliation
begin

text \<open>
  A whole change, from \<open>HandlerSet.onChange\<close> (pkg/router/handler.go) to the cluster: the key passes the limiter,
  the object is read, the handlers run, the triggers fire, what was produced is applied
  (\<open>save_reconciles\<close>) and the status of the object is stored. The steps around the apply are shown to
  leave it alone.
\<close>

section \<open>Steps that leave the cluster alone\<close>

text \<open>
  Triggering a key and watching a kind change no object of the cluster; storing the status changes the status of
  the object it is given, creates and deletes nothing.
\<close>

definition quiet :: "'w backend \<Rightarrow> ('w \<Rightarrow> cluster) \<Rightarrow> bool" where
  "quiet b view \<longleftrightarrow>
     (\<forall>g k d w. view (snd (b_trigger b g k d w)) = view w) \<and> (\<forall>g w. view (snd (b_watch b g w)) = view w)"

definition status_served :: "kscheme \<Rightarrow> 'w kclient \<Rightarrow> ('w \<Rightarrow> cluster) \<Rightarrow> bool" where
  "status_served sch cl view \<longleftrightarrow>
     (\<forall>ob w e ob' w' g. cl_status_update cl ob w = ((e, ob'), w') \<longrightarrow> sent_as sch ob g \<longrightarrow>
        only_at g (object_key ob) (view w) (view w') \<and>
        map_option k_deletionTimestamp (view w' g (object_key ob)) = map_option k_deletionTimestamp (view w g (object_key ob)) \<and>
        (\<forall>x. e = None \<longrightarrow> view w' g (object_key ob) = Some x \<longrightarrow> k_status x = k_status ob))"

lemma quiet_fires: "quiet b view \<Longrightarrow> view (fold (fire (b_trigger b)) ts w) = view w"
  by (induction ts arbitrary: w) (simp_all add: quiet_def fire_def)

lemma quiet_fire_triggers:
  assumes "quiet (h_backend h) view"
  shows "view (rs_world (fire_triggers h False req s)) = view (rs_world s)"
    and "rs_heap (fire_triggers h False req s) = rs_heap s" and "rs_watching (fire_triggers h False req s) = rs_watching s"
  using quiet_fires [OF assms] by (simp_all add: fire_triggers_def triggers_Trigger_def invokeTriggers_fired Let_def)

lemma quiet_watch_each:
  "quiet b view \<Longrightarrow> view (rs_world (snd (watch_each b gs s))) = view (rs_world s) \<and> rs_heap (snd (watch_each b gs s)) = rs_heap s"
proof (induction b gs s rule: watch_each.induct)
  case (2 b g gs s)
  have w: "view (snd (b_watch b g (rs_world s))) = view (rs_world s)" using 2(4) by (simp add: quiet_def)
  show ?case
    using 2 w by (cases "b_watch b g (rs_world s)") (auto split: option.split prod.split)
qed simp

lemma quiet_registry_Watch:
  assumes "quiet b view" and "registry_Watch b g key arg ns name sel fsel s = (e, s')"
  shows "view (rs_world s') = view (rs_world s) \<and> rs_heap s' = rs_heap s"
proof -
  have "view (rs_world (snd (WatchGVK b gs q))) = view (rs_world q) \<and> rs_heap (snd (WatchGVK b gs q)) = rs_heap q" for gs q
    using quiet_watch_each [OF assms(1), of gs q] by (cases "watch_each b gs q") (simp add: WatchGVK_def)
  then have watch: "WatchGVK b gs q = (e, q') \<Longrightarrow> view (rs_world q') = view (rs_world q) \<and> rs_heap q' = rs_heap q" for gs q e q'
    by (metis snd_conv)
  have "view (rs_world q') = view (rs_world s) \<and> rs_heap q' = rs_heap s"
    if "triggers_Register (b_scheme b) (WatchGVK b) (\<lambda>m s. s\<lparr>rs_matchers := m\<rparr>) rs_matchers
      g key arg ns name sel fsel s = (r, q')" for r q'
    using that by (auto simp: triggers_Register_def Let_def dest: watch split: sum.splits prod.splits if_splits)
  then show ?thesis
    using assms(2) by (auto simp: registry_Watch_def split: prod.splits option.splits if_splits)
qed

lemma quiet_request_Get:
  assumes "quiet b view" and "get_served sch (b_client b) view" and "request_Get b req u ns n s = (e, s')"
  shows "view (rs_world s') = view (rs_world s)" and "y \<noteq> u \<Longrightarrow> deref s' y = deref s y"
proof -
  obtain e1 s1 where 1: "registry_Watch b (rq_gvk req) (rq_key req) (Direct (deref s u)) ns n None None s = (e1, s1)" by fastforce
  note q = quiet_registry_Watch [OF assms(1) 1]
  obtain r w where g: "cl_get (b_client b) (deref s1 u) ns n (rs_world s1) = (r, w)" by fastforce
  then have w: "view w = view (rs_world s1)" using assms(2) by (simp add: get_served_def)
  show "view (rs_world s') = view (rs_world s)"
    using assms(3) 1 g q w
    by (auto simp: request_Get_def reader_Get_def tracked_def run_get_def assign_def split: option.splits sum.splits)
  show "deref s' y = deref s y" if "y \<noteq> u"
    using assms(3) 1 g q that
    by (auto simp: request_Get_def reader_Get_def tracked_def run_get_def assign_def deref_def split: option.splits sum.splits)
qed

section \<open>The status\<close>

lemma status_written:
  assumes "status_served sch (b_client b) view" and "run_write (cl_status_update (b_client b)) y s = (e, s')"
    and "gvk_for sch (deref s y) = Inr g"
  shows "only_at g (object_key (deref s y)) (view (rs_world s)) (view (rs_world s'))"
    and "map_option k_deletionTimestamp (view (rs_world s') g (object_key (deref s y))) =
      map_option k_deletionTimestamp (view (rs_world s) g (object_key (deref s y)))"
    and "e = None \<Longrightarrow> view (rs_world s') g (object_key (deref s y)) = Some x \<Longrightarrow> k_status x = k_status (deref s y)"
proof -
  obtain ob w where u: "cl_status_update (b_client b) (deref s y) (rs_world s) = ((e, ob), w)"
    and w: "rs_world s' = w"
    using assms(2) by (auto simp: run_write_def assign_def split: prod.splits)
  have "sent_as sch (deref s y) g" using assms(3) by (simp add: sent_as_def)
  note l = assms(1) [unfolded status_served_def, rule_format, OF u this]
  show "only_at g (object_key (deref s y)) (view (rs_world s)) (view (rs_world s'))"
    and "map_option k_deletionTimestamp (view (rs_world s') g (object_key (deref s y))) =
      map_option k_deletionTimestamp (view (rs_world s) g (object_key (deref s y)))"
    and "e = None \<Longrightarrow> view (rs_world s') g (object_key (deref s y)) = Some x \<Longrightarrow> k_status x = k_status (deref s y)"
    using l by (simp_all add: w)
qed

lemma save_status_effect:
  assumes q: "quiet (h_backend h) view" and gs: "get_served sch (b_client (h_backend h)) view"
    and ss: "status_served sch (b_client (h_backend h)) view"
    and y: "rq_object req = Some y" "u \<noteq> y" "gvk_for sch (deref s y) = Inr g" "key = object_key (deref s y)"
    and run: "save_status h (Some u) req s = ((res, None), s')"
  shows "only_at g key (view (rs_world s)) (view (rs_world s'))"
    and "map_option k_deletionTimestamp (view (rs_world s') g key) = map_option k_deletionTimestamp (view (rs_world s) g key)"
    and "StatusChanged (h_sem_eq h) (deref s u) (deref s y) \<Longrightarrow> k_generation (deref s u) = k_generation (deref s y) \<Longrightarrow>
      view (rs_world s') g key = Some x \<Longrightarrow> k_status x = k_status (deref s y)"
proof -
  let ?b = "h_backend h" and ?upd = "\<lambda>t. run_write (cl_status_update (b_client (h_backend h))) y t"
  have "(view (rs_world s') = view (rs_world s) \<and>
        \<not> (StatusChanged (h_sem_eq h) (deref s u) (deref s y) \<and> k_generation (deref s u) = k_generation (deref s y))) \<or>
      (\<exists>t. view (rs_world t) = view (rs_world s) \<and> deref t y = deref s y \<and> ?upd t = (None, s'))"
  proof (cases "StatusChanged (h_sem_eq h) (deref s u) (deref s y) \<and> k_generation (deref s u) \<noteq> k_generation (deref s y)")
    case True
    obtain e1 s1 where g1: "request_Get ?b req u (k_namespace (deref s u)) (k_name (deref s u)) s = (e1, s1)" by fastforce
    note k = quiet_request_Get(1) [OF q gs g1] quiet_request_Get(2) [OF q gs g1, of y]
    show ?thesis
      using run True g1 k y(1,2)
      by (auto simp: save_status_def Let_def split: option.splits if_splits prod.splits)
  next
    case False
    then show ?thesis
      using run y(1) by (auto simp: save_status_def Let_def split: if_splits prod.splits)
  qed
  then show "only_at g key (view (rs_world s)) (view (rs_world s'))"
    and "map_option k_deletionTimestamp (view (rs_world s') g key) = map_option k_deletionTimestamp (view (rs_world s) g key)"
    and "StatusChanged (h_sem_eq h) (deref s u) (deref s y) \<Longrightarrow> k_generation (deref s u) = k_generation (deref s y) \<Longrightarrow>
      view (rs_world s') g key = Some x \<Longrightarrow> k_status x = k_status (deref s y)"
    using y(3) status_written [OF ss, of y _ None s' g, folded y(4)] unfolding y(4) by (metis only_at_refl)+
qed

text \<open>Two clusters that agree but for the contents of one object that both have or both are deleting.\<close>

lemma same_objects:
  assumes "only_at og ok T S" and "map_option k_deletionTimestamp (S og ok) = map_option k_deletionTimestamp (T og ok)"
  shows "S g k = None \<longleftrightarrow> T g k = None" and "gone S g k = gone T g k"
proof -
  have other: "S g k = T g k" if "(g, k) \<noteq> (og, ok)" using assms(1) that by (simp add: only_at_def)
  show "S g k = None \<longleftrightarrow> T g k = None"
    using other assms(2) by (cases "(g, k) = (og, ok)") (auto simp: map_option_case split: option.splits)
  show "gone S g k = gone T g k"
    using other assms(2) by (cases "(g, k) = (og, ok)") (auto simp: gone_def map_option_case split: option.splits)
qed

section \<open>The whole change\<close>

lemma run_apply_owner:
  assumes "run_apply h a (Some owner) objs s = (None, s')"
  shows "\<exists>g. gvk_for (ae_scheme (h_apply_env h)) owner = Inr g" and "rs_heap (hs_r s') = rs_heap (hs_r s)"
  using assms by (auto simp: run_apply_def Apply_def Let_def split: prod.splits sum.splits)

lemma produced_heap: "rs_heap (hs_r s) = rs_heap (hs_r s') \<Longrightarrow> produced h s = produced h s'"
  by (simp add: produced_def deref_def fun_eq_iff)

text \<open>A change without error went through an apply and a status without error.\<close>

lemma handle_saved:
  assumes q: "quiet (h_backend h) view" and "h_onError h = None" and "newRequestResponse g key (Some x) trigger (hs_r s) = (req, r, s1)"
    and "handlers_Handles (h_handlers h) req" and "handlers_Handle (h_handlers h) req r s1 = (None, r1, s2)"
    and "rq_object req = Some y" and "handle h g key (Some x) trigger s = ((res, None), s')"
  obtains s4 res1 s5 where "run_apply h (save_config h r1 (gm_keys (rs_watching s2))) (Some (deref s2 y)) (r_objects r1)
      (s\<lparr>hs_r := fire_triggers h False req s2\<rparr>) = (None, s4)"
    and "save_status h (Some x) req (hs_r s4) = ((res1, None), s5)"
    and "view (rs_world (hs_r s')) = view (rs_world s5)"
proof -
  let ?s3 = "s\<lparr>hs_r := fire_triggers h False req s2\<rparr>" and ?gs = "gm_keys (rs_watching s2)"
  note f = quiet_fire_triggers [OF q, of req s2]
  have d: "deref (fire_triggers h False req s2) = deref s2" using f(2) by (simp add: deref_def fun_eq_iff)
  obtain out s6 where sr: "save_and_retry h (Some x) req r1 ?s3 = (out, s6)" by fastforce
  have inr: "\<exists>req1 r2. out = Inr (req1, r2)" and fin: "hs_r s' = hs_r s6"
    using assms(2-5,7) sr by (auto simp: handle_def run_handlers_def handleError_def Let_def split: sum.splits)
  obtain res1 e s7 where sv: "save h (Some x) req r1 ?gs ?s3 = ((res1, e), s7)" by (metis surj_pair)
  have e: "e = None" and w: "view (rs_world (hs_r s6)) = view (rs_world (hs_r s7))"
    using sr inr sv f(3) q assms(2)
    by (auto simp: save_and_retry_def handleError_def Let_def quiet_def split: option.splits prod.splits if_splits)
       (metis snd_conv)+
  obtain e4 s4 where ra: "run_apply h (save_config h r1 ?gs) (Some (deref s2 y)) (r_objects r1) ?s3 = (e4, s4)" by fastforce
  obtain r8 s8 where ss: "save_status h (Some x) req (hs_r s4) = (r8, s8)" by fastforce
  have "e4 = None" "r8 = (res1, None)" "hs_r s7 = s8"
    using sv ra ss e assms(6) by (auto simp: save_def save_owner_def d split: option.splits)
  with ra ss w fin show thesis by (intro that) simp_all
qed


text \<open>
  The handler of the owner produces object \<open>a\<close> and sets the owner's status; object \<open>z\<close> was produced before.
  The server of \<open>srv_serves\<close> stores statuses, too.
\<close>

definition restatus :: "kobject \<Rightarrow> kobject \<Rightarrow> kobject" where
  "restatus ob x = (if k_gvk x = k_gvk ob \<and> object_key x = object_key ob then x\<lparr>k_status := k_status ob\<rparr> else x)"

definition ch_client :: "kobject list kclient" where
  "ch_client = srv_client\<lparr>cl_status_update := (\<lambda>ob w. ((None, ob), map (restatus ob) w))\<rparr>"

definition ch_handler :: "kobject list handler" where
  "ch_handler req resp s =
     (case alloc (ex_obj ''ns'' ''a'') s of (x, s1) \<Rightarrow>
       (None, Resp ((response_of resp)\<lparr>r_objects := [x]\<rparr>),
        (case rq_object req of None \<Rightarrow> s1 | Some y \<Rightarrow> assign y ((deref s1 y)\<lparr>k_status := Some JNull\<rparr>) s1)))"

definition ch_set :: "kobject list handler_set" where
  "ch_set = sv_set\<lparr>h_handlers := [(ex_gvk, [ch_handler])],
     h_backend := \<lparr>b_scheme = ex_scheme\<lparr>scheme_new := (\<lambda>g. NewObject (zero_object ''*unstructured.Unstructured'' g))\<rparr>,
       b_watch = (\<lambda>g w. (None, w)), b_trigger = (\<lambda>g k d w. (None, w)), b_client = ch_client\<rparr>\<rparr>"

definition ch_state :: "kobject list hs_state" where
  "ch_state = \<lparr>hs_r = \<lparr>rs_heap = (\<lambda>x. ex_owner), rs_next = 0, rs_matchers = [], rs_gvks = [], rs_watching = [(ex_gvk, True)],
     rs_world = [sv_stray, ex_owner]\<rparr>, hs_patchCache = []\<rparr>"

definition ch_read :: "kobject list rstate" where
  "ch_read = snd (refresh ch_set ex_gvk ''ns/app'' None (hs_r ch_state))"

definition ch_request :: "request \<times> response \<times> kobject list rstate" where
  "ch_request = newRequestResponse ex_gvk ''ns/app'' (Some 0) False ch_read"

definition ch_handled :: "err option \<times> response \<times> kobject list rstate" where
  "ch_handled = (case ch_request of (req, r, s1) \<Rightarrow> handlers_Handle (h_handlers ch_set) req r s1)"

lemma ch_facts:
  "fst (refresh ch_set ex_gvk ''ns/app'' None (hs_r ch_state)) = Inr (Some 0) \<and> 0 < rs_next ch_read \<and>
   rq_object (fst ch_request) = Some 1 \<and> handlers_Handles (h_handlers ch_set) (fst ch_request) \<and> fst ch_handled = None \<and>
   r_objects (fst (snd ch_handled)) = [2] \<and> \<not> r_noPrune (fst (snd ch_handled)) \<and> gm_keys (rs_watching (snd (snd ch_handled))) = [ex_gvk] \<and>
   deref (snd (snd ch_handled)) 2 = ex_obj ''ns'' ''a'' \<and> deref (snd (snd ch_handled)) 0 = ex_owner \<and>
   deref (snd (snd ch_handled)) 1 = ex_owner\<lparr>k_status := Some JNull\<rparr> \<and> rs_world (snd (snd ch_handled)) = [sv_stray, ex_owner] \<and>
   parse_key (ReplayPrefix @ ''ns/app'') = (False, True, ''ns/app'') \<and>
   srv_view [sv_stray, ex_owner] ex_gvk rec_key = Some sv_stray \<and> ok_name rec_key = ''z'' \<and>
   prunable (ae_codec (h_apply_env ch_set)) sv_stray \<and> should (ex_obj ''ns'' ''a'') AnnotationCreate"
  by code_simp

lemma ch_runs:
  "snd (fst (onChange 0 ex_limiter 0 ch_set ex_gvk (ReplayPrefix @ ''ns/app'') None (\<lparr>bo_limiters = [], bo_waiting = [], bo_sleepers = []\<rparr>, ch_state))) = None"
  by code_simp

lemma restatus_same [simp]:
  "k_gvk (restatus ob x) = k_gvk x" "object_key (restatus ob x) = object_key x"
  "k_deletionTimestamp (restatus ob x) = k_deletionTimestamp x"
  by (simp_all add: restatus_def object_key_def)

lemma srv_view_restatus: "srv_view (map (restatus ob) w) g k = map_option (restatus ob) (srv_view w g k)"
  by (induction w) (simp_all add: srv_view_def)

lemma ch_status_served: "status_served ex_scheme ch_client srv_view"
  unfolding status_served_def
proof (intro allI impI)
  fix ob w e ob' w' g
  assume c: "cl_status_update ch_client ob w = ((e, ob'), w')" and "sent_as ex_scheme ob g"
  then have g: "k_gvk ob = g" by (auto simp: sent_as_def)
  have w': "w' = map (restatus ob) w" using c by (auto simp: ch_client_def)
  have some: "srv_view w g k = Some x \<Longrightarrow> k_gvk x = g \<and> object_key x = k" for g k x
    by (auto simp: srv_view_def find_Some_iff)
  have "srv_view w' g' k' = srv_view w g' k'" if "(g', k') \<noteq> (g, object_key ob)" for g' k'
    using that some [of g' k'] by (cases "srv_view w g' k'") (auto simp: w' srv_view_restatus restatus_def g)
  moreover have "k_status x = k_status ob" if "srv_view w' g (object_key ob) = Some x" for x
    using that by (auto simp: w' srv_view_restatus restatus_def g dest: some)
  ultimately show "only_at g (object_key ob) (srv_view w) (srv_view w') \<and>
      map_option k_deletionTimestamp (srv_view w' g (object_key ob)) = map_option k_deletionTimestamp (srv_view w g (object_key ob)) \<and>
      (\<forall>x. e = None \<longrightarrow> srv_view w' g (object_key ob) = Some x \<longrightarrow> k_status x = k_status ob)"
    by (auto simp: only_at_def w' srv_view_restatus option.map_comp comp_def)
qed


end
