(* ===== verification/Tracking.thy ===== *)
theory Tracking
  imports Delivery
begin

text \<open>
  The life of a handler set: \<open>NewHandlerSet\<close> (pkg/router/handler.go), and what the requests after it do
  to its tables. Handlers are arbitrary functions in the model; those that reach the tables only through
  the client of their request are told apart by the relation \<open>tracks\<close>, and every change of a key
  is in it. So the tables of a handler set stay sound, and a watch lasts until it is taken out.
\<close>

section \<open>A new handler set\<close>

text \<open>
  \<open>NewHandlerSet\<close>: the scheme and the backend are its arguments, and all its tables are empty. What the
  libraries supply for the apply engine and the comparison of statuses come with the backend.
\<close>

definition NewHandlerSet ::
  "gostring \<Rightarrow> kscheme \<Rightarrow> 'w backend \<Rightarrow> (json option \<Rightarrow> json option \<Rightarrow> bool) \<Rightarrow> apply_env \<Rightarrow>
     (gvk, reconciler) gomap \<Rightarrow> (gostring, unit) gomap \<Rightarrow> 'w handler_set" where
  "NewHandlerSet name scheme backend sem_eq env reconcilers validOwnerChange =
     \<lparr>h_name = name, h_backend = backend\<lparr>b_scheme := scheme\<rparr>, h_handlers = [], h_onError = None,
      h_sem_eq = sem_eq, h_apply_env = env, h_reconcilers = reconcilers, h_validOwnerChange = validOwnerChange\<rparr>"

definition new_rstate :: "(oref \<Rightarrow> kobject) \<Rightarrow> oref \<Rightarrow> 'w \<Rightarrow> 'w rstate" where
  "new_rstate heap next w =
     \<lparr>rs_heap = heap, rs_next = next, rs_matchers = [], rs_gvks = [], rs_watching = [], rs_world = w\<rparr>"

definition new_backoff :: "'l backoff" where
  "new_backoff = \<lparr>bo_limiters = [], bo_waiting = [], bo_sleepers = []\<rparr>"

lemma NewHandlerSet_handles_nothing: "\<not> handlers_Handles (h_handlers (NewHandlerSet name sch b sem env recs valid)) req"
  by (simp add: NewHandlerSet_def handlers_Handles_def gm_list_def)

section \<open>Steps on the tables\<close>

text \<open>
  A request registers a watch, the kinds of handlers are watched, triggers are fired and, for a deleted
  object, taken out of the table, a request begins with no kinds of its own, and objects and the world change.
  \<open>allowed\<close> says which triggers may be fired: a deletion is marked \<^const>\<open>True\<close>.
\<close>

inductive tracks :: "'w handler_set \<Rightarrow> (bool \<Rightarrow> request \<Rightarrow> bool) \<Rightarrow> 'w rstate \<Rightarrow> 'w rstate \<Rightarrow> bool"
  for h allowed where
  none: "tracks h allowed s s"
| watch: "tracks h allowed s t \<Longrightarrow> registry_Watch (h_backend h) g key arg ns name sel fieldSel t = (e, t') \<Longrightarrow> tracks h allowed s t'"
| kinds: "tracks h allowed s t \<Longrightarrow> WatchGVK (h_backend h) gs t = (e, t') \<Longrightarrow> tracks h allowed s t'"
| fire: "tracks h allowed s t \<Longrightarrow> allowed deleted ev \<Longrightarrow> tracks h allowed s (fire_triggers h deleted ev t)"
| request: "tracks h allowed s t \<Longrightarrow> tracks h allowed s (t\<lparr>rs_gvks := []\<rparr>)"
| other: "tracks h allowed s t \<Longrightarrow> rs_matchers t' = rs_matchers t \<Longrightarrow> rs_gvks t' = rs_gvks t \<Longrightarrow> rs_watching t' = rs_watching t \<Longrightarrow>
    tracks h allowed s t'"

lemma tracks_trans:
  assumes "tracks h allowed s t" and "tracks h allowed t u"
  shows "tracks h allowed s u"
  using assms(2,1) by induction (auto intro: tracks.intros)

lemma tracks_mono:
  assumes "tracks h allowed s t" and "\<And>d ev. allowed d ev \<Longrightarrow> wider d ev"
  shows "tracks h wider s t"
  using assms(1) by induction (auto intro: tracks.intros assms(2))

lemma tracks_any: "tracks h (\<lambda>_ _. False) s t \<Longrightarrow> tracks h allowed s t"
  by (erule tracks_mono) simp

lemma tracks_outside:
  assumes "tracks h allowed s t"
  shows "tracks h allowed s (t\<lparr>rs_world := w\<rparr>)" and "tracks h allowed s (t\<lparr>rs_heap := heap, rs_next := n, rs_world := w\<rparr>)"
  by (rule tracks.other [OF assms], simp_all)+

text \<open>What only touches objects and the world.\<close>

definition same_tables :: "'w rstate \<Rightarrow> 'w rstate \<Rightarrow> bool" where
  "same_tables s t \<longleftrightarrow> rs_matchers t = rs_matchers s \<and> rs_gvks t = rs_gvks s \<and> rs_watching t = rs_watching s"

lemma same_tables_tracks: "same_tables s t \<Longrightarrow> tracks h allowed s t"
  by (rule tracks.other [OF tracks.none]) (simp_all add: same_tables_def)

lemma run_write_tables: "run_write wr x s = (e, s') \<Longrightarrow> same_tables s s'"
  by (auto simp: run_write_def assign_def same_tables_def split: prod.splits)

lemma run_get_tables: "run_get b ns name x s = (e, s') \<Longrightarrow> same_tables s s'"
  by (auto simp: run_get_def assign_def same_tables_def split: prod.splits sum.splits)

section \<open>The client of a request\<close>

text \<open>Every operation of the client is a watch and a call that leaves the tables alone.\<close>

lemma tracked_tracks:
  assumes "tracked (h_backend h) req arg ns name sel fieldSel op s = (e, s')"
    and "\<And>t e t'. op t = (e, t') \<Longrightarrow> same_tables t t'"
  shows "tracks h allowed s s'"
proof -
  obtain e1 s1 where w: "registry_Watch (h_backend h) (rq_gvk req) (rq_key req) arg ns name sel fieldSel s = (e1, s1)" by fastforce
  have "tracks h allowed s s1" by (rule tracks.watch [OF tracks.none w])
  moreover have "same_tables s1 s'"
    using assms(1) w assms(2) by (auto simp: tracked_def same_tables_def split: option.splits)
  ultimately show ?thesis by (metis same_tables_tracks tracks_trans)
qed

lemma reader_Get_tracks: "reader_Get (h_backend h) req ns name x s = (e, s') \<Longrightarrow> tracks h allowed s s'"
  unfolding reader_Get_def by (rule tracked_tracks, assumption, rule run_get_tables)

lemma reader_List_tracks:
  assumes "reader_List (h_backend h) req arg g ns sel fieldSel s = (r, s')"
  shows "tracks h allowed s s'"
proof -
  obtain e1 s1 where w: "registry_Watch (h_backend h) (rq_gvk req) (rq_key req) arg ns [] sel fieldSel s = (e1, s1)" by fastforce
  have "tracks h allowed s s1" by (rule tracks.watch [OF tracks.none w])
  moreover have "same_tables s1 s'"
    using assms w by (auto simp: reader_List_def same_tables_def split: option.splits prod.splits)
  ultimately show ?thesis by (metis same_tables_tracks tracks_trans)
qed

lemma track_object_tracks:
  assumes "track_object (h_backend h) req x op s = (e, s')" and "\<And>t e t'. op t = (e, t') \<Longrightarrow> same_tables t t'"
  shows "tracks h allowed s s'"
  using assms(1) unfolding track_object_def by (rule tracked_tracks) (rule assms(2))

lemma writer_tracks:
  "writer_Create (h_backend h) req x s = (e, s') \<Longrightarrow> tracks h allowed s s'"
  "writer_Update (h_backend h) req x s = (e, s') \<Longrightarrow> tracks h allowed s s'"
  "writer_Patch (h_backend h) req x ty patch s = (e, s') \<Longrightarrow> tracks h allowed s s'"
  "status_Update (h_backend h) req x s = (e, s') \<Longrightarrow> tracks h allowed s s'"
  "writer_Delete (h_backend h) req x s = (e, s') \<Longrightarrow> tracks h allowed s s'"
  unfolding writer_Create_def writer_Update_def writer_Patch_def status_Update_def writer_Delete_def
  by (erule track_object_tracks, erule run_write_tables)+
    (erule track_object_tracks, auto simp: same_tables_def split: prod.splits)

lemmas client_tracks = reader_Get_tracks reader_List_tracks writer_tracks


section \<open>A change of a key\<close>

text \<open>Handlers, and an error handler, that reach the tables only through the client.\<close>

definition uses_client :: "'w handler_set \<Rightarrow> bool" where
  "uses_client h \<longleftrightarrow>
     (\<forall>g f req p s. f \<in> set (gm_list (h_handlers h) g) \<longrightarrow> tracks h (\<lambda>_ _. False) s (snd (snd (f req p s)))) \<and>
     (\<forall>f req r e s. h_onError h = Some f \<longrightarrow> tracks h (\<lambda>_ _. False) s (snd (snd (f req r e s))))"

lemma NewHandlerSet_uses_client: "uses_client (NewHandlerSet name sch b sem env recs valid)"
  by (simp add: uses_client_def NewHandlerSet_def gm_list_def)

lemma handle_each_tracks:
  assumes "\<And>f req p s. f \<in> set fs \<Longrightarrow> tracks h allowed s (snd (snd (f req p s)))"
    and "handle_each fs req r s = (es, r', s')"
  shows "tracks h allowed s s'"
  using assms
proof (induction fs arbitrary: req r s es)
  case Nil
  then show ?case by (simp add: tracks.none)
next
  case (Cons f fs)
  obtain e q s1 where f: "f req (Resp r) s = (e, q, s1)" by (metis prod_cases3)
  obtain req1 objs where t: "take_request_object req s1 (r_objects (response_of q)) = (req1, objs)" by fastforce
  from Cons.prems(2) f t obtain es' where rest: "handle_each fs req1 ((response_of q)\<lparr>r_objects := objs\<rparr>) s1 = (es', r', s')"
    by (auto split: prod.splits)
  have "tracks h allowed s1 s'" by (rule Cons.IH [OF _ rest]) (simp add: Cons.prems(1))
  moreover have "tracks h allowed s s1" using Cons.prems(1) [where f = f and req = req and p = "Resp r" and s = s] f by simp
  ultimately show ?case by (metis tracks_trans)
qed

lemma handleError_tracks:
  assumes "uses_client h" and "handleError h req r e s = (e', r', s')"
  shows "tracks h allowed s s'"
proof (cases "h_onError h")
  case None
  with assms(2) show ?thesis by (simp add: handleError_def tracks.none)
next
  case (Some f)
  have "tracks h (\<lambda>_ _. False) s (snd (snd (f req r e s)))" using assms(1) Some by (simp add: uses_client_def)
  with assms(2) Some show ?thesis by (auto simp: handleError_def intro: tracks_any)
qed

lemma run_handlers_tracks:
  assumes "uses_client h" and "run_handlers h req r s = (e, r', s')"
  shows "tracks h allowed s s'"
proof (cases "handlers_Handles (h_handlers h) req")
  case False
  with assms(2) show ?thesis by (simp add: run_handlers_def tracks.none)
next
  case True
  obtain es r1 s1 where he: "handle_each (gm_list (h_handlers h) (rq_gvk req)) req r s = (es, r1, s1)" by (metis prod_cases3)
  have t: "tracks h allowed s s1"
    by (rule handle_each_tracks [OF _ he]) (use assms(1) in \<open>auto simp: uses_client_def intro: tracks_any\<close>)
  show ?thesis
  proof (cases "NewErrors es")
    case None
    with assms(2) True he t show ?thesis by (simp add: run_handlers_def handlers_Handle_def)
  next
    case (Some e1)
    with assms(2) True he have "handleError h req r1 (Some e1) s1 = (e, r', s')"
      by (simp add: run_handlers_def handlers_Handle_def)
    from handleError_tracks [OF assms(1) this] t show ?thesis by (metis tracks_trans)
  qed
qed

lemma run_apply_tables: "run_apply h a owner objs s = (e, s') \<Longrightarrow> same_tables (hs_r s) (hs_r s')"
  by (auto simp: run_apply_def same_tables_def split: prod.splits)

lemma save_status_tracks:
  assumes "save_status h u req s = (res, s')"
  shows "tracks h allowed s s'"
proof -
  have upd: "tracks h allowed t t'" if "run_write (cl_status_update (b_client (h_backend h))) y t = (e, t')" for y t e t'
    by (rule same_tables_tracks [OF run_write_tables [OF that]])
  have get: "tracks h allowed t t'" if "request_Get (h_backend h) req v ns n t = (e, t')" for v ns n t e t'
    using that unfolding request_Get_def by (rule reader_Get_tracks)
  show ?thesis
    using assms
    by (auto simp: save_status_def Let_def intro: tracks.none upd get tracks_trans [OF get upd]
        split: option.splits prod.splits if_splits)
qed

lemma save_tracks:
  assumes "save h u req r gs s = (res, s')"
  shows "tracks h allowed (hs_r s) (hs_r s')"
proof -
  obtain e s1 where ra: "run_apply h (save_config h r gs) (save_owner req (hs_r s)) (r_objects r) s = (e, s1)" by fastforce
  have t: "tracks h allowed (hs_r s) (hs_r s1)" by (rule same_tables_tracks [OF run_apply_tables [OF ra]])
  obtain q r2 where st: "save_status h u req (hs_r s1) = (q, r2)" by fastforce
  have "tracks h allowed (hs_r s1) r2" by (rule save_status_tracks [OF st])
  with assms ra st t show ?thesis by (auto simp: save_def intro: tracks_trans split: option.splits)
qed

lemma save_and_retry_tracks:
  assumes "uses_client h" and "save_and_retry h u req r s = (res, s')"
  shows "tracks h allowed (hs_r s) (hs_r s')"
proof -
  obtain ref e s1 where sv: "save h u req r (gm_keys (rs_watching (hs_r s))) s = ((ref, e), s1)" by (metis surj_pair)
  have t: "tracks h allowed (hs_r s) (hs_r s1)" by (rule save_tracks [OF sv])
  obtain e2 r1 s2 where he: "(case e of None \<Rightarrow> (None, r, hs_r s1) | Some e \<Rightarrow> handleError h req r (Some e) (hs_r s1)) = (e2, r1, s2)"
    by (metis prod_cases3)
  have "tracks h allowed (hs_r s1) s2"
    using he by (cases e) (auto intro: tracks.none handleError_tracks [OF assms(1)])
  then have t2: "tracks h allowed (hs_r s) s2" by (rule tracks_trans [OF t])
  have w: "tracks h allowed (hs_r s) (s2\<lparr>rs_world := w\<rparr>)" for w by (rule tracks.other [OF t2]) simp_all
  show ?thesis
    using assms(2) sv he t2 w by (auto simp: save_and_retry_def Let_def split: option.splits prod.splits if_splits)
qed

lemma handle_tracks:
  assumes "uses_client h" and "handle h g key u trigger s = (res, s')"
    and "\<And>ev. rq_gvk ev = g \<Longrightarrow> rq_key ev = key \<Longrightarrow> split_key key = (rq_namespace ev, rq_name ev) \<Longrightarrow> allowed (u = None) ev"
  shows "tracks h allowed (hs_r s) (hs_r s')"
proof -
  obtain req r s1 where nr: "newRequestResponse g key u trigger (hs_r s) = (req, r, s1)" by (metis prod_cases3)
  have ev: "rq_gvk req = g" "rq_key req = key" "split_key key = (rq_namespace req, rq_name req)"
    using nr by (auto simp: newRequestResponse_def split: option.splits prod.splits)
  have "tracks h allowed ((hs_r s)\<lparr>rs_gvks := []\<rparr>) s1"
    by (rule tracks.other [OF tracks.none])
      (use nr in \<open>auto simp: newRequestResponse_def alloc_def split: option.splits prod.splits\<close>)
  with tracks.request [OF tracks.none] have t1: "tracks h allowed (hs_r s) s1" by (rule tracks_trans)
  obtain e r1 s2 where rh: "run_handlers h req r s1 = (e, r1, s2)" by (metis prod_cases3)
  have t2: "tracks h allowed (hs_r s) s2" by (rule tracks_trans [OF t1 run_handlers_tracks [OF assms(1) rh]])
  have t3: "tracks h allowed (hs_r s) (fire_triggers h (u = None) req s2)"
    by (rule tracks.fire [OF t2 assms(3) [OF ev]])
  show ?thesis
  proof (cases e)
    case (Some e1)
    with assms(2) nr rh t2 show ?thesis by (auto simp: handle_def)
  next
    case None
    let ?s3 = "s\<lparr>hs_r := fire_triggers h (u = None) req s2\<rparr>"
    obtain out s4 where sv: "(if handlers_Handles (h_handlers h) req then save_and_retry h u req r1 ?s3 else (Inr (req, r1), ?s3)) = (out, s4)"
      by fastforce
    have t4: "tracks h allowed (hs_r s) (hs_r s4)"
    proof (cases "handlers_Handles (h_handlers h) req")
      case True
      with sv save_and_retry_tracks [OF assms(1), of u req r1 ?s3 out s4 allowed] t3 show ?thesis
        by (auto intro: tracks_trans)
    next
      case False
      with sv t3 show ?thesis by auto
    qed
    show ?thesis
    proof (cases out)
      case (Inl e1)
      with assms(2) nr rh None sv t4 show ?thesis by (auto simp: handle_def Let_def)
    next
      case (Inr p)
      obtain req1 r2 where p: "p = (req1, r2)" by (cases p)
      obtain err r3 s5 where he: "handleError h req1 r2 None (hs_r s4) = (err, r3, s5)" by (metis prod_cases3)
      have "s' = s4\<lparr>hs_r := s5\<rparr>" using assms(2) nr rh None sv Inr p he by (simp add: handle_def)
      with tracks_trans [OF t4 handleError_tracks [OF assms(1) he]] show ?thesis by simp
    qed
  qed
qed

lemma refresh_tables: "refresh h g key obj s = (r, s') \<Longrightarrow> same_tables s s'"
  by (auto simp: refresh_def alloc_def same_tables_def split: new_result.splits prod.splits option.splits if_splits
      dest!: run_get_tables)

lemma onChange_tracks:
  assumes "uses_client h" and "onChange new_limiter reserve now h g rawKey obj (bo, s) = (res, bo', s')"
    and "\<And>d ev. rq_gvk ev = g \<Longrightarrow> rq_key ev = snd (snd (parse_key rawKey)) \<Longrightarrow>
      split_key (rq_key ev) = (rq_namespace ev, rq_name ev) \<Longrightarrow> allowed d ev"
  shows "tracks h allowed (hs_r s) (hs_r s')"
proof -
  obtain t p key where k: "parse_key rawKey = (t, p, key)" by (metis prod_cases3)
  obtain r s1 where rf: "refresh h g key obj (hs_r s) = (r, s1)" by fastforce
  have t1: "tracks h allowed (hs_r s) s1" by (rule same_tables_tracks [OF refresh_tables [OF rf]])
  have "s' = s \<or> hs_r s' = s1 \<or> (\<exists>u. handle h g key u t (s\<lparr>hs_r := s1\<rparr>) = (res, s'))"
    using assms(2) k rf by (auto simp: onChange_def Let_def split: prod.splits sum.splits if_splits bool.splits)
  then show ?thesis
  proof (elim disjE exE)
    fix u
    assume h: "handle h g key u t (s\<lparr>hs_r := s1\<rparr>) = (res, s')"
    have "tracks h allowed (hs_r (s\<lparr>hs_r := s1\<rparr>)) (hs_r s')"
      by (rule handle_tracks [OF assms(1) h]) (rule assms(3), simp_all add: k)
    then show ?thesis using t1 by (metis hs_state.select_convs(1) hs_state.surjective hs_state.update_convs(1) tracks_trans)
  qed (use t1 tracks.none in auto)
qed


section \<open>What stays true\<close>

text \<open>
  The table of matchers has each kind and target once, and a kind that the current request has registered
  is watched.
\<close>

definition tables_sound :: "'w rstate \<Rightarrow> bool" where
  "tables_sound s \<longleftrightarrow> nm_ok (rs_matchers s) \<and> (\<forall>g. gm_bool (rs_gvks s) g \<longrightarrow> gm_bool (rs_watching s) g)"

lemma watch_each_watching:
  assumes "watch_each b gs s = (es, s')"
  shows "gm_bool (rs_watching s) g \<Longrightarrow> gm_bool (rs_watching s') g" and "es = [] \<Longrightarrow> g \<in> set gs \<Longrightarrow> gm_bool (rs_watching s') g"
    and "rs_gvks s' = rs_gvks s" and "rs_matchers s' = rs_matchers s" and "None \<notin> set es"
  using assms
  by (induction b gs s arbitrary: es rule: watch_each.induct) (force split: if_splits prod.splits option.splits)+

lemma WatchGVK_watching:
  assumes "WatchGVK b gs s = (e, s')"
  shows "gm_bool (rs_watching s) g \<Longrightarrow> gm_bool (rs_watching s') g" and "e = None \<Longrightarrow> g \<in> set gs \<Longrightarrow> gm_bool (rs_watching s') g"
    and "rs_gvks s' = rs_gvks s" and "rs_matchers s' = rs_matchers s"
proof -
  obtain es where w: "watch_each b gs s = (es, s')" and e: "e = NewErrors es"
    using assms by (auto simp: WatchGVK_def split: prod.splits)
  note l = watch_each_watching [OF w]
  show "gm_bool (rs_watching s) g \<Longrightarrow> gm_bool (rs_watching s') g" "rs_gvks s' = rs_gvks s" "rs_matchers s' = rs_matchers s"
    using l by blast+
  show "gm_bool (rs_watching s') g" if "e = None" "g \<in> set gs"
  proof -
    have "es = []" using that(1) l(5) e by (cases es) (auto simp: NewErrors_None_iff)
    with l(2) that(2) show ?thesis by blast
  qed
qed

lemma registry_Watch_effect:
  assumes "registry_Watch b g key arg ns name sel fieldSel s = (e, s')"
  obtains "s' = s"
  | t mr s1 e1 where "WatchGVK b [t] (s\<lparr>rs_matchers := triggers_register g key t mr (rs_matchers s)\<rparr>) = (e1, s1)"
      and "s' = s1 \<or> e1 = None \<and> s' = s1\<lparr>rs_gvks := AList.update t True (rs_gvks s1)\<rparr>"
  using assms
  by (auto simp: registry_Watch_def triggers_Register_def Let_def split: prod.splits sum.splits option.splits if_splits)

lemma tracks_sound:
  assumes "tracks h allowed s t" and "tables_sound s"
  shows "tables_sound t"
  using assms
proof (induction)
  case (watch s t g key arg ns name sel fieldSel e t')
  from watch.hyps(2) show ?case
  proof (cases rule: registry_Watch_effect)
    case 1
    with watch.IH watch.prems show ?thesis by simp
  next
    case (2 k mr s1 e1)
    note w = WatchGVK_watching [OF 2(1)]
    have "nm_ok (rs_matchers s1)" using watch.IH [OF watch.prems] triggers_register_ok by (simp add: w(4) tables_sound_def)
    moreover have "gm_bool (rs_gvks s1) x \<longrightarrow> gm_bool (rs_watching s1) x" for x
      using watch.IH [OF watch.prems] w(1) [of x] by (simp add: w(3) tables_sound_def)
    ultimately show ?thesis using 2(2) w(2) by (auto simp: tables_sound_def split: if_splits)
  qed
next
  case (kinds s t gs e t')
  note w = WatchGVK_watching [OF kinds.hyps(2)]
  from kinds.IH [OF kinds.prems] w show ?case by (simp add: tables_sound_def)
next
  case (fire s t deleted ev)
  have ok: "nm_ok (rs_matchers (fire_triggers h deleted ev t))"
  proof (cases deleted)
    case True
    obtain m w where u: "UnregisterAndTrigger (b_trigger (h_backend h)) (trigger_req_of ev t) (rs_matchers t) (rs_world t) = (m, w)"
      by fastforce
    have "nm_ok (rs_matchers t)" using fire.IH [OF fire.prems] by (simp add: tables_sound_def)
    from Unregister_watchers(2) [OF this u] show ?thesis using True u by (simp add: fire_triggers_def Let_def)
  next
    case False
    with fire.IH [OF fire.prems] show ?thesis by (simp add: fire_triggers_def Let_def tables_sound_def)
  qed
  have "rs_gvks (fire_triggers h deleted ev t) = rs_gvks t" "rs_watching (fire_triggers h deleted ev t) = rs_watching t"
    by (simp_all add: fire_triggers_def Let_def split: prod.split)
  with ok fire.IH [OF fire.prems] show ?case by (simp add: tables_sound_def)
qed (simp_all add: tables_sound_def gm_bool_def)

lemma new_rstate_sound: "tables_sound (new_rstate heap n w)"
  by (simp add: new_rstate_def tables_sound_def gm_bool_def)


section \<open>A watch lasts\<close>

text \<open>
  The triggers that leave alone the watch of an object by the handlers of a key: all but the deletion of
  what the key names and that of the object itself.
\<close>

definition spares :: "gvk \<Rightarrow> gostring \<Rightarrow> gvk \<Rightarrow> gostring \<Rightarrow> gostring \<Rightarrow> bool \<Rightarrow> request \<Rightarrow> bool" where
  "spares g key t ns name deleted ev \<longleftrightarrow>
     (deleted \<longrightarrow> (rq_gvk ev, rq_key ev) \<noteq> (g, key) \<and> (rq_gvk ev, rq_namespace ev, rq_name ev) \<noteq> (t, ns, name))"

lemma register_keeps: "mt \<in> set (watchers m t target) \<Longrightarrow> mt \<in> set (watchers (triggers_register g key t' mr m) t target)"
  by (auto simp: watchers_register)

lemma tracks_spares:
  assumes "tracks h (spares g key t ns name) s s'" and "tables_sound s"
    and "mt \<in> set (watchers (rs_matchers s) t \<lparr>et_key = key, et_gvk = g\<rparr>)" and "om_namespace mt = ns" and "om_name mt = name"
  shows "mt \<in> set (watchers (rs_matchers s') t \<lparr>et_key = key, et_gvk = g\<rparr>)"
  using assms
proof (induction)
  case (watch s u g' key' arg ns' name' sel fieldSel e u')
  from watch.hyps(2) show ?case
  proof (cases rule: registry_Watch_effect)
    case 1
    with watch.IH watch.prems show ?thesis by simp
  next
    case (2 k mr s1 e1)
    with watch.IH watch.prems register_keeps WatchGVK_watching(4) [OF 2(1)] show ?thesis by fastforce
  qed
next
  case (kinds s u gs e u')
  with WatchGVK_watching(4) [OF kinds.hyps(2)] show ?case by simp
next
  case (fire s u deleted ev)
  show ?case
  proof (cases deleted)
    case True
    let ?tr = "trigger_req_of ev u"
    obtain m w where un: "UnregisterAndTrigger (b_trigger (h_backend h)) ?tr (rs_matchers u) (rs_world u) = (m, w)" by fastforce
    have "nm_ok (rs_matchers u)" using tracks_sound [OF fire.hyps(1) fire.prems(1)] by (simp add: tables_sound_def)
    note st = Unregister_watchers(1) [OF this un, of t "\<lparr>et_key = key, et_gvk = g\<rparr>"]
    have "\<not> is_self ?tr \<lparr>et_key = key, et_gvk = g\<rparr>" "\<not> exact_match ?tr t mt"
      using fire.hyps(2) True fire.prems(3,4)
      by (auto simp: spares_def is_self_def exact_match_def trigger_req_of_def)
    with st fire.IH [OF fire.prems] un True show ?thesis by (simp add: fire_triggers_def Let_def)
  next
    case False
    with fire.IH [OF fire.prems] show ?thesis by (simp add: fire_triggers_def Let_def)
  qed
qed simp_all

text \<open>C6: what a handler read is followed for as long as both exist. A handler set that began empty has handled
  any requests; then a handler's \<open>Get\<close> is sent, for an object named by kind, namespace and name. After
  it any requests are handled, watches registered and triggers fired, but the handler's own object and
  the object read are not deleted. When the object is then handled, because it changed or because it
  is gone, the controller of the handler's kind is asked to process the handler's key, marked as a
  trigger: the key is on its queue, or is replayed when the queue is made. And a worker that takes the
  marked key handles the handler's object as the server has it, whatever the rate limiter says.\<close>

theorem read_stays_followed:
  fixes h :: "('o, 'v) Backend handler_set"
  assumes "b_trigger (h_backend h) = Backend_Trigger TriggerPrefix"
    and "tracks h (\<lambda>_ _. True) (new_rstate heap n w) s"
    and "reader_Get (h_backend h) req ns name x s = (None, s1)" and "name \<noteq> []"
    and "gvk_for (b_scheme (h_backend h)) (deref s x) = Inr t"
    and "tracks h (spares (rq_gvk req) (rq_key req) t ns name) s1 s2"
    and "rq_gvk ev = t" and "rq_namespace ev = ns" and "rq_name ev = name" and "deleted \<or> \<not> rq_fromTrigger ev"
    and "(rq_gvk req, rq_key req) \<noteq> (t, rq_key ev)"
    and "controller_at (rs_world s2) (rq_gvk req) = RealController c"
    and "\<not> has_prefix (rq_key req) ReplayPrefix"
    and "refresh h (rq_gvk req) (rq_key req) None (hs_r st) = (Inr obj, r1)"
    and "handle h (rq_gvk req) (rq_key req) obj True (st\<lparr>hs_r := r1\<rparr>) = ((res, e), st')"
  shows "(\<exists>c'. controller_at (rs_world (fire_triggers h deleted ev s2)) (rq_gvk req) = RealController c' \<and>
       requested (TriggerPrefix @ rq_key req) c') \<and>
    snd (processSingleItem get (watch_callback new_limiter reserve now h (rq_gvk req)) obj0
           (KeyItem (TriggerPrefix @ rq_key req)) (bo, st)) =
      (if obj = None then forgetBackoff (rq_gvk req) (rq_key req) bo else bo, st')"
proof -
  have "tables_sound s" by (rule tracks_sound [OF assms(2) new_rstate_sound])
  then have s1: "tables_sound s1" by (rule tracks_sound [OF reader_Get_tracks [OF assms(3)]])
  then have ok: "nm_ok (rs_matchers s2)" using tracks_sound [OF assms(6)] by (simp add: tables_sound_def)
  obtain mt where mt: "mt \<in> set (watchers (rs_matchers s1) t \<lparr>et_key = rq_key req, et_gvk = rq_gvk req\<rparr>)"
    "om_namespace mt = ns" "om_name mt = name"
    using read_watched [OF assms(3,5)] by blast
  note mt2 = tracks_spares [OF assms(6) s1 mt]
  have "\<exists>c'. controller_at (rs_world (fire_triggers h deleted ev s2)) (rq_gvk req) = RealController c' \<and>
       requested (TriggerPrefix @ rq_key req) c'"
    by (rule fire_triggers_requested [OF assms(1) ok mt2 [folded assms(7)] _ _ _ _ assms(10,12)]) (use mt assms(4,7-9,11) in simp_all)
  moreover note sync = trigger_handled [OF assms(13,14), of get new_limiter reserve now obj0 bo]
  ultimately show ?thesis
    using assms(15) by (simp add: processSingleItem_def split: option.split)
qed

text \<open>A pod's handler reads the configurations \<open>c\<close> and \<open>d\<close>; then \<open>c\<close> changes.\<close>

lemma pod_reads:
  assumes "k_gvk (deref s 0) = cm"
  shows "\<exists>s1. reader_Get (h_backend pod_set) of_pod ''n'' nm 0 s = (None, s1) \<and> rs_world s1 = rs_world s \<and> k_gvk (deref s1 0) = cm"
  using assms
  by (auto simp: reader_Get_def tracked_def registry_Watch_def triggers_Register_def WatchGVK_def pod_set_def of_pod_def
      plain_scheme_def giving_client_def run_get_def Let_def deref_def assign_def split: prod.splits option.splits)

lemma read_stays_followed_witness:
  "\<exists>s1 s2 c'. reader_Get (h_backend pod_set) of_pod ''n'' ''c'' 0 pod_state = (None, s1) \<and>
     reader_Get (h_backend pod_set) of_pod ''n'' ''d'' 0 s1 = (None, s2) \<and>
     controller_at (rs_world (fire_triggers pod_set False of_config s2)) pods = RealController c' \<and> requested ''_t n/p'' c'"
proof -
  have k0: "k_gvk (deref pod_state 0) = cm" by (simp add: pod_state_def deref_def zero_object_def)
  from pod_reads [OF this, of "''c''"] obtain s1 where 1: "reader_Get (h_backend pod_set) of_pod ''n'' ''c'' 0 pod_state = (None, s1)"
    "rs_world s1 = rs_world pod_state" "k_gvk (deref s1 0) = cm" by blast
  from pod_reads [OF 1(3), of "''d''"] obtain s2 where 2: "reader_Get (h_backend pod_set) of_pod ''n'' ''d'' 0 s1 = (None, s2)"
    "rs_world s2 = rs_world s1" by blast
  have tr: "b_trigger (h_backend pod_set) = Backend_Trigger TriggerPrefix" by (simp add: pod_set_def)
  have new: "tracks pod_set (\<lambda>_ _. True) (new_rstate (\<lambda>_. zero_object ''ConfigMap'' cm) 1 fresh_backend) pod_state"
    by (simp add: new_rstate_def pod_state_def tracks.none)
  have t: "gvk_for (b_scheme (h_backend pod_set)) (deref pod_state 0) = Inr cm"
    using k0 by (simp add: pod_set_def plain_scheme_def)
  have c: "controller_at (rs_world s2) (rq_gvk of_pod) = RealController pod_controller"
    by (simp add: 1(2) 2(2) pod_state_def controller_at_def fresh_backend_def NewSharedControllerFactory_def shared_at_def
        new_sharedController_def initController_def of_pod_def)
  let ?st = "\<lparr>hs_r = pod_state, hs_patchCache = []\<rparr>"
  have "\<exists>obj. fst (refresh pod_set (rq_gvk of_pod) (rq_key of_pod) None (hs_r ?st)) = Inr obj"
    by (simp add: refresh_def pod_set_def plain_scheme_def giving_client_def run_get_def alloc_def split: prod.split)
  then obtain obj r1 where r: "refresh pod_set (rq_gvk of_pod) (rq_key of_pod) None (hs_r ?st) = (Inr obj, r1)"
    by (metis prod.collapse)
  obtain res e st' where h: "handle pod_set (rq_gvk of_pod) (rq_key of_pod) obj True (?st\<lparr>hs_r := r1\<rparr>) = ((res, e), st')"
    by (metis surj_pair)
  have "\<exists>c'. controller_at (rs_world (fire_triggers pod_set False of_config s2)) (rq_gvk of_pod) = RealController c' \<and>
      requested (TriggerPrefix @ rq_key of_pod) c'"
    by (rule read_stays_followed [OF tr new 1(1) _ t reader_Get_tracks [OF 2(1)] _ _ _ _ _ c _ r h, THEN conjunct1])
      (simp_all add: of_pod_def of_config_def cm_def pods_def ReplayPrefix_def)
  with 1(1) 2(1) show ?thesis by (simp add: of_pod_def TriggerPrefix_def)
qed

section \<open>The life of a handler set\<close>

text \<open>
  From its start, a handler set is given keys to handle, its sleepers wake up, and in between other parts of
  the program change objects and the world.
\<close>

inductive hs_reach ::
  "'l \<Rightarrow> (int \<Rightarrow> 'l \<Rightarrow> int \<times> 'l) \<Rightarrow> 'w handler_set \<Rightarrow> 'l backoff \<times> 'w hs_state \<Rightarrow> bool"
  for new_limiter reserve h where
  created: "hs_reach new_limiter reserve h (new_backoff, \<lparr>hs_r = new_rstate heap n w, hs_patchCache = []\<rparr>)"
| started: "hs_reach new_limiter reserve h (bo, s) \<Longrightarrow> HandlerSet_Start start h (hs_r s) = (e, r) \<Longrightarrow>
    hs_reach new_limiter reserve h (bo, s\<lparr>hs_r := r\<rparr>)"
| changed: "hs_reach new_limiter reserve h (bo, s) \<Longrightarrow> onChange new_limiter reserve now h g key obj (bo, s) = (res, bo', s') \<Longrightarrow>
    hs_reach new_limiter reserve h (bo', s')"
| woken: "hs_reach new_limiter reserve h (bo, s) \<Longrightarrow> k \<in> set (bo_sleepers bo) \<Longrightarrow>
    wake (b_trigger (h_backend h)) k bo (rs_world (hs_r s)) = (bo', w) \<Longrightarrow>
    hs_reach new_limiter reserve h (bo', s\<lparr>hs_r := (hs_r s)\<lparr>rs_world := w\<rparr>\<rparr>)"
| elsewhere: "hs_reach new_limiter reserve h (bo, s) \<Longrightarrow>
    hs_reach new_limiter reserve h (bo, s\<lparr>hs_r := (hs_r s)\<lparr>rs_heap := heap, rs_next := n, rs_world := w\<rparr>\<rparr>)"

lemma onChange_backoff:
  assumes "onChange new_limiter reserve now h g rawKey obj (bo, s) = (res, bo', s')" and "bo_inv bo"
  shows "bo_inv bo'"
proof -
  obtain t p key where k: "parse_key rawKey = (t, p, key)" by (metis prod_cases3)
  let ?bo1 = "snd (if \<not> p \<and> \<not> t then checkDelay new_limiter reserve now g key bo else (True, bo))"
  have "bo_inv ?bo1" using assms(2) checkDelay_inv by auto
  moreover have "bo' = ?bo1 \<or> bo' = forgetBackoff g key ?bo1"
    using assms(1) k by (auto simp: onChange_def Let_def split: prod.splits sum.splits bool.splits if_splits)
  ultimately show ?thesis using forgetBackoff_inv by auto
qed

lemma HandlerSet_Start_tracks:
  assumes "HandlerSet_Start start h s = (e, s')"
  shows "tracks h allowed s s'"
proof -
  obtain e1 s1 where w: "WatchGVK (h_backend h) (handlers_GVKs (h_handlers h)) s = (e1, s1)" by fastforce
  have "tracks h allowed s s1" by (rule tracks.kinds [OF tracks.none w])
  then show ?thesis
    using assms w by (auto simp: HandlerSet_Start_def intro: tracks.other split: option.splits prod.splits)
qed

lemma hs_reach_tracks:
  assumes "hs_reach new_limiter reserve h q" and "uses_client h"
  shows "(\<exists>heap n w. tracks h (\<lambda>_ _. True) (new_rstate heap n w) (hs_r (snd q))) \<and> bo_inv (fst q)"
  using assms
proof (induction)
  case (created heap n w)
  have "tracks h (\<lambda>_ _. True) (new_rstate heap n w) (new_rstate heap n w)" by (rule tracks.none)
  then show ?case by (auto simp: new_backoff_def bo_inv_def gm_ok_def)
next
  case (started bo s start e r)
  have "tracks h (\<lambda>_ _. True) (hs_r s) r" by (rule HandlerSet_Start_tracks [OF started.hyps(2)])
  with started.IH [OF started.prems] show ?case by (auto intro: tracks_trans)
next
  case (changed bo s now g key obj res bo' s')
  have "tracks h (\<lambda>_ _. True) (hs_r s) (hs_r s')" by (rule onChange_tracks [OF changed.prems changed.hyps(2)]) simp
  with changed.IH [OF changed.prems] onChange_backoff [OF changed.hyps(2)] show ?case
    by (auto intro: tracks_trans)
next
  case (woken bo s k bo' w)
  have "bo_inv bo'" using wake_inv [of bo "b_trigger (h_backend h)" k "rs_world (hs_r s)"] woken by simp
  with woken.IH [OF woken.prems] tracks_outside(1) show ?case by fastforce
next
  case (elsewhere bo s heap n w)
  from elsewhere.IH [OF elsewhere.prems] tracks_outside(2) show ?case by fastforce
qed

text \<open>C7: the tables of a handler set stay sound for its whole life. Whatever keys it is given, in whatever
  order and with whatever errors, as long as its handlers reach the tables only through the client of
  their request: the table of matchers has each kind and each target once; every kind that the request
  handled last has registered is watched, so that saving prunes it; and each key that is put off has
  exactly one sleeper.\<close>

theorem handler_set_sound:
  assumes "hs_reach new_limiter reserve h (bo, s)" and "uses_client h"
  shows "nm_ok (rs_matchers (hs_r s)) \<and>
    (\<forall>g. gm_bool (rs_gvks (hs_r s)) g \<longrightarrow> g \<in> set (gm_keys (rs_watching (hs_r s)))) \<and>
    gm_ok (bo_waiting bo) \<and> distinct (bo_sleepers bo) \<and> set (bo_sleepers bo) = dom (map_of (bo_waiting bo))"
proof -
  from hs_reach_tracks [OF assms] obtain heap n w where "tracks h (\<lambda>_ _. True) (new_rstate heap n w) (hs_r s)" and b: "bo_inv bo"
    by auto
  then have "tables_sound (hs_r s)" by (blast intro: tracks_sound new_rstate_sound)
  moreover have "gm_bool m g \<Longrightarrow> g \<in> set (gm_keys m)" for m :: "(gvk, bool) gomap" and g
    by (force simp: gm_bool_def dest: map_of_SomeD split: option.splits)
  ultimately show ?thesis using b by (auto simp: tables_sound_def bo_inv_def)
qed

text \<open>A handler set whose handler reads a configuration is given the key of a pod.\<close>

definition reading_set :: "(gostring, nat) Backend handler_set" where
  "reading_set = pod_set\<lparr>h_handlers := AddHandler pods
     (\<lambda>req p s. case reader_Get (h_backend pod_set) req ''n'' ''c'' 0 s of (e, s1) \<Rightarrow> (e, p, s1)) []\<rparr>"

lemma reading_uses_client: "uses_client reading_set"
proof -
  have "tracks reading_set (\<lambda>_ _. False) s s'" if "reader_Get (h_backend pod_set) req ''n'' ''c'' 0 s = (e, s')" for req s e s'
    by (rule reader_Get_tracks) (use that in \<open>simp add: reading_set_def\<close>)
  then show ?thesis
    by (auto simp: uses_client_def reading_set_def pod_set_def AddHandler_def gm_list_def split: prod.splits if_splits)
qed

definition reading_start :: "nat backoff \<times> (gostring, nat) Backend hs_state" where
  "reading_start = (new_backoff, \<lparr>hs_r = new_rstate (\<lambda>_. zero_object ''ConfigMap'' cm) 1 fresh_backend, hs_patchCache = []\<rparr>)"

lemma reading_runs:
  "rs_gvks (hs_r (snd (snd (onChange 0 ex_limiter 0 reading_set pods ''_t n/p'' None reading_start)))) = [(cm, True)]"
  by code_simp

lemma handler_set_sound_witness:
  "\<exists>bo s. hs_reach 0 ex_limiter reading_set (bo, s) \<and> rs_gvks (hs_r s) = [(cm, True)] \<and> cm \<in> set (gm_keys (rs_watching (hs_r s)))"
proof -
  obtain res bo s where run: "onChange 0 ex_limiter 0 reading_set pods ''_t n/p'' None reading_start = (res, bo, s)"
    by (metis prod_cases3)
  have "hs_reach 0 ex_limiter reading_set (bo, s)"
    by (rule hs_reach.changed [OF hs_reach.created run [unfolded reading_start_def]])
  moreover from this have "\<forall>g. gm_bool (rs_gvks (hs_r s)) g \<longrightarrow> g \<in> set (gm_keys (rs_watching (hs_r s)))"
    by (rule handler_set_sound [OF _ reading_uses_client, THEN conjunct2, THEN conjunct1])
  moreover have "rs_gvks (hs_r s) = [(cm, True)]" using reading_runs by (simp add: run)
  moreover have "gm_bool [(cm, True)] cm" by (simp add: gm_bool_def)
  ultimately show ?thesis by (intro exI conjI) auto
qed

end
