(* ===== verification/Wiring.thy ===== *)
theory Wiring
  imports Runtimes Tester Delivery
begin

text \<open>
  How the parts are put together: constructors, and methods that pass a call on to one of the parts.
  What is not obvious about them is shown: where a nil part is reached, what is shared by nested
  transactions, and what a cache that cannot start does.
\<close>

section \<open>Transactions in contexts\<close>

text \<open>
  A context carries the references of the transactions it was made for, the innermost first;
  \<open>ht_Context\<close> is the context that a transaction hands out, \<open>ht_todo\<close> what it has deferred.
\<close>

record 's HandlerTransaction =
  ht_Context :: "nat list"
  ht_parent :: "nat list"
  ht_todo :: "('s \<Rightarrow> 's) list"

definition NewHandlerTransaction :: "nat \<Rightarrow> nat list \<Rightarrow> 's HandlerTransaction" where
  "NewHandlerTransaction ref ctx = \<lparr>ht_Context = ref # ctx, ht_parent = ctx, ht_todo = []\<rparr>"

definition getHandlerTransaction :: "nat list \<Rightarrow> nat option" where
  "getHandlerTransaction ctx = (case ctx of [] \<Rightarrow> None | ref # _ \<Rightarrow> Some ref)"

text \<open>
  \<open>do\<close> on the transaction of a context, in a store of transactions: what is done with the context of a
  transaction is deferred by that one, also inside the context of another; without one it is done.
\<close>

definition do_in ::
  "nat list \<Rightarrow> ('s \<Rightarrow> 's) \<Rightarrow> (nat \<Rightarrow> 's HandlerTransaction) \<times> 's \<Rightarrow> (nat \<Rightarrow> 's HandlerTransaction) \<times> 's" where
  "do_in ctx f = (\<lambda>(heap, s).
     case getHandlerTransaction ctx of
       None \<Rightarrow> (heap, snd (txn_do f None s))
     | Some ref \<Rightarrow> (case txn_do f (Some (ht_todo (heap ref))) s of
         (todo, s1) \<Rightarrow> (heap(ref := (heap ref)\<lparr>ht_todo := the todo\<rparr>), s1)))"

lemma do_in_innermost:
  assumes "heap ref = NewHandlerTransaction ref ctx"
  shows "do_in (ht_Context (heap ref)) f (heap, s) = (heap(ref := (heap ref)\<lparr>ht_todo := [f]\<rparr>), s)"
  using assms by (simp add: do_in_def getHandlerTransaction_def NewHandlerTransaction_def txn_do_def)

text \<open>Committing an inner transaction does its functions at once, also inside an outer one.\<close>

lemma inner_commit_escapes:
  assumes "outer \<noteq> inner" and "heap outer = NewHandlerTransaction outer []"
    and "heap inner = NewHandlerTransaction inner (ht_Context (heap outer))"
  shows "case do_in (ht_Context (heap inner)) f (heap, s) of (heap1, s1) \<Rightarrow>
    s1 = s \<and> ht_todo (heap1 outer) = [] \<and> Commit (ht_todo (heap1 inner)) s1 = ([], f s)"
  using assms
  by (simp add: do_in_def getHandlerTransaction_def NewHandlerTransaction_def txn_do_def Commit_def)

section \<open>The backend\<close>

definition newBackend :: "('o, 'w) factory \<Rightarrow> ('o, 'w) Backend" where
  "newBackend cacheFactory = \<lparr>be_factory = cacheFactory, be_started = False, be_purging = False\<rparr>"

definition hasStarted :: "('o, 'w) Backend \<Rightarrow> bool" where
  "hasStarted b = be_started b"

text \<open>The informer of the cache; \<open>shared\<close> says whether it is a \<open>SharedIndexInformer\<close>, as the backend expects.\<close>

definition Backend_GetInformerForKind :: "(gvk \<Rightarrow> err + 'i) \<Rightarrow> ('i \<Rightarrow> bool) \<Rightarrow> gvk \<Rightarrow> (err + 'i) option" where
  "Backend_GetInformerForKind get shared g =
     (case get g of Inl e \<Rightarrow> Some (Inl e) | Inr i \<Rightarrow> if shared i then Some (Inr i) else None)"

text \<open>A backend has started when its start reported no error, and stays so.\<close>

lemma Backend_Start_started:
  assumes "Backend_Start env synced b = ((e, runs), b')"
  shows "hasStarted b' \<longleftrightarrow> hasStarted b \<or> e = None"
  using assms by (auto simp: Backend_Start_def hasStarted_def split: prod.splits option.splits if_splits)

section \<open>Clients and caches per group\<close>

text \<open>The scheme of a multi client is that of its default client; without one it panics.\<close>

definition mc_Scheme :: "('w watch_client \<Rightarrow> kscheme) \<Rightarrow> 'w multiClient \<Rightarrow> kscheme option" where
  "mc_Scheme scheme_of m = map_option scheme_of (mc_default m)"

definition mc_GroupVersionKindFor :: "('w watch_client \<Rightarrow> kscheme) \<Rightarrow> 'w multiClient \<Rightarrow> kobject \<Rightarrow> (err + gvk) option" where
  "mc_GroupVersionKindFor scheme_of m ob = map_option (\<lambda>sch. gvk_for sch ob) (mc_Scheme scheme_of m)"

definition mc_IsObjectNamespaced ::
  "('w kclient \<Rightarrow> kobject \<Rightarrow> 'w \<Rightarrow> (err + bool) \<times> 'w) \<Rightarrow> kscheme \<Rightarrow> 'w multiClient \<Rightarrow> kobject \<Rightarrow> 'w \<Rightarrow> (err + bool) \<times> 'w" where
  "mc_IsObjectNamespaced op = mc_request op"

definition mc_status_Create ::
  "('w kclient \<Rightarrow> kobject \<Rightarrow> kobject \<Rightarrow> 'w \<Rightarrow> (err + unit) \<times> 'w) \<Rightarrow> kscheme \<Rightarrow> 'w multiClient \<Rightarrow> kobject \<Rightarrow> kobject \<Rightarrow>
     'w \<Rightarrow> (err + unit) \<times> 'w" where
  "mc_status_Create op sch m ob sub = mc_request (\<lambda>c ob. op c ob sub) sch m ob"

definition mc_status_Patch ::
  "('w kclient \<Rightarrow> kobject \<Rightarrow> patch_type \<Rightarrow> gostring \<Rightarrow> 'w kwrite) \<Rightarrow> kscheme \<Rightarrow> 'w multiClient \<Rightarrow> kobject \<Rightarrow> patch_type \<Rightarrow>
     gostring \<Rightarrow> 'w kwrite" where
  "mc_status_Patch op sch m ob ty patch = mc_write (\<lambda>c ob. op c ob ty patch) sch m ob"

definition NewCache :: "'c option \<Rightarrow> (gostring, 'c) gomap \<Rightarrow> 'c multiCache" where
  "NewCache defaultCache caches = \<lparr>mca_default = defaultCache, mca_caches = caches\<rparr>"

definition mca_IndexField ::
  "kscheme \<Rightarrow> ('c \<Rightarrow> gostring \<Rightarrow> 'w \<Rightarrow> (err + unit) \<times> 'w) \<Rightarrow> 'c multiCache \<Rightarrow> kobject \<Rightarrow> gostring \<Rightarrow> 'w \<Rightarrow> (err + unit) \<times> 'w" where
  "mca_IndexField sch op m ob field = mca_request sch (\<lambda>c. op c field) m ob"

text \<open>
  \<open>Start\<close> returns at once, without an error. Each cache is started on its own: \<open>started c\<close> is what
  its \<open>Start\<close> returns in the end, and an error is a panic of the process, as is a default cache that is nil.
\<close>

definition mca_goroutines :: "'c multiCache \<Rightarrow> 'c option list" where
  "mca_goroutines m = mca_default m # map (Some \<circ> snd) (mca_caches m)"

definition cache_panics :: "('c \<Rightarrow> err option) \<Rightarrow> 'c option \<Rightarrow> bool" where
  "cache_panics started c = (case c of None \<Rightarrow> True | Some c \<Rightarrow> started c \<noteq> None)"

definition mca_Start :: "('c \<Rightarrow> err option) \<Rightarrow> 'c multiCache \<Rightarrow> err option \<times> bool" where
  "mca_Start started m = (None, list_ex (cache_panics started) (mca_goroutines m))"

lemma mca_Start_hides_errors:
  "fst (mca_Start started m) = None"
  "snd (mca_Start started m) \<longleftrightarrow> mca_default m = None \<or> (\<exists>c. mca_default m = Some c \<and> started c \<noteq> None) \<or>
     (\<exists>g c. (g, c) \<in> set (mca_caches m) \<and> started c \<noteq> None)"
  by (cases "mca_default m"; force simp: mca_Start_def mca_goroutines_def cache_panics_def list_ex_iff)+

section \<open>Waiting for objects\<close>

text \<open>
  \<open>New\<close>, \<open>bySelector\<close> with the list kind of its type, and the three ways to wait: for a name, for an object
  and for a selector. \<open>list_with\<close> and \<open>watch_with\<close> are the client's \<open>List\<close> and \<open>Watch\<close> with a list kind,
  a namespace and selectors; \<open>field_set\<close> is \<open>fields.SelectorFromSet\<close>.
\<close>

record 'w waiter =
  wt_scheme :: kscheme
  wt_item :: kobject
  wt_list :: "gvk \<Rightarrow> gostring \<Rightarrow> label_selector option \<Rightarrow> field_selector option \<Rightarrow> 'w \<Rightarrow> (err + kobject list \<times> gostring) \<times> 'w"
  wt_watch :: "gvk \<Rightarrow> gostring \<Rightarrow> label_selector option \<Rightarrow> field_selector option \<Rightarrow> gostring \<Rightarrow> 'w \<Rightarrow> (err + poll list) \<times> 'w"
  wt_field_set :: "(gostring, gostring) gomap \<Rightarrow> field_selector"

definition wait_bySelector ::
  "'w waiter \<Rightarrow> nat \<Rightarrow> ('w \<Rightarrow> err option \<times> 'w) \<Rightarrow> gostring \<Rightarrow> label_selector option \<Rightarrow> field_selector option \<Rightarrow>
     'w callback \<Rightarrow> 'w \<Rightarrow> ((kobject option \<times> err option) \<times> 'w) option" where
  "wait_bySelector wt now pause namespace selector fieldSelector cb w =
     (case newListObj (wt_scheme wt) (wt_item wt) of
        Inl e \<Rightarrow> Some ((None, Some e), w)
      | Inr lg \<Rightarrow> bySelector now (wt_list wt lg namespace selector fieldSelector)
          (wt_watch wt lg namespace selector fieldSelector) pause cb w)"

definition ByName ::
  "'w waiter \<Rightarrow> nat \<Rightarrow> ('w \<Rightarrow> err option \<times> 'w) \<Rightarrow> gostring \<Rightarrow> gostring \<Rightarrow> 'w callback \<Rightarrow> 'w \<Rightarrow>
     ((kobject option \<times> err option) \<times> 'w) option" where
  "ByName wt now pause namespace name cb w =
     wait_bySelector wt now pause namespace None (Some (wt_field_set wt [(''metadata.name'', name)])) cb w"

definition ByObject ::
  "'w waiter \<Rightarrow> nat \<Rightarrow> ('w \<Rightarrow> err option \<times> 'w) \<Rightarrow> kobject \<Rightarrow> 'w callback \<Rightarrow> 'w \<Rightarrow>
     ((kobject option \<times> err option) \<times> 'w) option" where
  "ByObject wt now pause obj cb w = ByName wt now pause (k_namespace obj) (k_name obj) cb w"

definition BySelector ::
  "'w waiter \<Rightarrow> nat \<Rightarrow> ('w \<Rightarrow> err option \<times> 'w) \<Rightarrow> gostring \<Rightarrow> label_selector option \<Rightarrow> 'w callback \<Rightarrow> 'w \<Rightarrow>
     ((kobject option \<times> err option) \<times> 'w) option" where
  "BySelector wt now pause namespace selector cb w = wait_bySelector wt now pause namespace selector None cb w"

text \<open>A kind that the scheme does not know is refused before any request; an object that is already as wanted ends the wait.\<close>

lemma ByObject_unknown_kind:
  "newListObj (wt_scheme wt) (wt_item wt) = Inl e \<Longrightarrow> ByObject wt now pause obj cb w = Some ((None, Some e), w)"
  by (simp add: ByObject_def ByName_def wait_bySelector_def)

lemma ByObject_already_done:
  assumes "newListObj (wt_scheme wt) (wt_item wt) = Inr lg"
    and "wt_list wt lg (k_namespace obj) None (Some (wt_field_set wt [(''metadata.name'', k_name obj)])) w = (Inr ([x], revision), w1)"
    and "cb x w1 = ((True, None), w2)"
  shows "ByObject wt now pause obj cb w = Some ((Some x, None), w2)"
  using assms by (simp add: ByObject_def ByName_def wait_bySelector_def bySelector_def)

section \<open>The client of the harness\<close>

text \<open>
  Of the harness's client, \<open>Delete\<close>, \<open>Patch\<close>, \<open>DeleteAllOf\<close>, \<open>Status\<close>, \<open>SubResource\<close>, \<open>RESTMapper\<close> and
  \<open>IsObjectNamespaced\<close> panic. A handler that needs one of them cannot be tested.
\<close>

definition tc_unimplemented :: "tstate \<Rightarrow> ('r \<times> tstate) option" where
  "tc_unimplemented s = None"

definition tc_GroupVersionKindFor :: "kscheme \<Rightarrow> kobject \<Rightarrow> err + gvk" where
  "tc_GroupVersionKindFor sch ob = gvk_for sch ob"

section \<open>Small ones\<close>

text \<open>\<open>router.Key\<close> and the handler that does nothing, with which a kind is watched for pruning only.\<close>

definition router_Key :: "gostring \<Rightarrow> gostring \<Rightarrow> objkey" where
  "router_Key namespace name = objkey.make name namespace"

definition DoNothing :: "'w handler" where
  "DoNothing req resp s = (None, resp, s)"

lemma DoNothing_watches: "handlers_Handles (AddHandler g DoNothing t) req \<longleftrightarrow> rq_gvk req = g \<or> handlers_Handles t req"
  by (simp add: handlers_Handles_def AddHandler_def)

end
